(* ===== verification/Prelude.thy ===== *)
theory Prelude
  imports Complex_Main "HOL-Library.Word" "HOL-Library.Sublist"
begin

text \<open>
  Shared vocabulary of the development: the collections of rewrite rules the component
  theories feed, the result type of fallible Go functions, Go's time and duration
  arithmetic, 64-bit wrap-around, reachability of step relations, and the generic list
  and map lemmas that several components use.
\<close>

named_theorems go_defs \<open>definitions of Go library functions, unfolded in evaluations\<close>
named_theorems frame \<open>facts that an operation leaves a part of the state alone\<close>

section \<open>Results, times and machine integers\<close>

text \<open>A Go function returning \<open>(T, error)\<close> is a sum: \<open>Inl\<close> the error, \<open>Inr\<close> the value.\<close>

type_synonym ('e, 'a) result = "'e + 'a"

text \<open>
  A \<open>time.Time\<close> is its number of nanoseconds since the Unix epoch; the zero value of
  \<open>time.Time\<close> is \<open>None\<close> wherever the code tests \<open>IsZero\<close>. A \<open>time.Duration\<close> is a
  signed 64-bit number of nanoseconds, and \<open>Time.Sub\<close> saturates at its bounds.
\<close>

type_synonym go_time = int
type_synonym duration = int

definition max_duration :: duration where
  "max_duration = 2 ^ 63 - 1"

definition min_duration :: duration where
  "min_duration = - (2 ^ 63)"

definition time_sub :: "go_time \<Rightarrow> go_time \<Rightarrow> duration" where
  "time_sub t u = max min_duration (min max_duration (t - u))"

definition Second :: duration where
  "Second = 1000000000"

definition Minute :: duration where
  "Minute = 60 * Second"

text \<open>Two's complement wrap-around of \<open>int64\<close> (and of Go's \<open>int\<close> on amd64).\<close>

definition wrap64 :: "int \<Rightarrow> int" where
  "wrap64 x = (x + 2 ^ 63) mod 2 ^ 64 - 2 ^ 63"

definition int64_range :: "int \<Rightarrow> bool" where
  "int64_range x \<longleftrightarrow> - (2 ^ 63) \<le> x \<and> x < 2 ^ 63"

section \<open>Reachable states\<close>

inductive reach :: "('s \<Rightarrow> bool) \<Rightarrow> ('s \<Rightarrow> 's \<Rightarrow> bool) \<Rightarrow> 's \<Rightarrow> bool"
  for start :: "'s \<Rightarrow> bool" and step :: "'s \<Rightarrow> 's \<Rightarrow> bool" where
  reach_start: "start s \<Longrightarrow> reach start step s"
| reach_step: "reach start step s \<Longrightarrow> step s t \<Longrightarrow> reach start step t"

text \<open>
  The contract of a component whose steps keep an invariant. Every concurrent component
  of the program interprets it on its own step relation.
\<close>

locale invariant_system =
  fixes start :: "'s \<Rightarrow> bool"
    and step :: "'s \<Rightarrow> 's \<Rightarrow> bool"
    and inv :: "'s \<Rightarrow> bool"
  assumes start_inv: "start s \<Longrightarrow> inv s"
    and step_inv: "step s t \<Longrightarrow> inv s \<Longrightarrow> inv t"
begin

lemma reach_inv: "reach start step s \<Longrightarrow> inv s"
  by (induction rule: reach.induct) (auto intro: start_inv step_inv)

lemma rtranclp_inv: "step\<^sup>*\<^sup>* s t \<Longrightarrow> inv s \<Longrightarrow> inv t"
  by (induction rule: rtranclp_induct) (auto intro: step_inv)

end

section \<open>Generic lemmas\<close>

lemma wrap64_id [simp]: "int64_range x \<Longrightarrow> wrap64 x = x"
  by (simp add: wrap64_def int64_range_def)

lemma wrap64_range [simp, intro]: "int64_range (wrap64 x)"
proof -
  have "0 \<le> (x + 2 ^ 63) mod 2 ^ 64" and "(x + 2 ^ 63) mod 2 ^ 64 < 2 ^ 64"
    by (rule pos_mod_sign pos_mod_bound; simp)+
  then show ?thesis by (simp add: wrap64_def int64_range_def)
qed

lemma time_sub_exact:
  "\<bar>t - u\<bar> < 2 ^ 63 \<Longrightarrow> time_sub t u = t - u"
  by (auto simp: time_sub_def min_duration_def max_duration_def)

lemma time_sub_self [simp]: "time_sub t t = 0"
  by (simp add: time_sub_def min_duration_def max_duration_def)

lemma time_sub_ge_iff:
  "0 < d \<Longrightarrow> d \<le> max_duration \<Longrightarrow> d \<le> time_sub t u \<longleftrightarrow> d \<le> t - u"
  by (auto simp: time_sub_def min_duration_def max_duration_def)

lemma time_sub_nonneg_iff [simp]: "0 \<le> time_sub t u \<longleftrightarrow> u \<le> t"
  by (auto simp: time_sub_def min_duration_def max_duration_def)

lemma length_filter_partition:
  "length (filter P xs) + length (filter (\<lambda>x. \<not> P x) xs) = length xs"
  by (induction xs) auto

lemma map_le_card_dom_upd:
  "finite (dom m) \<Longrightarrow> card (dom (m(k \<mapsto> v))) = (if m k = None then Suc (card (dom m)) else card (dom m))"
  by (auto simp: card_insert_if domIff insert_absorb)

lemma card_dom_del:
  "finite (dom m) \<Longrightarrow> card (dom (m(k := None))) = (if m k = None then card (dom m) else card (dom m) - 1)"
  by (auto simp: domIff)

end
