(* ===== verification/Serial.thy ===== *)
theory Serial
  imports Prelude
begin

text \<open>
  The serial console tee of \<open>control-plane/internal/session/serial.go\<close>: a goroutine that
  drains the VM's serial output into a bounded ring and offers every chunk to the current
  subscriber, and \<open>Attach\<close> with its cleanup. The channels are explicit (a queue of capacity
  64 and a closed flag), and because the chunk is sent after the mutex is released, the
  interleavings are a step relation over the critical sections.
\<close>

record tee_chan =
  tc_queue :: "string list"
  tc_closed :: bool

record serial_tee =
  t_ring :: string
  t_ringLimit :: nat
  t_subscriber :: "nat option"
  t_chans :: "tee_chan list"

text \<open>A channel is its index in \<open>t_chans\<close>.\<close>

definition NewSerialTee :: "nat \<Rightarrow> serial_tee" where
  "NewSerialTee limit = \<lparr>t_ring = [], t_ringLimit = limit, t_subscriber = None, t_chans = []\<rparr>"

definition chan_cap :: nat where
  "chan_cap = 64"

text \<open>The ring after a write: when it is over the limit, its oldest bytes are cut off.\<close>

definition ring_write :: "nat \<Rightarrow> string \<Rightarrow> string \<Rightarrow> string" where
  "ring_write limit data ring =
     (let r = ring @ data; over = int (length r) - int limit
      in if over > 0 then drop (nat over) r else r)"

text \<open>The critical section of \<open>drain\<close>: the ring is written and the subscriber read.\<close>

definition drain_locked :: "string \<Rightarrow> serial_tee \<Rightarrow> serial_tee \<times> nat option" where
  "drain_locked data t =
     (t\<lparr>t_ring := ring_write (t_ringLimit t) data (t_ring t)\<rparr>, t_subscriber t)"

text \<open>The send outside of it: on a closed channel it panics, on a full one the chunk is dropped.\<close>

datatype send_result = Sent | Dropped | Send_panic

definition drain_send :: "nat \<Rightarrow> string \<Rightarrow> serial_tee \<Rightarrow> serial_tee \<times> send_result" where
  "drain_send ch data t =
     (let c = t_chans t ! ch
      in if tc_closed c then (t, Send_panic)
         else if length (tc_queue c) < chan_cap then
           (t\<lparr>t_chans := (t_chans t)[ch := c\<lparr>tc_queue := tc_queue c @ [data]\<rparr>]\<rparr>, Sent)
         else (t, Dropped))"

definition tee_Attach :: "serial_tee \<Rightarrow> serial_tee \<times> string \<times> nat" where
  "tee_Attach t =
     (t\<lparr>t_chans := t_chans t @ [\<lparr>tc_queue = [], tc_closed = False\<rparr>], t_subscriber := Some (length (t_chans t))\<rparr>,
      t_ring t, length (t_chans t))"

text \<open>The two parts of the cleanup; closing a closed channel panics.\<close>

definition cleanup_detach :: "nat \<Rightarrow> serial_tee \<Rightarrow> serial_tee" where
  "cleanup_detach ch t = (if t_subscriber t = Some ch then t\<lparr>t_subscriber := None\<rparr> else t)"

definition cleanup_close :: "nat \<Rightarrow> serial_tee \<Rightarrow> serial_tee \<times> bool" where
  "cleanup_close ch t =
     (let c = t_chans t ! ch
      in if tc_closed c then (t, True)
         else (t\<lparr>t_chans := (t_chans t)[ch := c\<lparr>tc_closed := True\<rparr>]\<rparr>, False))"

text \<open>Receiving a chunk, as the terminal handler does.\<close>

definition tee_recv :: "nat \<Rightarrow> serial_tee \<Rightarrow> (serial_tee \<times> string) option" where
  "tee_recv ch t =
     (let c = t_chans t ! ch
      in case tc_queue c of
           [] \<Rightarrow> None
         | d # q \<Rightarrow> Some (t\<lparr>t_chans := (t_chans t)[ch := c\<lparr>tc_queue := q\<rparr>]\<rparr>, d))"

text \<open>\<open>drain\<close> on the chunks its reads return, with nothing else running.\<close>

fun drain_chunks :: "string list \<Rightarrow> serial_tee \<Rightarrow> serial_tee" where
  "drain_chunks [] t = t"
| "drain_chunks (d # ds) t =
     drain_chunks ds
       (if d = [] then t
        else case drain_locked d t of
               (t', None) \<Rightarrow> t'
             | (t', Some ch) \<Rightarrow> fst (drain_send ch d t'))"

section \<open>Interleavings\<close>

text \<open>
  A run of the goroutines: the tee, the chunk the drain is about to send, and as history
  variables all output so far, per channel the position of its \<open>Attach\<close>, its replay and
  what its client received, the channels that lost a chunk, those being cleaned up, and
  whether a goroutine panicked.
\<close>

record tee_sys =
  y_tee :: serial_tee
  y_pending :: "(nat \<times> string) option"
  y_total :: string
  y_base :: "nat list"
  y_replay :: "string list"
  y_got :: "string list"
  y_lossy :: "nat set"
  y_detached :: "nat set"
  y_panic :: bool

definition lastn :: "nat \<Rightarrow> 'a list \<Rightarrow> 'a list" where
  "lastn n xs = drop (length xs - n) xs"

definition tee_start :: "nat \<Rightarrow> tee_sys \<Rightarrow> bool" where
  "tee_start limit y \<longleftrightarrow>
     y = \<lparr>y_tee = NewSerialTee limit, y_pending = None, y_total = [], y_base = [], y_replay = [],
          y_got = [], y_lossy = {}, y_detached = {}, y_panic = False\<rparr>"

inductive tee_step :: "tee_sys \<Rightarrow> tee_sys \<Rightarrow> bool" where
  read: "\<not> y_panic y \<Longrightarrow> y_pending y = None \<Longrightarrow> d \<noteq> [] \<Longrightarrow> drain_locked d (y_tee y) = (t, sub) \<Longrightarrow>
     tee_step y (y\<lparr>y_tee := t, y_total := y_total y @ d, y_pending := map_option (\<lambda>ch. (ch, d)) sub\<rparr>)"
| send: "\<not> y_panic y \<Longrightarrow> y_pending y = Some (ch, d) \<Longrightarrow> drain_send ch d (y_tee y) = (t, res) \<Longrightarrow>
     tee_step y (y\<lparr>y_tee := t, y_pending := None,
                   y_lossy := (if res = Dropped then insert ch (y_lossy y) else y_lossy y),
                   y_panic := (res = Send_panic)\<rparr>)"
| attach: "\<not> y_panic y \<Longrightarrow> tee_Attach (y_tee y) = (t, replay, ch) \<Longrightarrow>
     tee_step y (y\<lparr>y_tee := t, y_base := y_base y @ [length (y_total y)], y_replay := y_replay y @ [replay],
                   y_got := y_got y @ [[]]\<rparr>)"
| recv: "\<not> y_panic y \<Longrightarrow> ch < length (t_chans (y_tee y)) \<Longrightarrow> tee_recv ch (y_tee y) = Some (t, d) \<Longrightarrow>
     tee_step y (y\<lparr>y_tee := t, y_got := (y_got y)[ch := y_got y ! ch @ d]\<rparr>)"
| detach: "\<not> y_panic y \<Longrightarrow> ch < length (t_chans (y_tee y)) \<Longrightarrow> ch \<notin> y_detached y \<Longrightarrow>
     tee_step y (y\<lparr>y_tee := cleanup_detach ch (y_tee y), y_detached := insert ch (y_detached y)\<rparr>)"
| close: "\<not> y_panic y \<Longrightarrow> ch \<in> y_detached y \<Longrightarrow> \<not> tc_closed (t_chans (y_tee y) ! ch) \<Longrightarrow>
     tee_step y (y\<lparr>y_tee := fst (cleanup_close ch (y_tee y))\<rparr>)"

text \<open>What channel \<open>ch\<close> has been given so far: received, queued and about to be sent.\<close>

definition given :: "tee_sys \<Rightarrow> nat \<Rightarrow> string" where
  "given y ch =
     y_got y ! ch @ concat (tc_queue (t_chans (y_tee y) ! ch))
       @ (case y_pending y of None \<Rightarrow> [] | Some (c, d) \<Rightarrow> if c = ch then d else [])"

definition nchans :: "tee_sys \<Rightarrow> nat" where
  "nchans y = length (t_chans (y_tee y))"

text \<open>Well-formedness: the ring, the history variables and the bookkeeping of the channels.\<close>

definition tee_wf :: "nat \<Rightarrow> tee_sys \<Rightarrow> bool" where
  "tee_wf limit y \<longleftrightarrow>
     t_ringLimit (y_tee y) = limit \<and> t_ring (y_tee y) = lastn limit (y_total y)
   \<and> length (y_base y) = nchans y \<and> length (y_replay y) = nchans y \<and> length (y_got y) = nchans y
   \<and> (\<forall>ch. t_subscriber (y_tee y) = Some ch \<longrightarrow> ch < nchans y \<and> ch \<notin> y_detached y)
   \<and> (\<forall>ch d. y_pending y = Some (ch, d) \<longrightarrow> ch < nchans y)
   \<and> y_detached y \<subseteq> {..<nchans y} \<and> y_lossy y \<subseteq> {..<nchans y}"

definition chan_wf :: "nat \<Rightarrow> tee_sys \<Rightarrow> nat \<Rightarrow> bool" where
  "chan_wf limit y ch \<longleftrightarrow>
     length (tc_queue (t_chans (y_tee y) ! ch)) \<le> chan_cap
   \<and> (tc_closed (t_chans (y_tee y) ! ch) \<longrightarrow> ch \<in> y_detached y)
   \<and> y_base y ! ch \<le> length (y_total y)
   \<and> y_replay y ! ch = lastn limit (take (y_base y ! ch) (y_total y))"

text \<open>A channel that lost nothing holds the output from its \<open>Attach\<close> on, all of it while subscribed.\<close>

definition view_ok :: "tee_sys \<Rightarrow> nat \<Rightarrow> bool" where
  "view_ok y ch \<longleftrightarrow>
     prefix (given y ch) (drop (y_base y ! ch) (y_total y))
   \<and> (t_subscriber (y_tee y) = Some ch \<longrightarrow> given y ch = drop (y_base y ! ch) (y_total y))"

definition tee_inv :: "nat \<Rightarrow> tee_sys \<Rightarrow> bool" where
  "tee_inv limit y \<longleftrightarrow>
     tee_wf limit y \<and> (\<forall>ch < nchans y. chan_wf limit y ch)
   \<and> (\<not> y_panic y \<longrightarrow> (\<forall>ch < nchans y. ch \<notin> y_lossy y \<longrightarrow> view_ok y ch))"

section \<open>Lemmas\<close>

lemma ring_write_lastn: "ring_write limit data ring = lastn limit (ring @ data)"
proof -
  have "nat (int (length (ring @ data)) - int limit) = length (ring @ data) - limit"
    by linarith
  then show ?thesis
    by (auto simp: ring_write_def lastn_def Let_def simp del: length_append)
qed

lemma lastn_lastn_append: "lastn n (lastn n xs @ ys) = lastn n (xs @ ys)"
proof (cases "length xs \<le> n")
  case False
  then show ?thesis
    by (cases "length ys \<le> n") (simp_all add: lastn_def add.commute)
qed (simp add: lastn_def)

lemma lastn_length: "length (lastn n xs) \<le> n"
  by (simp add: lastn_def)

lemma drain_send_ring [simp]:
  "t_ring (fst (drain_send ch d t)) = t_ring t" "t_ringLimit (fst (drain_send ch d t)) = t_ringLimit t"
  "t_subscriber (fst (drain_send ch d t)) = t_subscriber t"
  "length (t_chans (fst (drain_send ch d t))) = length (t_chans t)"
  by (simp_all add: drain_send_def Let_def)

lemma drain_chunks_lastn:
  "t_ring t = lastn (t_ringLimit t) out \<Longrightarrow> t_ring (drain_chunks ds t) = lastn (t_ringLimit t) (out @ concat ds)"
proof (induction ds arbitrary: t out)
  case (Cons d ds)
  let ?t = "if d = [] then t else case drain_locked d t of (t', None) \<Rightarrow> t' | (t', Some ch) \<Rightarrow> fst (drain_send ch d t')"
  have "t_ringLimit ?t = t_ringLimit t" "t_ring ?t = lastn (t_ringLimit ?t) (out @ d)"
    using Cons.prems by (auto simp: drain_locked_def ring_write_lastn lastn_lastn_append split: option.split)
  then show ?case
    using Cons.IH [of ?t "out @ d"] by simp
qed simp

lemma lastn_take_append: "b \<le> length xs \<Longrightarrow> lastn n (take b (xs @ ys)) = lastn n (take b xs)"
  by simp

lemma tee_inv_read:
  assumes "tee_inv limit y" "\<not> y_panic y" "y_pending y = None" "drain_locked d (y_tee y) = (t, sub)"
  shows "tee_inv limit (y\<lparr>y_tee := t, y_total := y_total y @ d, y_pending := map_option (\<lambda>ch. (ch, d)) sub\<rparr>)"
    (is "tee_inv limit ?y")
proof -
  have t: "t_chans t = t_chans (y_tee y)" "t_subscriber t = t_subscriber (y_tee y)" "sub = t_subscriber (y_tee y)"
    "t_ringLimit t = t_ringLimit (y_tee y)" "t_ring t = ring_write (t_ringLimit (y_tee y)) d (t_ring (y_tee y))"
    using assms(4) by (auto simp: drain_locked_def)
  have n: "nchans ?y = nchans y"
    by (simp add: nchans_def t)
  have wf: "tee_wf limit ?y"
    using assms(1) n by (auto simp: tee_inv_def tee_wf_def t ring_write_lastn lastn_lastn_append)
  have ch: "chan_wf limit ?y ch" if "ch < nchans y" for ch
    using assms(1) that by (auto simp: tee_inv_def chan_wf_def t)
  have view: "view_ok ?y ch" if c: "ch < nchans y" "ch \<notin> y_lossy y" for ch
  proof -
    have v: "view_ok y ch" and b: "y_base y ! ch \<le> length (y_total y)"
      using assms(1,2) c by (auto simp: tee_inv_def chan_wf_def)
    have "given ?y ch = given y ch @ (if t_subscriber (y_tee y) = Some ch then d else [])"
      using assms(3) by (auto simp: given_def t split: option.splits)
    then show ?thesis
      using v b by (auto simp: view_ok_def t intro: prefix_prefix)
  qed
  show ?thesis
    using wf ch view n assms(2) by (simp add: tee_inv_def)
qed

lemma tee_inv_send:
  assumes "tee_inv limit y" "\<not> y_panic y" "y_pending y = Some (ch, d)" "drain_send ch d (y_tee y) = (t, res)"
  shows "tee_inv limit (y\<lparr>y_tee := t, y_pending := None,
      y_lossy := (if res = Dropped then insert ch (y_lossy y) else y_lossy y), y_panic := (res = Send_panic)\<rparr>)"
    (is "tee_inv limit ?y")
proof -
  have c: "ch < nchans y"
    using assms(1,3) by (auto simp: tee_inv_def tee_wf_def)
  have n: "nchans ?y = nchans y"
    using drain_send_ring(4) [of ch d "y_tee y"] assms(4) by (simp add: nchans_def)
  have t: "t_ring t = t_ring (y_tee y)" "t_ringLimit t = t_ringLimit (y_tee y)" "t_subscriber t = t_subscriber (y_tee y)"
    using drain_send_ring [of ch d "y_tee y"] assms(4) by simp_all
  have wf: "tee_wf limit ?y"
    using assms(1) n c by (auto simp: tee_inv_def tee_wf_def t)
  have "chan_wf limit ?y i" if "i < nchans y" for i
    using assms(1,4) that c
    by (auto simp: tee_inv_def chan_wf_def drain_send_def Let_def nchans_def nth_list_update split: if_splits)
  moreover have "view_ok ?y i" if i: "i < nchans y" "i \<notin> y_lossy ?y" "\<not> y_panic ?y" for i
  proof -
    have v: "view_ok y i"
      using assms(1,2) i by (auto simp: tee_inv_def split: if_splits)
    have "given ?y i = given y i"
      using assms(3,4) i c
      by (auto simp: given_def drain_send_def Let_def nchans_def nth_list_update split: if_splits)
    then show ?thesis
      using v by (simp add: view_ok_def t)
  qed
  ultimately show ?thesis
    unfolding tee_inv_def n using wf by blast
qed

lemma tee_inv_attach:
  assumes "tee_inv limit y" "\<not> y_panic y" "tee_Attach (y_tee y) = (t, replay, ch)"
  shows "tee_inv limit (y\<lparr>y_tee := t, y_base := y_base y @ [length (y_total y)],
      y_replay := y_replay y @ [replay], y_got := y_got y @ [[]]\<rparr>)" (is "tee_inv limit ?y")
proof -
  have t: "t = (y_tee y)\<lparr>t_chans := t_chans (y_tee y) @ [\<lparr>tc_queue = [], tc_closed = False\<rparr>],
      t_subscriber := Some (nchans y)\<rparr>" "replay = t_ring (y_tee y)"
    using assms(3) by (auto simp: tee_Attach_def nchans_def)
  have n: "nchans ?y = Suc (nchans y)"
    by (simp add: nchans_def t)
  have len: "length (y_base y) = nchans y" "length (y_replay y) = nchans y" "length (y_got y) = nchans y"
    "length (t_chans (y_tee y)) = nchans y" "nchans y \<notin> y_detached y" "t_ring (y_tee y) = lastn limit (y_total y)"
    "\<And>d. y_pending y \<noteq> Some (nchans y, d)"
    using assms(1) by (auto simp: tee_inv_def tee_wf_def nchans_def)
  have wf: "tee_wf limit ?y"
    using assms(1) n len by (auto simp: tee_inv_def tee_wf_def t less_Suc_eq)
  have "chan_wf limit ?y i" if "i < Suc (nchans y)" for i
    using assms(1) that len
    by (cases "i = nchans y") (auto simp: tee_inv_def chan_wf_def t nth_append)
  moreover have "view_ok ?y i" if i: "i < Suc (nchans y)" "i \<notin> y_lossy y" for i
  proof (cases "i = nchans y")
    case True
    then have "given ?y i = []"
      using len by (auto simp: given_def t nth_append split: option.splits)
    then show ?thesis
      using True len by (simp add: view_ok_def nth_append)
  next
    case False
    then have "view_ok y i" "given ?y i = given y i"
      using assms(1,2) i len by (auto simp: tee_inv_def given_def t nth_append split: option.splits)
    then show ?thesis
      using False i len by (simp add: view_ok_def t nth_append)
  qed
  ultimately show ?thesis
    using wf n assms(2) by (simp add: tee_inv_def)
qed

lemma tee_inv_recv:
  assumes "tee_inv limit y" "\<not> y_panic y" "ch < nchans y" "tee_recv ch (y_tee y) = Some (t, d)"
  shows "tee_inv limit (y\<lparr>y_tee := t, y_got := (y_got y)[ch := y_got y ! ch @ d]\<rparr>)" (is "tee_inv limit ?y")
proof -
  obtain q where q: "tc_queue (t_chans (y_tee y) ! ch) = d # q"
    and t: "t = (y_tee y)\<lparr>t_chans := (t_chans (y_tee y))[ch := (t_chans (y_tee y) ! ch)\<lparr>tc_queue := q\<rparr>]\<rparr>"
    using assms(4) by (auto simp: tee_recv_def Let_def split: list.splits)
  have n: "nchans ?y = nchans y"
    by (simp add: nchans_def t)
  have len: "length (y_got y) = nchans y" "length (t_chans (y_tee y)) = nchans y"
    using assms(1) by (auto simp: tee_inv_def tee_wf_def nchans_def)
  have wf: "tee_wf limit ?y"
    using assms(1) n by (auto simp: tee_inv_def tee_wf_def t)
  have "chan_wf limit ?y i" if "i < nchans y" for i
  proof -
    have "chan_wf limit y i"
      using assms(1) that by (simp add: tee_inv_def)
    then show ?thesis
      using q len assms(3) by (cases "i = ch") (auto simp: chan_wf_def t)
  qed
  moreover have "given ?y i = given y i" if "i < nchans y" for i
    using q len assms(3) by (cases "i = ch") (simp_all add: given_def t)
  ultimately show ?thesis
    using wf n assms(1,2) by (simp add: tee_inv_def view_ok_def t)
qed

lemma tee_inv_detach:
  assumes "tee_inv limit y" "ch < nchans y"
  shows "tee_inv limit (y\<lparr>y_tee := cleanup_detach ch (y_tee y), y_detached := insert ch (y_detached y)\<rparr>)"
proof -
  have "t_chans (cleanup_detach ch (y_tee y)) = t_chans (y_tee y)" "t_ring (cleanup_detach ch (y_tee y)) = t_ring (y_tee y)"
    "t_ringLimit (cleanup_detach ch (y_tee y)) = t_ringLimit (y_tee y)"
    "t_subscriber (cleanup_detach ch (y_tee y)) = (if t_subscriber (y_tee y) = Some ch then None else t_subscriber (y_tee y))"
    by (simp_all add: cleanup_detach_def)
  then show ?thesis
    using assms by (auto simp: tee_inv_def tee_wf_def nchans_def chan_wf_def view_ok_def given_def)
qed

lemma tee_inv_close:
  assumes "tee_inv limit y" "ch \<in> y_detached y"
  shows "tee_inv limit (y\<lparr>y_tee := fst (cleanup_close ch (y_tee y))\<rparr>)" (is "tee_inv limit ?y")
proof -
  have ch: "ch < length (t_chans (y_tee y))"
    using assms by (auto simp: tee_inv_def tee_wf_def nchans_def)
  have t: "t_ring (fst (cleanup_close ch (y_tee y))) = t_ring (y_tee y)"
    "t_ringLimit (fst (cleanup_close ch (y_tee y))) = t_ringLimit (y_tee y)"
    "t_subscriber (fst (cleanup_close ch (y_tee y))) = t_subscriber (y_tee y)"
    "length (t_chans (fst (cleanup_close ch (y_tee y)))) = length (t_chans (y_tee y))"
    "tc_queue (t_chans (fst (cleanup_close ch (y_tee y))) ! i) = tc_queue (t_chans (y_tee y) ! i)"
    "tc_closed (t_chans (fst (cleanup_close ch (y_tee y))) ! i) \<Longrightarrow> i = ch \<or> tc_closed (t_chans (y_tee y) ! i)" for i
    using ch by (auto simp: cleanup_close_def Let_def nth_list_update split: if_splits)
  have "chan_wf limit ?y i" if "i < nchans y" for i
    using assms that t(5,6) [of i] by (auto simp: tee_inv_def chan_wf_def)
  moreover have "tee_wf limit ?y" "nchans ?y = nchans y"
    using assms(1) t(1-4) by (simp_all add: tee_inv_def tee_wf_def nchans_def)
  moreover have "given ?y i = given y i" for i
    by (simp add: given_def t(5))
  ultimately show ?thesis
    using assms(1) t(3) by (simp add: tee_inv_def view_ok_def)
qed

lemma tee_inv_step: "tee_step y y' \<Longrightarrow> tee_inv limit y \<Longrightarrow> tee_inv limit y'"
proof (induction rule: tee_step.induct)
  case (send y ch d t res)
  then show ?case
    by (intro tee_inv_send)
qed (auto intro: tee_inv_read tee_inv_attach tee_inv_recv tee_inv_detach tee_inv_close simp: nchans_def)

lemma tee_start_inv: "tee_start limit y \<Longrightarrow> tee_inv limit y"
  by (simp add: tee_start_def tee_inv_def tee_wf_def nchans_def NewSerialTee_def lastn_def)

interpretation tee: invariant_system "tee_start limit" tee_step "tee_inv limit" for limit
  by unfold_locales (auto intro: tee_inv_step tee_start_inv)

lemma lastn_append_view:
  assumes "b \<le> length out" "prefix g (drop b out)"
  shows "lastn n (take b out) @ g = take (length (lastn n (take b out)) + length g) (drop (b - n) out)"
proof -
  obtain r where r: "drop b out = g @ r"
    using assms(2) by (auto simp: prefix_def)
  have "lastn n (take b out) = drop (b - n) (take b out)"
    using assms(1) by (simp add: lastn_def)
  moreover have "drop (b - n) out = drop (b - n) (take b out) @ g @ r"
    using append_take_drop_id [of b out] r assms(1)
    by (metis (no_types, lifting) diff_le_self drop_append length_take min.absorb2 diff_is_0_eq drop0)
  ultimately show ?thesis
    by simp
qed

text \<open>
  C13: a terminal sees the console without gaps. In every interleaving of the drain with
  attaching, receiving and detaching clients, the ring holds the last bytes of the output
  up to its limit, and what a client that lost no chunk has been given, its replay first, is
  a contiguous piece of the output; for the current subscriber it reaches to the end.
\<close>

theorem serial_no_gap:
  assumes "reach (tee_start limit) tee_step y"
  shows "t_ring (y_tee y) = lastn limit (y_total y)
       \<and> (\<forall>ch < length (t_chans (y_tee y)). \<not> y_panic y \<and> ch \<notin> y_lossy y \<longrightarrow>
            (let start = y_base y ! ch - limit; seen = y_replay y ! ch @ given y ch
             in seen = take (length seen) (drop start (y_total y))
              \<and> (t_subscriber (y_tee y) = Some ch \<longrightarrow> seen = drop start (y_total y))))"
proof -
  have inv: "tee_inv limit y"
    using tee.reach_inv [OF assms] .
  have "let start = y_base y ! ch - limit; seen = y_replay y ! ch @ given y ch
        in seen = take (length seen) (drop start (y_total y))
         \<and> (t_subscriber (y_tee y) = Some ch \<longrightarrow> seen = drop start (y_total y))"
    if "ch < length (t_chans (y_tee y))" "\<not> y_panic y \<and> ch \<notin> y_lossy y" for ch
  proof -
    have v: "view_ok y ch" and b: "y_base y ! ch \<le> length (y_total y)"
      and r: "y_replay y ! ch = lastn limit (take (y_base y ! ch) (y_total y))"
      using inv that by (auto simp: tee_inv_def chan_wf_def nchans_def)
    have seen: "y_replay y ! ch @ given y ch
        = take (length (y_replay y ! ch @ given y ch)) (drop (y_base y ! ch - limit) (y_total y))"
      using lastn_append_view [OF b, of "given y ch" limit] v unfolding r length_append view_ok_def by blast
    have "length (y_replay y ! ch @ given y ch) = length (drop (y_base y ! ch - limit) (y_total y))"
      if "t_subscriber (y_tee y) = Some ch"
      using v r b that by (simp add: view_ok_def lastn_def)
    then show ?thesis
      using seen by (metis order_refl take_all)
  qed
  then show ?thesis
    using inv by (simp add: tee_inv_def tee_wf_def)
qed

text \<open>
  One client that attaches after some output, sees more, and detaches while a chunk is on
  its way: the output so far, the client's channel if attached (subscribed, closed), the
  pending chunk, and the panic.
\<close>

definition ex_tee :: "string \<Rightarrow> bool option \<Rightarrow> bool \<Rightarrow> string option \<Rightarrow> bool \<Rightarrow> tee_sys" where
  "ex_tee out cl sub pend pn =
     (let n = (case cl of None \<Rightarrow> 0 | Some _ \<Rightarrow> 1)
      in \<lparr>y_tee = \<lparr>t_ring = lastn 4 out, t_ringLimit = 4, t_subscriber = (if sub then Some 0 else None),
                   t_chans = (case cl of None \<Rightarrow> [] | Some c \<Rightarrow> [\<lparr>tc_queue = [], tc_closed = c\<rparr>])\<rparr>,
          y_pending = map_option (Pair 0) pend, y_total = out,
          y_base = replicate n (length ''booted''), y_replay = replicate n ''oted'', y_got = replicate n [],
          y_lossy = {}, y_detached = (if n = 1 \<and> \<not> sub then {0} else {}), y_panic = pn\<rparr>)"

lemma ex_tee_attached: "reach (tee_start 4) tee_step (ex_tee ''booted$'' (Some False) True (Some ''$'') False)"
proof -
  have "reach (tee_start 4) tee_step (ex_tee [] None False None False)"
    by (rule reach_start) (simp add: tee_start_def ex_tee_def NewSerialTee_def lastn_def)
  moreover have "tee_step (ex_tee [] None False None False) (ex_tee ''booted'' None False None False)"
    using read [of "ex_tee [] None False None False" "''booted''"]
    by (simp add: ex_tee_def drain_locked_def ring_write_lastn lastn_def)
  moreover have "tee_step (ex_tee ''booted'' None False None False) (ex_tee ''booted'' (Some False) True None False)"
    using attach [of "ex_tee ''booted'' None False None False"] by (simp add: ex_tee_def tee_Attach_def lastn_def)
  moreover have "tee_step (ex_tee ''booted'' (Some False) True None False) (ex_tee ''booted$'' (Some False) True (Some ''$'') False)"
    using read [of "ex_tee ''booted'' (Some False) True None False" "''$''"]
    by (simp add: ex_tee_def drain_locked_def ring_write_lastn lastn_def)
  ultimately show ?thesis
    by (meson reach_step)
qed

lemma ex_tee_panics: "reach (tee_start 4) tee_step (ex_tee ''booted$'' (Some True) False None True)"
proof -
  have "tee_step (ex_tee ''booted$'' (Some False) True (Some ''$'') False) (ex_tee ''booted$'' (Some False) False (Some ''$'') False)"
    using detach [of "ex_tee ''booted$'' (Some False) True (Some ''$'') False" 0] by (simp add: ex_tee_def cleanup_detach_def)
  moreover have "tee_step (ex_tee ''booted$'' (Some False) False (Some ''$'') False) (ex_tee ''booted$'' (Some True) False (Some ''$'') False)"
    using close [of "ex_tee ''booted$'' (Some False) False (Some ''$'') False" 0] by (simp add: ex_tee_def cleanup_close_def Let_def)
  moreover have "tee_step (ex_tee ''booted$'' (Some True) False (Some ''$'') False) (ex_tee ''booted$'' (Some True) False None True)"
    using send [of "ex_tee ''booted$'' (Some True) False (Some ''$'') False" 0 "''$''"] by (simp add: ex_tee_def drain_send_def Let_def)
  ultimately show ?thesis
    using ex_tee_attached by (meson reach_step)
qed

theorem serial_no_gap_witness:
  "t_ring (y_tee (ex_tee ''booted$'' (Some False) True (Some ''$'') False)) = ''ted$''
   \<and> (let y = ex_tee ''booted$'' (Some False) True (Some ''$'') False
      in y_replay y ! 0 @ given y 0 = ''oted$'')"
proof -
  let ?y = "ex_tee ''booted$'' (Some False) True (Some ''$'') False"
  have y: "length (t_chans (y_tee ?y)) = 1" "\<not> y_panic ?y" "y_lossy ?y = {}" "t_subscriber (y_tee ?y) = Some 0"
    "y_base ?y ! 0 = 6" "y_total ?y = ''booted$''"
    by (simp_all add: ex_tee_def)
  note R = serial_no_gap [OF ex_tee_attached]
  have "0 < length (t_chans (y_tee ?y))" "\<not> y_panic ?y \<and> 0 \<notin> y_lossy ?y"
    using y by simp_all
  then have "t_subscriber (y_tee ?y) = Some 0 \<longrightarrow> y_replay ?y ! 0 @ given ?y 0 = drop (y_base ?y ! 0 - 4) (y_total ?y)"
    using conjunct2 [OF R] unfolding Let_def by blast
  then have "y_replay ?y ! 0 @ given ?y 0 = ''oted$''"
    using y(4-6) by simp
  then show ?thesis
    using conjunct1 [OF R] y(6) by (simp add: lastn_def)
qed

text \<open>
  The chunk is sent after the mutex is released, so a client that detaches and closes its
  channel in between makes the drain goroutine send on a closed channel.
\<close>

lemma serial_send_after_close: "\<exists>y. reach (tee_start 4) tee_step y \<and> y_panic y"
proof -
  have "y_panic (ex_tee ''booted$'' (Some True) False None True)"
    by (simp add: ex_tee_def)
  then show ?thesis
    using ex_tee_panics by blast
qed

end
