(* ===== verification/Go_Lib.thy ===== *)
theory Go_Lib
  imports Prelude
begin

text \<open>
  The functions of Go's standard library that the program calls on strings: \<open>strings\<close>
  (\<open>HasPrefix\<close>, \<open>TrimPrefix\<close>, \<open>TrimSpace\<close>, \<open>Trim\<close>, \<open>Split\<close>, \<open>SplitN\<close>, \<open>Fields\<close>, \<open>Join\<close>,
  \<open>Replace\<close>, \<open>IndexByte\<close>, \<open>ToLower\<close>), \<open>strconv\<close> (\<open>Itoa\<close>, \<open>FormatInt\<close>, \<open>Atoi\<close>, \<open>ParseInt\<close>),
  \<open>encoding/hex\<close> and the canonical header keys of \<open>net/http\<close>. A Go string is a sequence of
  bytes, so it is a \<open>string\<close> of HOL, whose characters are bytes.
\<close>

section \<open>Prefixes, splitting and trimming\<close>

definition HasPrefix :: "string \<Rightarrow> string \<Rightarrow> bool" where
  [go_defs]: "HasPrefix s p \<longleftrightarrow> take (length p) s = p"

definition HasSuffix :: "string \<Rightarrow> string \<Rightarrow> bool" where
  [go_defs]: "HasSuffix s p \<longleftrightarrow> length p \<le> length s \<and> drop (length s - length p) s = p"

definition TrimPrefix :: "string \<Rightarrow> string \<Rightarrow> string" where
  [go_defs]: "TrimPrefix s p = (if HasPrefix s p then drop (length p) s else s)"

text \<open>\<open>strings.Split(s, sep)\<close> and \<open>strings.SplitN(s, sep, n)\<close> for a one-byte separator.\<close>

fun Split :: "char \<Rightarrow> string \<Rightarrow> string list" where
  "Split c [] = [[]]"
| "Split c (x # xs) =
     (if x = c then [] # Split c xs
      else case Split c xs of [] \<Rightarrow> [[x]] | w # ws \<Rightarrow> (x # w) # ws)"

fun SplitN :: "nat \<Rightarrow> char \<Rightarrow> string \<Rightarrow> string list" where
  "SplitN 0 c s = []"
| "SplitN (Suc 0) c s = [s]"
| "SplitN (Suc (Suc n)) c s =
     (case dropWhile (\<lambda>x. x \<noteq> c) s of
        [] \<Rightarrow> [s]
      | _ # rest \<Rightarrow> takeWhile (\<lambda>x. x \<noteq> c) s # SplitN (Suc n) c rest)"

fun Join :: "string \<Rightarrow> string list \<Rightarrow> string" where
  "Join sep [] = []"
| "Join sep [w] = w"
| "Join sep (w # v # ws) = w @ sep @ Join sep (v # ws)"

text \<open>
  The byte encodings of the white space runes of \<open>unicode.IsSpace\<close>. Trimming on the left
  drops an encoding that is a prefix, on the right one that is a suffix; UTF-8 is
  self-synchronising, so this is what decoding the first or last rune does.
\<close>

definition ascii_spaces :: "char list" where
  [go_defs]: "ascii_spaces = [CHR 0x09, CHR 0x0A, CHR 0x0B, CHR 0x0C, CHR 0x0D, CHR 0x20]"

definition unicode_spaces :: "string list" where
  [go_defs]: "unicode_spaces =
    [[CHR 0xC2, CHR 0x85], [CHR 0xC2, CHR 0xA0], [CHR 0xE1, CHR 0x9A, CHR 0x80],
     [CHR 0xE2, CHR 0x80, CHR 0x80], [CHR 0xE2, CHR 0x80, CHR 0x81],
     [CHR 0xE2, CHR 0x80, CHR 0x82], [CHR 0xE2, CHR 0x80, CHR 0x83],
     [CHR 0xE2, CHR 0x80, CHR 0x84], [CHR 0xE2, CHR 0x80, CHR 0x85],
     [CHR 0xE2, CHR 0x80, CHR 0x86], [CHR 0xE2, CHR 0x80, CHR 0x87],
     [CHR 0xE2, CHR 0x80, CHR 0x88], [CHR 0xE2, CHR 0x80, CHR 0x89],
     [CHR 0xE2, CHR 0x80, CHR 0x8A], [CHR 0xE2, CHR 0x80, CHR 0xA8],
     [CHR 0xE2, CHR 0x80, CHR 0xA9], [CHR 0xE2, CHR 0x80, CHR 0xAF],
     [CHR 0xE2, CHR 0x81, CHR 0x9F], [CHR 0xE3, CHR 0x80, CHR 0x80]]"

text \<open>Length of the white space rune a string starts with (0 when there is none).\<close>

definition space_len :: "string \<Rightarrow> nat" where
  "space_len s =
     (case s of
        [] \<Rightarrow> 0
      | c # _ \<Rightarrow> if c \<in> set ascii_spaces then 1
                else (case find (\<lambda>w. HasPrefix s w) unicode_spaces of
                        None \<Rightarrow> 0 | Some w \<Rightarrow> length w))"

lemma space_len_le: "space_len s \<le> length s"
proof (cases s)
  case Nil
  then show ?thesis by (simp add: space_len_def)
next
  case (Cons c cs)
  have "length w \<le> length s" if "find (\<lambda>w. HasPrefix s w) unicode_spaces = Some w" for w
  proof -
    from that have "take (length w) s = w"
      by (auto simp: find_Some_iff HasPrefix_def)
    then show ?thesis by (metis length_take min.cobounded1)
  qed
  with Cons show ?thesis by (auto simp: space_len_def split: option.splits)
qed

function trim_left_space :: "string \<Rightarrow> string" where
  "trim_left_space s = (if space_len s = 0 then s else trim_left_space (drop (space_len s) s))"
  by pat_completeness auto
termination
proof (relation "measure length", goal_cases)
  case (2 s)
  then show ?case using space_len_le [of s] by (simp; linarith)
qed simp

declare trim_left_space.simps [simp del]

text \<open>The mirror image, on the reversed string, with the encodings reversed.\<close>

definition rspace_len :: "string \<Rightarrow> nat" where
  "rspace_len r =
     (case r of
        [] \<Rightarrow> 0
      | c # _ \<Rightarrow> if c \<in> set ascii_spaces then 1
                else (case find (\<lambda>w. HasPrefix r (rev w)) unicode_spaces of
                        None \<Rightarrow> 0 | Some w \<Rightarrow> length w))"

lemma rspace_len_le: "rspace_len r \<le> length r"
proof (cases r)
  case Nil
  then show ?thesis by (simp add: rspace_len_def)
next
  case (Cons c cs)
  have "length w \<le> length r" if "find (\<lambda>w. HasPrefix r (rev w)) unicode_spaces = Some w" for w
  proof -
    from that have "take (length w) r = rev w"
      by (auto simp: find_Some_iff HasPrefix_def)
    then show ?thesis by (metis length_rev length_take min.cobounded1)
  qed
  with Cons show ?thesis by (auto simp: rspace_len_def split: option.splits)
qed

function trim_right_rev :: "string \<Rightarrow> string" where
  "trim_right_rev r = (if rspace_len r = 0 then r else trim_right_rev (drop (rspace_len r) r))"
  by pat_completeness auto
termination
proof (relation "measure length", goal_cases)
  case (2 r)
  then show ?case using rspace_len_le [of r] by (simp; linarith)
qed simp

declare trim_right_rev.simps [simp del]

definition TrimSpace :: "string \<Rightarrow> string" where
  "TrimSpace s = rev (trim_right_rev (rev (trim_left_space s)))"

text \<open>\<open>strings.Trim(s, cutset)\<close> and \<open>strings.TrimRight(s, cutset)\<close> for a one-byte cutset.\<close>

definition TrimRight :: "char \<Rightarrow> string \<Rightarrow> string" where
  [go_defs]: "TrimRight c s = rev (dropWhile (\<lambda>x. x = c) (rev s))"

definition Trim :: "char \<Rightarrow> string \<Rightarrow> string" where
  [go_defs]: "Trim c s = TrimRight c (dropWhile (\<lambda>x. x = c) s)"

text \<open>\<open>strings.Fields\<close>: the maximal runs without white space.\<close>

fun fields_aux :: "nat \<Rightarrow> string \<Rightarrow> string \<Rightarrow> string list" where
  "fields_aux 0 acc s = (if acc = [] then [] else [rev acc])"
| "fields_aux (Suc n) acc [] = (if acc = [] then [] else [rev acc])"
| "fields_aux (Suc n) acc (x # xs) =
     (if space_len (x # xs) = 0 then fields_aux n (x # acc) xs
      else (if acc = [] then [] else [rev acc]) @
           fields_aux n [] (drop (space_len (x # xs)) (x # xs)))"

definition Fields :: "string \<Rightarrow> string list" where
  "Fields s = fields_aux (length s) [] s"

text \<open>\<open>strings.IndexByte\<close>: the first position of a byte, -1 when absent.\<close>

definition IndexByte :: "string \<Rightarrow> char \<Rightarrow> int" where
  [go_defs]: "IndexByte s c =
     (let n = length (takeWhile (\<lambda>x. x \<noteq> c) s) in if n < length s then int n else - 1)"

text \<open>\<open>strings.Replace(s, old, new, 1)\<close> for a non-empty \<open>old\<close>.\<close>

fun Replace1 :: "string \<Rightarrow> string \<Rightarrow> string \<Rightarrow> string" where
  "Replace1 old new [] = []"
| "Replace1 old new (x # xs) =
     (if HasPrefix (x # xs) old then new @ drop (length old) (x # xs)
      else x # Replace1 old new xs)"

section \<open>Numbers in decimal and bytes in hexadecimal\<close>

definition digit_char :: "nat \<Rightarrow> char" where
  [go_defs]: "digit_char d = (if d < 10 then char_of (48 + d) else char_of (87 + d))"

definition char_digit :: "char \<Rightarrow> nat option" where
  [go_defs]: "char_digit c =
     (let n = of_char c :: nat in if 48 \<le> n \<and> n \<le> 57 then Some (n - 48) else None)"

text \<open>\<open>strconv.FormatInt(n, 10)\<close>, \<open>strconv.FormatUint\<close>, \<open>strconv.Itoa\<close>, \<open>%d\<close>.\<close>

fun show_nat :: "nat \<Rightarrow> string" where
  "show_nat n = (if n < 10 then [digit_char n] else show_nat (n div 10) @ [digit_char (n mod 10)])"

declare show_nat.simps [simp del]

definition FormatInt :: "int \<Rightarrow> string" where
  "FormatInt i = (if i < 0 then CHR ''-'' # show_nat (nat (- i)) else show_nat (nat i))"

abbreviation Itoa :: "int \<Rightarrow> string" where
  "Itoa \<equiv> FormatInt"

text \<open>Value of a digit string, \<open>None\<close> on the first byte that is no digit.\<close>

fun digits_val :: "nat \<Rightarrow> string \<Rightarrow> nat option" where
  "digits_val acc [] = Some acc"
| "digits_val acc (c # cs) =
     (case char_digit c of None \<Rightarrow> None | Some d \<Rightarrow> digits_val (10 * acc + d) cs)"

definition read_nat :: "string \<Rightarrow> nat option" where
  "read_nat s = (if s = [] then None else digits_val 0 s)"

text \<open>
  \<open>strconv.ParseInt(s, 10, 64)\<close> and \<open>strconv.Atoi(s)\<close> on a 64-bit platform: an optional
  sign, at least one digit, only digits, and a value in the range of \<open>int64\<close>. \<open>None\<close> is
  the error (\<open>ErrSyntax\<close> or \<open>ErrRange\<close>).
\<close>

definition ParseInt :: "string \<Rightarrow> int option" where
  "ParseInt s =
     (let neg = (s \<noteq> [] \<and> hd s = CHR ''-'');
          body = (if s \<noteq> [] \<and> (hd s = CHR ''-'' \<or> hd s = CHR ''+'') then tl s else s)
      in case read_nat body of
           None \<Rightarrow> None
         | Some n \<Rightarrow>
             (let i = (if neg then - int n else int n)
              in if int64_range i then Some i else None))"

abbreviation Atoi :: "string \<Rightarrow> int option" where
  "Atoi \<equiv> ParseInt"

definition hex_val :: "char \<Rightarrow> nat option" where
  [go_defs]: "hex_val c =
     (let n = of_char c :: nat in
      if 48 \<le> n \<and> n \<le> 57 then Some (n - 48)
      else if 97 \<le> n \<and> n \<le> 102 then Some (n - 87)
      else if 65 \<le> n \<and> n \<le> 70 then Some (n - 55)
      else None)"

definition hex_byte :: "nat \<Rightarrow> string" where
  [go_defs]: "hex_byte b = [digit_char (b div 16), digit_char (b mod 16)]"

text \<open>\<open>hex.EncodeToString\<close> and \<open>hex.DecodeString\<close>; a byte is an \<open>8 word\<close>.\<close>

definition hex_encode :: "8 word list \<Rightarrow> string" where
  "hex_encode bs = concat (map (\<lambda>b. hex_byte (unat b)) bs)"

fun hex_decode :: "string \<Rightarrow> 8 word list option" where
  "hex_decode [] = Some []"
| "hex_decode [c] = None"
| "hex_decode (a # b # cs) =
     (case (hex_val a, hex_val b) of
        (Some x, Some y) \<Rightarrow> map_option (\<lambda>bs. word_of_nat (16 * x + y) # bs) (hex_decode cs)
      | _ \<Rightarrow> None)"

section \<open>Letter case\<close>

definition lower_char :: "char \<Rightarrow> char" where
  [go_defs]: "lower_char c =
     (let n = of_char c :: nat in if 65 \<le> n \<and> n \<le> 90 then char_of (n + 32) else c)"

definition upper_char :: "char \<Rightarrow> char" where
  [go_defs]: "upper_char c =
     (let n = of_char c :: nat in if 97 \<le> n \<and> n \<le> 122 then char_of (n - 32) else c)"

text \<open>
  \<open>strings.ToLower\<close>, up to the choice of non-ASCII results: an ASCII letter is lowered, the
  two runes whose lower case is ASCII (U+0130 and the Kelvin sign U+212A) become \<open>i\<close> and
  \<open>k\<close>, and every other non-ASCII byte stays non-ASCII. The only caller, \<open>auth.Slugify\<close>,
  replaces every run of non-ASCII bytes by one dash, whatever the bytes are.
\<close>

fun ToLower :: "string \<Rightarrow> string" where
  "ToLower [] = []"
| "ToLower (c # cs) =
     (if HasPrefix (c # cs) [CHR 0xC4, CHR 0xB0] then CHR ''i'' # ToLower (drop 1 cs)
      else if HasPrefix (c # cs) [CHR 0xE2, CHR 0x84, CHR 0xAA] then CHR ''k'' # ToLower (drop 2 cs)
      else lower_char c # ToLower cs)"

text \<open>
  \<open>http.CanonicalHeaderKey\<close>: a key made of token bytes only gets its first letter and
  every letter after a dash in upper case and the rest in lower case; another key is
  returned as it is.
\<close>

definition token_char :: "char \<Rightarrow> bool" where
  [go_defs]: "token_char c \<longleftrightarrow>
     (let n = of_char c :: nat in
      (48 \<le> n \<and> n \<le> 57) \<or> (65 \<le> n \<and> n \<le> 90) \<or> (97 \<le> n \<and> n \<le> 122) \<or>
      c \<in> set ''!#$%&*+-.^_`|~'' \<or> n = 39)"

fun canonical_from :: "bool \<Rightarrow> string \<Rightarrow> string" where
  "canonical_from up [] = []"
| "canonical_from up (c # cs) =
     (if up then upper_char c else lower_char c) # canonical_from (c = CHR ''-'') cs"

definition CanonicalHeaderKey :: "string \<Rightarrow> string" where
  "CanonicalHeaderKey k = (if list_all token_char k then canonical_from True k else k)"

section \<open>Facts about the library functions\<close>

lemma HasPrefix_append [simp]: "HasPrefix (p @ s) p"
  by (simp add: HasPrefix_def)

lemma HasPrefix_iff: "HasPrefix s p \<longleftrightarrow> (\<exists>r. s = p @ r)"
  by (metis HasPrefix_append HasPrefix_def append_take_drop_id)

lemma TrimPrefix_append [simp]: "TrimPrefix (p @ s) p = s"
  by (simp add: TrimPrefix_def)

lemma Split_nonempty [simp]: "Split c s \<noteq> []"
  by (induction s) (auto split: list.splits)

lemma Split_no_sep: "c \<notin> set s \<Longrightarrow> Split c s = [s]"
  by (induction s) auto

lemma Split_append: "c \<notin> set w \<Longrightarrow> Split c (w @ c # s) = w # Split c s"
  by (induction w) auto

lemma Split_words: "w \<in> set (Split c s) \<Longrightarrow> c \<notin> set w"
  by (induction s arbitrary: w) (auto split: if_splits list.splits)

lemma Join_Cons: "ws \<noteq> [] \<Longrightarrow> Join sep (w # ws) = w @ sep @ Join sep ws"
  by (cases ws) auto

lemma Join_Split: "Join [c] (Split c s) = s"
proof (induction s)
  case Nil
  then show ?case by simp
next
  case (Cons x xs)
  obtain w ws where ws: "Split c xs = w # ws"
    by (cases "Split c xs") auto
  with Cons show ?case
    by (cases ws) (auto simp: Join_Cons)
qed

lemma SplitN_3:
  "c \<notin> set a \<Longrightarrow> c \<notin> set b \<Longrightarrow> SplitN 3 c (a @ [c] @ b @ [c] @ r) = [a, b, r]"
  by (simp add: numeral_3_eq_3 dropWhile_append takeWhile_append)

lemma SplitN_3_inv:
  assumes "SplitN 3 c s = [a, b, r]"
  shows "s = a @ [c] @ b @ [c] @ r \<and> c \<notin> set a \<and> c \<notin> set b"
proof -
  have cut: "t = takeWhile (\<lambda>x. x \<noteq> c) t @ c # rest \<and> c \<notin> set (takeWhile (\<lambda>x. x \<noteq> c) t)"
    if "dropWhile (\<lambda>x. x \<noteq> c) t = y # rest" for t y rest
  proof -
    from that have "y = c" by (metis (mono_tags, lifting) dropWhile_eq_Cons_conv)
    with that show ?thesis
      by (metis (mono_tags, lifting) set_takeWhileD takeWhile_dropWhile_id)
  qed
  from assms obtain y rest where 1: "dropWhile (\<lambda>x. x \<noteq> c) s = y # rest"
      and a: "a = takeWhile (\<lambda>x. x \<noteq> c) s" and br: "SplitN 2 c rest = [b, r]"
    by (auto simp: numeral_3_eq_3 numeral_2_eq_2 split: list.splits)
  from br obtain z where 2: "dropWhile (\<lambda>x. x \<noteq> c) rest = z # r"
      and b: "b = takeWhile (\<lambda>x. x \<noteq> c) rest"
    by (auto simp: numeral_2_eq_2 split: list.splits)
  from cut [OF 1] cut [OF 2] a b show ?thesis by simp
qed

text \<open>Decimal and hexadecimal text reads back.\<close>

lemma char_digit_digit_char [simp]: "d < 10 \<Longrightarrow> char_digit (digit_char d) = Some d"
  by (simp add: char_digit_def digit_char_def)

lemma hex_val_digit_char [simp]: "d < 16 \<Longrightarrow> hex_val (digit_char d) = Some d"
  by (simp add: hex_val_def digit_char_def)

lemma digit_char_inject: "d < 16 \<Longrightarrow> e < 16 \<Longrightarrow> digit_char d = digit_char e \<Longrightarrow> d = e"
  by (metis hex_val_digit_char option.inject)

lemma hex_byte_inject:
  assumes "hex_byte x = hex_byte y" "x < 256" "y < 256"
  shows "x = y"
proof -
  have "x div 16 < 16" "y div 16 < 16" using assms(2,3) by simp_all
  moreover have "digit_char (x div 16) = digit_char (y div 16)"
    and "digit_char (x mod 16) = digit_char (y mod 16)"
    using assms(1) by (simp_all add: hex_byte_def)
  ultimately have "x div 16 = y div 16" and "x mod 16 = y mod 16"
    using digit_char_inject by simp_all
  then show ?thesis by (metis div_mult_mod_eq)
qed

lemma digits_val_append:
  "digits_val acc (xs @ ys) = Option.bind (digits_val acc xs) (\<lambda>n. digits_val n ys)"
  by (induction xs arbitrary: acc) (auto split: option.splits)

lemma show_nat_nonempty [simp]: "show_nat n \<noteq> []"
  by (subst show_nat.simps) simp

lemma digits_val_show_nat [simp]: "digits_val 0 (show_nat n) = Some n"
proof (induction n rule: show_nat.induct)
  case (1 n)
  show ?case
  proof (cases "n < 10")
    case True
    then show ?thesis by (simp add: show_nat.simps [of n])
  next
    case False
    with 1 have "digits_val 0 (show_nat (n div 10)) = Some (n div 10)" by simp
    with False show ?thesis by (simp add: show_nat.simps [of n] digits_val_append)
  qed
qed

lemma read_nat_show_nat [simp]: "read_nat (show_nat n) = Some n"
  by (simp add: read_nat_def)

lemma show_nat_inject [simp]: "show_nat m = show_nat n \<longleftrightarrow> m = n"
  by (metis option.inject read_nat_show_nat)

definition is_digit :: "char \<Rightarrow> bool" where
  "is_digit c \<longleftrightarrow> char_digit c \<noteq> None"

lemma is_digit_digit_char [simp]: "d < 10 \<Longrightarrow> is_digit (digit_char d)"
  by (simp add: is_digit_def)

lemma show_nat_digits: "c \<in> set (show_nat n) \<Longrightarrow> is_digit c"
proof (induction n arbitrary: c rule: show_nat.induct)
  case (1 n)
  then show ?case
    by (cases "n < 10") (auto simp: show_nat.simps [of n])
qed

lemma digit_not:
  "is_digit c \<Longrightarrow> c \<noteq> CHR ''-''" "is_digit c \<Longrightarrow> c \<noteq> CHR ''+''" "is_digit c \<Longrightarrow> c \<noteq> CHR ''|''"
  "is_digit c \<Longrightarrow> c \<noteq> CHR ''.''" "is_digit c \<Longrightarrow> c \<noteq> CHR ''/''" "is_digit c \<Longrightarrow> c \<noteq> CHR '' ''"
  "is_digit c \<Longrightarrow> c \<noteq> CHR '':''" "is_digit c \<Longrightarrow> c \<noteq> CHR ''%''"
  by (auto simp: is_digit_def char_digit_def)

lemma hd_show_nat: "is_digit (hd (show_nat n))"
  by (rule show_nat_digits [of _ n]) simp

lemma ParseInt_FormatInt [simp]:
  assumes "int64_range i"
  shows "ParseInt (FormatInt i) = Some i"
proof (cases "i < 0")
  case True
  with assms show ?thesis
    by (simp add: ParseInt_def FormatInt_def)
next
  case False
  have "hd (show_nat (nat i)) \<noteq> CHR ''-''" and "hd (show_nat (nat i)) \<noteq> CHR ''+''"
    using hd_show_nat digit_not by blast+
  with False assms show ?thesis
    by (simp add: ParseInt_def FormatInt_def)
qed

lemma FormatInt_bar: "CHR ''|'' \<notin> set (FormatInt i)"
  by (auto simp: FormatInt_def dest: show_nat_digits digit_not)

lemma hex_encode_simps [simp]:
  "hex_encode [] = []"
  "hex_encode (b # bs) = digit_char (unat b div 16) # digit_char (unat b mod 16) # hex_encode bs"
  by (simp_all add: hex_encode_def hex_byte_def)

lemma hex_decode_encode [simp]: "hex_decode (hex_encode bs) = Some bs"
proof (induction bs)
  case Nil
  then show ?case by simp
next
  case (Cons b bs)
  have "unat b < 256" using unsigned_less [of b, where 'a = nat] by simp
  then have "unat b div 16 < 16" by simp
  with Cons show ?case by simp
qed

lemma length_hex_encode [simp]: "length (hex_encode bs) = 2 * length bs"
  by (induction bs) auto

lemma hex_encode_inject [simp]: "hex_encode a = hex_encode b \<longleftrightarrow> a = b"
  by (metis hex_decode_encode option.inject)

lemma hex_encode_chars: "c \<in> set (hex_encode bs) \<Longrightarrow> \<exists>d < 16. c = digit_char d"
proof (induction bs)
  case Nil
  then show ?case by simp
next
  case (Cons b bs)
  have "unat b < 256" using unsigned_less [of b, where 'a = nat] by simp
  then have "unat b div 16 < 16" and "unat b mod 16 < 16" by simp_all
  then have "\<exists>d < 16. digit_char (unat b div 16) = digit_char d"
    and "\<exists>d < 16. digit_char (unat b mod 16) = digit_char d" by blast+
  with Cons show ?case by auto
qed

text \<open>Strings that hold no white space byte and no byte of a Unicode space are untouched.\<close>

definition plain_char :: "char \<Rightarrow> bool" where
  "plain_char c \<longleftrightarrow> 33 \<le> (of_char c :: nat) \<and> (of_char c :: nat) \<le> 126"

lemma not_plain_char:
  "c \<in> set ascii_spaces \<Longrightarrow> \<not> plain_char c"
  "w \<in> set unicode_spaces \<Longrightarrow> w \<noteq> [] \<and> \<not> plain_char (hd w) \<and> \<not> plain_char (last w)"
  by (auto simp: plain_char_def ascii_spaces_def unicode_spaces_def)

lemma plain_char_not_space:
  assumes "plain_char c"
  shows "space_len (c # cs) = 0"
proof -
  have "\<not> HasPrefix (c # cs) w" if "w \<in> set unicode_spaces" for w
    using not_plain_char(2) [OF that] assms by (cases w) (auto simp: HasPrefix_def)
  then have "find (\<lambda>w. HasPrefix (c # cs) w) unicode_spaces = None"
    by (simp add: find_None_iff)
  with not_plain_char(1) [of c] assms show ?thesis by (auto simp: space_len_def)
qed

lemma plain_char_not_rspace:
  assumes "plain_char c"
  shows "rspace_len (c # cs) = 0"
proof -
  have "\<not> HasPrefix (c # cs) (rev w)" if "w \<in> set unicode_spaces" for w
    using not_plain_char(2) [OF that] assms
    by (cases w rule: rev_cases) (auto simp: HasPrefix_def)
  then have "find (\<lambda>w. HasPrefix (c # cs) (rev w)) unicode_spaces = None"
    by (simp add: find_None_iff)
  with not_plain_char(1) [of c] assms show ?thesis by (auto simp: rspace_len_def)
qed

lemma TrimSpace_plain:
  assumes "s \<noteq> []" "plain_char (hd s)" "plain_char (last s)"
  shows "TrimSpace s = s"
proof -
  from assms have "trim_left_space s = s"
    by (subst trim_left_space.simps) (cases s, auto simp: plain_char_not_space)
  moreover from assms have "trim_right_rev (rev s) = rev s"
    by (subst trim_right_rev.simps)
      (cases s rule: rev_cases, auto simp: plain_char_not_rspace)
  ultimately show ?thesis by (simp add: TrimSpace_def)
qed

lemma trim_left_space_ascii: "set a \<subseteq> set ascii_spaces \<Longrightarrow> trim_left_space (a @ s) = trim_left_space s"
proof (induction a)
  case (Cons c a)
  then show ?case
    by (subst trim_left_space.simps) (simp add: space_len_def)
qed simp

lemma trim_right_rev_ascii: "set a \<subseteq> set ascii_spaces \<Longrightarrow> trim_right_rev (a @ s) = trim_right_rev s"
proof (induction a)
  case (Cons c a)
  then show ?case
    by (subst trim_right_rev.simps) (simp add: rspace_len_def)
qed simp

lemma TrimSpace_padded:
  assumes "set a \<subseteq> set ascii_spaces" "set b \<subseteq> set ascii_spaces"
    and "s \<noteq> []" "plain_char (hd s)" "plain_char (last s)"
  shows "TrimSpace (a @ s @ b) = s"
proof -
  have "trim_left_space (s @ b) = s @ b"
    using assms(3,4) by (subst trim_left_space.simps) (cases s, auto simp: plain_char_not_space)
  moreover have "trim_right_rev (rev b @ rev s) = rev s"
  proof -
    have "trim_right_rev (rev s) = rev s"
      using assms(3,5)
      by (subst trim_right_rev.simps) (cases s rule: rev_cases, auto simp: plain_char_not_rspace)
    then show ?thesis
      using assms(2) by (simp add: trim_right_rev_ascii)
  qed
  ultimately show ?thesis
    using assms(1) by (simp add: TrimSpace_def trim_left_space_ascii)
qed

lemma digit_char_plain: "d < 16 \<Longrightarrow> plain_char (digit_char d)"
  by (auto simp: plain_char_def digit_char_def)

lemma is_digit_plain: "is_digit c \<Longrightarrow> plain_char c"
  by (auto simp: is_digit_def char_digit_def plain_char_def Let_def split: if_splits)

text \<open>\<open>Fields\<close> of words of plain characters separated by single blanks gives the words.\<close>

lemma space_len_blank [simp]: "space_len (CHR '' '' # s) = 1"
  by (simp add: space_len_def ascii_spaces_def)

lemma fields_aux_word:
  "list_all plain_char w \<Longrightarrow> length w + length s \<le> n \<Longrightarrow>
   fields_aux n acc (w @ s) = fields_aux (n - length w) (rev w @ acc) s"
proof (induction w arbitrary: n acc)
  case Nil
  then show ?case by simp
next
  case (Cons x w)
  then obtain m where "n = Suc m" by (cases n) auto
  with Cons show ?case by (simp add: plain_char_not_space)
qed

lemma Fields_Join:
  assumes "list_all (\<lambda>w. w \<noteq> [] \<and> list_all plain_char w) ws"
  shows "Fields (Join '' '' ws) = ws"
proof -
  have "fields_aux n [] (Join '' '' ws) = ws" if "length (Join '' '' ws) \<le> n" for n
    using assms that
  proof (induction ws arbitrary: n)
    case Nil
    then show ?case by (cases n) auto
  next
    case (Cons w ws)
    show ?case
    proof (cases ws)
      case Nil
      with Cons.prems show ?thesis
        using fields_aux_word [of w "[]" n "[]"] by (cases "n - length w") auto
    next
      case (Cons v vs)
      have j: "Join '' '' (w # ws) = w @ CHR '' '' # Join '' '' ws"
        using Cons by simp
      with Cons.prems have le: "length w + length (CHR '' '' # Join '' '' ws) \<le> n"
        by simp
      then obtain m where m: "n - length w = Suc m" and "length (Join '' '' ws) \<le> m"
        by (cases "n - length w") auto
      with Cons.IH Cons.prems have "fields_aux m [] (Join '' '' ws) = ws" by simp
      moreover have "fields_aux n [] (Join '' '' (w # ws)) =
          fields_aux (n - length w) (rev w) (CHR '' '' # Join '' '' ws)"
        using Cons.prems le j fields_aux_word [of w "CHR '' '' # Join '' '' ws" n "[]"] by simp
      ultimately show ?thesis using m Cons.prems by simp
    qed
  qed
  then show ?thesis by (simp add: Fields_def)
qed

end
