(* ===== verification/Json.thy ===== *)
theory Json
  imports Go_Lib
begin

text \<open>
  The part of Go's \<open>encoding/json\<close> that the program uses: the syntax accepted by
  \<open>Unmarshal\<close> and \<open>Decoder.Decode\<close> (a value type and a parser over bytes, with the nesting
  limit and the treatment of invalid UTF-8), the decoding of objects into struct fields
  (case-insensitive names, \<open>null\<close>, type errors), and the compact text \<open>Marshal\<close> writes.
  Numbers keep their literal, because an \<open>int64\<close> field and a \<open>float64\<close> read it
  differently.
\<close>

datatype json =
    JNull
  | JBool bool
  | JNum string
  | JStr string
  | JArr "json list"
  | JObj "(string \<times> json) list"

section \<open>Strings\<close>

definition cont_byte :: "char \<Rightarrow> bool" where
  "cont_byte c \<longleftrightarrow> 128 \<le> (of_char c :: nat) \<and> (of_char c :: nat) < 192"

text \<open>Length of the UTF-8 sequence a string starts with, 0 when it is invalid.\<close>

fun utf8_len :: "string \<Rightarrow> nat" where
  "utf8_len [] = 0"
| "utf8_len (a # s) =
     (let n = (of_char a :: nat);
          second = (case s of [] \<Rightarrow> 0 | b # _ \<Rightarrow> (of_char b :: nat));
          conts = (\<lambda>k. k \<le> length s \<and> list_all cont_byte (take k s))
      in if n < 128 then 1
         else if 194 \<le> n \<and> n \<le> 223 then (if conts 1 then 2 else 0)
         else if 224 \<le> n \<and> n \<le> 239 then
           (if conts 2 \<and> (n = 224 \<longrightarrow> 160 \<le> second) \<and> (n = 237 \<longrightarrow> second \<le> 159) then 3 else 0)
         else if 240 \<le> n \<and> n \<le> 244 then
           (if conts 3 \<and> (n = 240 \<longrightarrow> 144 \<le> second) \<and> (n = 244 \<longrightarrow> second \<le> 143) then 4 else 0)
         else 0)"

definition utf8_encode :: "nat \<Rightarrow> string" where
  "utf8_encode n =
     (if n < 128 then [char_of n]
      else if n < 2048 then [char_of (192 + n div 64), char_of (128 + n mod 64)]
      else if n < 65536 then
        [char_of (224 + n div 4096), char_of (128 + n div 64 mod 64), char_of (128 + n mod 64)]
      else
        [char_of (240 + n div 262144), char_of (128 + n div 4096 mod 64),
         char_of (128 + n div 64 mod 64), char_of (128 + n mod 64)])"

abbreviation replacement_char :: nat where
  "replacement_char \<equiv> 65533"

fun hex4 :: "string \<Rightarrow> (nat \<times> string) option" where
  "hex4 (a # b # c # d # r) =
     (case (hex_val a, hex_val b, hex_val c, hex_val d) of
        (Some w, Some x, Some y, Some z) \<Rightarrow> Some (((w * 16 + x) * 16 + y) * 16 + z, r)
      | _ \<Rightarrow> None)"
| "hex4 _ = None"

text \<open>The low surrogate that completes a pair, when the text goes on with one.\<close>

definition low_surrogate :: "string \<Rightarrow> nat option" where
  "low_surrogate s =
     (if HasPrefix s [CHR 0x5C, CHR ''u''] then
        (case hex4 (drop 2 s) of
           Some (n, _) \<Rightarrow> if 56320 \<le> n \<and> n < 57344 then Some n else None
         | None \<Rightarrow> None)
      else None)"

definition unescape :: "char \<Rightarrow> char option" where
  "unescape e =
     (if e = CHR 0x22 then Some (CHR 0x22)
      else if e = CHR 0x5C then Some (CHR 0x5C)
      else if e = CHR ''/'' then Some (CHR ''/'')
      else if e = CHR ''b'' then Some (CHR 0x08)
      else if e = CHR ''f'' then Some (CHR 0x0C)
      else if e = CHR ''n'' then Some (CHR 0x0A)
      else if e = CHR ''r'' then Some (CHR 0x0D)
      else if e = CHR ''t'' then Some (CHR 0x09)
      else None)"

definition prepend :: "string \<Rightarrow> (string \<times> string) option \<Rightarrow> (string \<times> string) option" where
  "prepend w r = map_option (\<lambda>(s, rest). (w @ s, rest)) r"

text \<open>The rest of a string literal, after its opening quote.\<close>

fun parse_string :: "string \<Rightarrow> (string \<times> string) option" where
  "parse_string [] = None"
| "parse_string (c # cs) =
     (if c = CHR 0x22 then Some ([], cs)
      else if c = CHR 0x5C then
        (case cs of
           [] \<Rightarrow> None
         | e # es \<Rightarrow>
             if e = CHR ''u'' then
               (case hex4 es of
                  None \<Rightarrow> None
                | Some (n, _) \<Rightarrow>
                    if 55296 \<le> n \<and> n < 56320 \<and> low_surrogate (drop 4 es) \<noteq> None then
                      prepend (utf8_encode (65536 + (n - 55296) * 1024
                                 + (the (low_surrogate (drop 4 es)) - 56320)))
                        (parse_string (drop 10 es))
                    else prepend (utf8_encode (if 55296 \<le> n \<and> n < 57344 then replacement_char else n))
                           (parse_string (drop 4 es)))
             else (case unescape e of
                     None \<Rightarrow> None
                   | Some c' \<Rightarrow> prepend [c'] (parse_string es)))
      else if (of_char c :: nat) < 32 then None
      else if utf8_len (c # cs) = 0 then prepend (utf8_encode replacement_char) (parse_string cs)
      else prepend (take (utf8_len (c # cs)) (c # cs)) (parse_string (drop (utf8_len (c # cs) - 1) cs)))"

section \<open>Values\<close>

definition json_ws :: "char \<Rightarrow> bool" where
  "json_ws c \<longleftrightarrow> c = CHR 0x20 \<or> c = CHR 0x09 \<or> c = CHR 0x0A \<or> c = CHR 0x0D"

definition skip_ws :: "string \<Rightarrow> string" where
  "skip_ws s = dropWhile json_ws s"

text \<open>A number literal: sign, integer part without leading zeros, fraction, exponent.\<close>

definition lex_int :: "string \<Rightarrow> (string \<times> string) option" where
  "lex_int s =
     (case s of
        [] \<Rightarrow> None
      | c # cs \<Rightarrow>
          if c = CHR ''0'' then Some ([c], cs)
          else if is_digit c then Some (takeWhile is_digit s, dropWhile is_digit s)
          else None)"

definition lex_frac :: "string \<Rightarrow> (string \<times> string) option" where
  "lex_frac s =
     (case s of
        [] \<Rightarrow> Some ([], [])
      | c # cs \<Rightarrow>
          if c = CHR ''.'' then
            (if takeWhile is_digit cs = [] then None
             else Some (c # takeWhile is_digit cs, dropWhile is_digit cs))
          else Some ([], s))"

definition lex_exp :: "string \<Rightarrow> (string \<times> string) option" where
  "lex_exp s =
     (case s of
        [] \<Rightarrow> Some ([], [])
      | c # cs \<Rightarrow>
          if c = CHR ''e'' \<or> c = CHR ''E'' then
            (let sg = (case cs of [] \<Rightarrow> [] | d # _ \<Rightarrow> if d = CHR ''+'' \<or> d = CHR ''-'' then [d] else []);
                 ds = drop (length sg) cs
             in if takeWhile is_digit ds = [] then None
                else Some (c # sg @ takeWhile is_digit ds, dropWhile is_digit ds))
          else Some ([], s))"

definition lex_number :: "string \<Rightarrow> (string \<times> string) option" where
  "lex_number s =
     (let sg = (case s of [] \<Rightarrow> [] | c # _ \<Rightarrow> if c = CHR ''-'' then [c] else [])
      in case lex_int (drop (length sg) s) of
           None \<Rightarrow> None
         | Some (i, r) \<Rightarrow>
             (case lex_frac r of
                None \<Rightarrow> None
              | Some (f, r) \<Rightarrow>
                  (case lex_exp r of None \<Rightarrow> None | Some (e, r) \<Rightarrow> Some (sg @ i @ f @ e, r))))"

text \<open>
  The recursive descent. The first argument is fuel (\<open>json_fuel\<close> below is enough for every
  text), the second the number of further nested arrays and objects that are accepted;
  the decoder's own limit is 10000.
\<close>

fun parse_value :: "nat \<Rightarrow> nat \<Rightarrow> string \<Rightarrow> (json \<times> string) option"
  and parse_elems :: "nat \<Rightarrow> nat \<Rightarrow> string \<Rightarrow> (json list \<times> string) option"
  and parse_members :: "nat \<Rightarrow> nat \<Rightarrow> string \<Rightarrow> ((string \<times> json) list \<times> string) option" where
  "parse_value 0 d s = None"
| "parse_value (Suc n) d s =
     (case skip_ws s of
        [] \<Rightarrow> None
      | c # cs \<Rightarrow>
          if c = CHR ''{'' then
            (if d = 0 then None
             else if skip_ws cs \<noteq> [] \<and> hd (skip_ws cs) = CHR ''}'' then Some (JObj [], tl (skip_ws cs))
             else map_option (\<lambda>(ms, r). (JObj ms, r)) (parse_members n (d - 1) cs))
          else if c = CHR ''['' then
            (if d = 0 then None
             else if skip_ws cs \<noteq> [] \<and> hd (skip_ws cs) = CHR '']'' then Some (JArr [], tl (skip_ws cs))
             else map_option (\<lambda>(vs, r). (JArr vs, r)) (parse_elems n (d - 1) cs))
          else if c = CHR 0x22 then map_option (\<lambda>(w, r). (JStr w, r)) (parse_string cs)
          else if HasPrefix (c # cs) ''true'' then Some (JBool True, drop 4 (c # cs))
          else if HasPrefix (c # cs) ''false'' then Some (JBool False, drop 5 (c # cs))
          else if HasPrefix (c # cs) ''null'' then Some (JNull, drop 4 (c # cs))
          else map_option (\<lambda>(w, r). (JNum w, r)) (lex_number (c # cs)))"
| "parse_elems 0 d s = None"
| "parse_elems (Suc n) d s =
     (case parse_value n d s of
        None \<Rightarrow> None
      | Some (v, r) \<Rightarrow>
          (case skip_ws r of
             [] \<Rightarrow> None
           | c # r' \<Rightarrow>
               if c = CHR '','' then map_option (\<lambda>(vs, r''). (v # vs, r'')) (parse_elems n d r')
               else if c = CHR '']'' then Some ([v], r')
               else None))"
| "parse_members 0 d s = None"
| "parse_members (Suc n) d s =
     (case skip_ws s of
        [] \<Rightarrow> None
      | q # s1 \<Rightarrow>
          if q \<noteq> CHR 0x22 then None
          else (case parse_string s1 of
                  None \<Rightarrow> None
                | Some (k, s2) \<Rightarrow>
                    (case skip_ws s2 of
                       [] \<Rightarrow> None
                     | c # s3 \<Rightarrow>
                         if c \<noteq> CHR '':'' then None
                         else (case parse_value n d s3 of
                                 None \<Rightarrow> None
                               | Some (v, s4) \<Rightarrow>
                                   (case skip_ws s4 of
                                      [] \<Rightarrow> None
                                    | e # s5 \<Rightarrow>
                                        if e = CHR '','' then
                                          map_option (\<lambda>(ms, r). ((k, v) # ms, r)) (parse_members n d s5)
                                        else if e = CHR ''}'' then Some ([(k, v)], s5)
                                        else None)))))"

definition json_fuel :: "string \<Rightarrow> nat" where
  "json_fuel s = 2 * length s + 1"

definition max_nesting :: nat where
  "max_nesting = 10000"

text \<open>\<open>Decoder.Decode\<close>: the next value and the text after it; \<open>json.Unmarshal\<close>: the whole text.\<close>

definition json_decode :: "string \<Rightarrow> (json \<times> string) option" where
  "json_decode s = parse_value (json_fuel s) max_nesting s"

definition json_unmarshal :: "string \<Rightarrow> json option" where
  "json_unmarshal s =
     (case json_decode s of
        Some (v, r) \<Rightarrow> if skip_ws r = [] then Some v else None
      | None \<Rightarrow> None)"

section \<open>Decoding into Go values\<close>

text \<open>
  Field names match up to the case folding of \<open>foldName\<close>: ASCII letters, and the two
  other runes whose folding is an ASCII letter (the Kelvin sign and the long s).
\<close>

fun fold_name :: "string \<Rightarrow> string" where
  "fold_name [] = []"
| "fold_name (c # cs) =
     (if c = CHR 0xC5 \<and> take 1 cs = [CHR 0xBF] then CHR ''S'' # fold_name (drop 1 cs)
      else if c = CHR 0xE2 \<and> take 2 cs = [CHR 0x84, CHR 0xAA] then CHR ''K'' # fold_name (drop 2 cs)
      else upper_char c # fold_name cs)"

text \<open>
  A decoder updates the value it is given and says whether the types matched; a mismatch
  is remembered, the rest is still decoded, and \<open>Unmarshal\<close> returns the error at the end.
\<close>

type_synonym 'a decoder = "json \<Rightarrow> 'a \<Rightarrow> 'a \<times> bool"

definition dec_int64 :: "int decoder" where
  "dec_int64 v old =
     (case v of
        JNum lit \<Rightarrow> (case ParseInt lit of Some i \<Rightarrow> (i, True) | None \<Rightarrow> (old, False))
      | JNull \<Rightarrow> (old, True)
      | _ \<Rightarrow> (old, False))"

definition dec_string :: "string decoder" where
  "dec_string v old = (case v of JStr w \<Rightarrow> (w, True) | JNull \<Rightarrow> (old, True) | _ \<Rightarrow> (old, False))"

definition dec_bool :: "bool decoder" where
  "dec_bool v old = (case v of JBool w \<Rightarrow> (w, True) | JNull \<Rightarrow> (old, True) | _ \<Rightarrow> (old, False))"

text \<open>
  An object decoded into a struct: each member goes to the field its folded name selects.
\<close>

definition dec_struct :: "(string \<Rightarrow> 'a decoder) \<Rightarrow> 'a decoder" where
  "dec_struct field v old =
     (case v of
        JObj ms \<Rightarrow>
          foldl (\<lambda>(a, ok) (k, w). case field (fold_name k) w a of (a', ok') \<Rightarrow> (a', ok \<and> ok'))
            (old, True) ms
      | JNull \<Rightarrow> (old, True)
      | _ \<Rightarrow> (old, False))"

text \<open>An array decoded into a slice: every element starts from the zero value.\<close>

definition dec_slice :: "'a \<Rightarrow> 'a decoder \<Rightarrow> 'a list decoder" where
  "dec_slice zero dec v old =
     (case v of
        JArr vs \<Rightarrow> (map (\<lambda>w. fst (dec w zero)) vs, list_all (\<lambda>w. snd (dec w zero)) vs)
      | JNull \<Rightarrow> ([], True)
      | _ \<Rightarrow> (old, False))"

text \<open>\<open>json.Unmarshal(b, &x)\<close> for a zero \<open>x\<close>: the value, or \<open>None\<close> for any error.\<close>

definition unmarshal_into :: "'a decoder \<Rightarrow> 'a \<Rightarrow> string \<Rightarrow> 'a option" where
  "unmarshal_into dec zero s =
     (case json_unmarshal s of
        None \<Rightarrow> None
      | Some v \<Rightarrow> (case dec v zero of (a, ok) \<Rightarrow> if ok then Some a else None))"

text \<open>\<open>json.NewDecoder(r).Decode(&x)\<close>: only the first value of the text is read.\<close>

definition decode_into :: "'a decoder \<Rightarrow> 'a \<Rightarrow> string \<Rightarrow> 'a option" where
  "decode_into dec zero s =
     (case json_decode s of
        None \<Rightarrow> None
      | Some (v, _) \<Rightarrow> (case dec v zero of (a, ok) \<Rightarrow> if ok then Some a else None))"

section \<open>Writing\<close>

text \<open>The text \<open>Marshal\<close> writes for a character below 128, with HTML escaping on.\<close>

definition escape_char :: "char \<Rightarrow> string" where
  "escape_char c =
     (if c = CHR 0x22 then [CHR 0x5C, CHR 0x22]
      else if c = CHR 0x5C then [CHR 0x5C, CHR 0x5C]
      else if c = CHR 0x08 then [CHR 0x5C, CHR ''b'']
      else if c = CHR 0x0C then [CHR 0x5C, CHR ''f'']
      else if c = CHR 0x0A then [CHR 0x5C, CHR ''n'']
      else if c = CHR 0x0D then [CHR 0x5C, CHR ''r'']
      else if c = CHR 0x09 then [CHR 0x5C, CHR ''t'']
      else if (of_char c :: nat) < 32 \<or> c = CHR ''<'' \<or> c = CHR ''>'' \<or> c = CHR ''&'' then
        [CHR 0x5C, CHR ''u''] @ ''00'' @ hex_byte (of_char c)
      else [c])"

text \<open>
  Invalid UTF-8 is written as the escaped replacement character, the two line separators
  of JavaScript are escaped, and other multi-byte characters are copied.
\<close>

fun print_chars :: "string \<Rightarrow> string" where
  "print_chars [] = []"
| "print_chars (c # cs) =
     (if (of_char c :: nat) < 128 then escape_char c @ print_chars cs
      else if utf8_len (c # cs) = 0 then [CHR 0x5C] @ ''ufffd'' @ print_chars cs
      else if c = CHR 0xE2 \<and> take 2 cs = [CHR 0x80, CHR 0xA8] then [CHR 0x5C] @ ''u2028'' @ print_chars (drop 2 cs)
      else if c = CHR 0xE2 \<and> take 2 cs = [CHR 0x80, CHR 0xA9] then [CHR 0x5C] @ ''u2029'' @ print_chars (drop 2 cs)
      else take (utf8_len (c # cs)) (c # cs) @ print_chars (drop (utf8_len (c # cs) - 1) cs))"

definition print_string :: "string \<Rightarrow> string" where
  "print_string w = [CHR 0x22] @ print_chars w @ [CHR 0x22]"

fun print_json :: "json \<Rightarrow> string" where
  "print_json JNull = ''null''"
| "print_json (JBool b) = (if b then ''true'' else ''false'')"
| "print_json (JNum lit) = lit"
| "print_json (JStr w) = print_string w"
| "print_json (JArr vs) = ''['' @ Join '','' (map print_json vs) @ '']''"
| "print_json (JObj ms) =
     ''{'' @ Join '','' (map (\<lambda>(k, v). print_string k @ '':'' @ print_json v) ms) @ ''}''"

text \<open>The values the program writes: ASCII strings and integers.\<close>

definition ascii :: "string \<Rightarrow> bool" where
  "ascii w \<longleftrightarrow> list_all (\<lambda>c. (of_char c :: nat) < 128) w"

fun int_json :: "json \<Rightarrow> bool" where
  "int_json (JNum lit) = (case ParseInt lit of Some i \<Rightarrow> lit = FormatInt i | None \<Rightarrow> False)"
| "int_json (JStr w) = ascii w"
| "int_json (JArr vs) = list_all int_json vs"
| "int_json (JObj ms) = list_all (\<lambda>(k, v). ascii k \<and> int_json v) ms"
| "int_json _ = True"

fun depth :: "json \<Rightarrow> nat" where
  "depth (JArr vs) = Suc (foldr (\<lambda>v n. max (depth v) n) vs 0)"
| "depth (JObj ms) = Suc (foldr (\<lambda>(k, v) n. max (depth v) n) ms 0)"
| "depth _ = 0"

text \<open>What may follow a number without becoming part of it.\<close>

definition num_end :: "string \<Rightarrow> bool" where
  "num_end r \<longleftrightarrow> (case r of [] \<Rightarrow> True | c # _ \<Rightarrow> \<not> is_digit c \<and> c \<notin> {CHR ''.'', CHR ''e'', CHR ''E''})"

text \<open>\<open>reads d v\<close>: the text of \<open>v\<close> is read back as \<open>v\<close>, whatever follows it.\<close>

definition reads :: "nat \<Rightarrow> json \<Rightarrow> bool" where
  "reads d v \<longleftrightarrow>
     (\<forall>r n. num_end r \<longrightarrow> 2 * length (print_json v @ r) + 1 \<le> n \<longrightarrow>
        parse_value n d (print_json v @ r) = Some (v, r))"

abbreviation print_member :: "string \<times> json \<Rightarrow> string" where
  "print_member \<equiv> \<lambda>(k, v). print_string k @ '':'' @ print_json v"

section \<open>The fuel is enough\<close>

lemma skip_ws_length: "length (skip_ws s) \<le> length s"
  by (simp add: skip_ws_def length_dropWhile_le)

lemma skip_ws_Cons: "skip_ws s = c # cs \<Longrightarrow> length cs < length s"
  using skip_ws_length [of s] by simp

lemma prepend_Some:
  "prepend w x = Some (s, r) \<longleftrightarrow> (\<exists>s'. x = Some (s', r) \<and> s = w @ s')"
  by (cases x) (auto simp: prepend_def)

lemma parse_string_length: "parse_string s = Some (w, r) \<Longrightarrow> length r < length s"
proof (induction s arbitrary: w r rule: length_induct)
  case (1 s)
  have IH: "length r' < Suc (length t)"
    if "parse_string (drop k t) = Some (w', r')" "length t < length s" for k t w' r'
  proof -
    have "length (drop k t) < length s"
      using that(2) by simp
    then have "length r' < length (drop k t)"
      using "1.IH" that(1) by blast
    then show ?thesis
      by simp
  qed
  note IH0 = IH [of 0, simplified]
  show ?case
    using "1.prems"
    by (cases s)
      (auto simp del: utf8_len.simps simp: prepend_Some less_Suc_eq_le split: if_splits list.splits option.splits
        dest!: IH IH0 intro: less_imp_le)
qed

lemma lex_int_length: "lex_int s = Some (w, r) \<Longrightarrow> length r < length s"
  by (auto simp: lex_int_def split: list.splits if_splits
      intro: le_imp_less_Suc length_dropWhile_le)

lemma lex_frac_length: "lex_frac s = Some (w, r) \<Longrightarrow> length r \<le> length s"
  by (auto simp: lex_frac_def split: list.splits if_splits intro: le_SucI length_dropWhile_le)

lemma lex_exp_length: "lex_exp s = Some (w, r) \<Longrightarrow> length r \<le> length s"
  by (auto simp: lex_exp_def Let_def split: list.splits if_splits
      intro: le_SucI length_dropWhile_le)

lemma lex_number_length: "lex_number s = Some (w, r) \<Longrightarrow> length r < length s"
  by (fastforce simp: lex_number_def Let_def split: list.splits if_splits option.splits
      dest!: lex_int_length lex_frac_length lex_exp_length)

lemma parse_length:
  shows "parse_value n d s = Some (v, r) \<Longrightarrow> length r < length s"
    and "parse_elems n d s = Some (vs, r) \<Longrightarrow> length r < length s"
    and "parse_members n d s = Some (ms, r) \<Longrightarrow> length r < length s"
proof (induction n arbitrary: d s v vs ms r)
  case (Suc n)
  { case 1
    then show ?case
      using skip_ws_length [of s] skip_ws_length [of "tl (skip_ws s)"]
      by (auto split: list.splits if_splits dest!: Suc.IH parse_string_length lex_number_length)
  next
    case 2
    then show ?case
      by (auto split: list.splits option.splits if_splits dest!: Suc.IH skip_ws_Cons)
  next
    case 3
    then show ?case
      by (auto split: list.splits option.splits if_splits dest!: Suc.IH parse_string_length skip_ws_Cons)
  }
qed simp_all

lemma parse_fuel:
  shows "2 * length s + 1 \<le> n \<Longrightarrow> 2 * length s + 1 \<le> m \<Longrightarrow> parse_value n d s = parse_value m d s"
    and "2 * length s + 2 \<le> n \<Longrightarrow> 2 * length s + 2 \<le> m \<Longrightarrow> parse_elems n d s = parse_elems m d s"
    and "2 * length s + 1 \<le> n \<Longrightarrow> 2 * length s + 1 \<le> m \<Longrightarrow> parse_members n d s = parse_members m d s"
proof (induction n arbitrary: m d s)
  case (Suc n)
  { case 1
    then obtain k where m: "m = Suc k"
      by (cases m) auto
    have "parse_members n (d - 1) cs = parse_members k (d - 1) cs"
         "parse_elems n (d - 1) cs = parse_elems k (d - 1) cs" if "skip_ws s = c # cs" for c cs
      using skip_ws_Cons [OF that] 1 m by (auto intro!: Suc.IH)
    then show ?case
      by (simp add: m split: list.split)
  next
    case 2
    then obtain k where m: "m = Suc k"
      by (cases m) auto
    have v: "parse_value n d s = parse_value k d s"
      using 2 m by (auto intro!: Suc.IH)
    have e: "parse_elems n d r' = parse_elems k d r'"
      if "parse_value k d s = Some (v, r)" "skip_ws r = c # r'" for v r c r'
      using parse_length(1) [OF that(1)] skip_ws_Cons [OF that(2)] 2 m by (auto intro!: Suc.IH)
    show ?case
      by (simp add: m v e split: list.split option.split)
  next
    case 3
    then obtain k where m: "m = Suc k"
      by (cases m) auto
    have v: "parse_value n d s3 = parse_value k d s3"
      if "skip_ws s = q # s1" "parse_string s1 = Some (w, s2)" "skip_ws s2 = c # s3" for q s1 w s2 c s3
      using skip_ws_Cons [OF that(1)] parse_string_length [OF that(2)] skip_ws_Cons [OF that(3)] 3 m
      by (auto intro!: Suc.IH)
    have e: "parse_members n d s5 = parse_members k d s5"
      if "skip_ws s = q # s1" "parse_string s1 = Some (w, s2)" "skip_ws s2 = c # s3"
         "parse_value k d s3 = Some (x, s4)" "skip_ws s4 = e # s5" for q s1 w s2 c s3 x s4 e s5
      using skip_ws_Cons [OF that(1)] parse_string_length [OF that(2)] skip_ws_Cons [OF that(3)]
        parse_length(1) [OF that(4)] skip_ws_Cons [OF that(5)] 3 m
      by (auto intro!: Suc.IH)
    show ?case
      by (simp add: m v e split: list.split option.split)
  }
qed simp_all

lemma json_decode_fuel:
  assumes "json_fuel s \<le> n"
  shows "parse_value n max_nesting s = json_decode s"
  using assms parse_fuel(1) [of s n "json_fuel s"] by (simp add: json_decode_def json_fuel_def)

section \<open>What is written is read back\<close>

lemma hex4_byte: "n < 256 \<Longrightarrow> hex4 (CHR ''0'' # CHR ''0'' # hex_byte n @ s) = Some (n, s)"
  by (simp add: hex_byte_def hex_val_def [of "CHR ''0''"])

lemma parse_string_escape:
  assumes "(of_char c :: nat) < 128"
  shows "parse_string (escape_char c @ s) = prepend [c] (parse_string s)"
proof (cases "(of_char c :: nat) < 32 \<or> c = CHR ''<'' \<or> c = CHR ''>'' \<or> c = CHR ''&''")
  case True
  have "drop 4 (CHR ''0'' # CHR ''0'' # hex_byte (of_char c) @ s) = s"
    by (simp add: hex_byte_def)
  moreover have "utf8_encode (of_char c) = [c]"
    using assms by (simp add: utf8_encode_def)
  ultimately have u: "parse_string ([CHR 0x5C, CHR ''u''] @ ''00'' @ hex_byte (of_char c) @ s)
      = prepend [c] (parse_string s)"
    using assms hex4_byte [of "of_char c" s] by (simp del: hex4.simps)
  show ?thesis
  proof (cases "c \<in> {CHR 0x08, CHR 0x0C, CHR 0x0A, CHR 0x0D, CHR 0x09}")
    case True
    then show ?thesis
      by (auto simp: escape_char_def unescape_def)
  next
    case False
    moreover have "c \<noteq> CHR 0x22" "c \<noteq> CHR 0x5C"
      using True by auto
    ultimately have "escape_char c = [CHR 0x5C, CHR ''u''] @ ''00'' @ hex_byte (of_char c)"
      using True by (simp add: escape_char_def)
    then show ?thesis
      using u by simp
  qed
next
  case False
  then show ?thesis
    using assms by (auto simp: escape_char_def unescape_def)
qed

lemma print_chars_ascii: "ascii w \<Longrightarrow> print_chars w = concat (map escape_char w)"
  by (induction w) (simp_all add: ascii_def)

lemma parse_print_string: "ascii w \<Longrightarrow> parse_string (print_chars w @ CHR 0x22 # r) = Some (w, r)"
proof (induction w)
  case (Cons c w)
  then show ?case
    using parse_string_escape [of c "print_chars w @ CHR 0x22 # r"]
    by (simp add: ascii_def prepend_def)
qed simp

lemma show_nat_zero: "hd (show_nat n) = CHR ''0'' \<Longrightarrow> n = 0"
proof (induction n rule: show_nat.induct)
  case (1 n)
  show ?case
  proof (cases "n < 10")
    case True
    then have "show_nat n = [digit_char n]"
      by (subst show_nat.simps) simp
    moreover have "digit_char 0 = CHR ''0''"
      by code_simp
    ultimately show ?thesis
      using "1.prems" digit_char_inject [of n 0] True by simp
  next
    case False
    then have "show_nat n = show_nat (n div 10) @ [digit_char (n mod 10)]"
      by (subst show_nat.simps) simp
    then show ?thesis
      using "1.IH" "1.prems" False by (auto simp: hd_append)
  qed
qed

lemma lex_int_show_nat:
  assumes "num_end r"
  shows "lex_int (show_nat n @ r) = Some (show_nat n, r)"
proof (cases "n = 0")
  case True
  have "show_nat 0 = ''0''"
    by code_simp
  then show ?thesis
    using True by (simp add: lex_int_def)
next
  case False
  obtain c cs where s: "show_nat n = c # cs"
    by (cases "show_nat n") simp_all
  then have "c \<noteq> CHR ''0''" "is_digit c"
    using False show_nat_zero [of n] hd_show_nat [of n] by auto
  moreover have "takeWhile is_digit (show_nat n @ r) = show_nat n" "dropWhile is_digit (show_nat n @ r) = r"
    using assms by (auto simp: takeWhile_append dropWhile_append num_end_def dest: show_nat_digits split: list.splits)
  ultimately show ?thesis
    using s by (simp add: lex_int_def)
qed

lemma lex_number_FormatInt:
  assumes "num_end r"
  shows "lex_number (FormatInt i @ r) = Some (FormatInt i, r)"
proof -
  have f: "lex_frac r = Some ([], r)" "lex_exp r = Some ([], r)"
    using assms by (auto simp: num_end_def lex_frac_def lex_exp_def split: list.splits)
  obtain c cs where s: "show_nat (nat \<bar>i\<bar>) = c # cs"
    by (cases "show_nat (nat \<bar>i\<bar>)") simp_all
  then have "c \<noteq> CHR ''-''"
    using hd_show_nat [of "nat \<bar>i\<bar>"] digit_not(1) by auto
  then show ?thesis
    using lex_int_show_nat [OF assms, of "nat \<bar>i\<bar>"] f s
    by (auto simp: lex_number_def FormatInt_def Let_def)
qed

lemma FormatInt_start:
  obtains c cs where "FormatInt i = c # cs" "is_digit c \<or> c = CHR ''-''"
proof (cases "i < 0")
  case True
  then show thesis
    using that by (simp add: FormatInt_def)
next
  case False
  then show thesis
    using that hd_show_nat [of "nat i"] by (cases "show_nat (nat i)") (auto simp: FormatInt_def)
qed

lemma num_start:
  assumes "is_digit c \<or> c = CHR ''-''"
  shows "\<not> json_ws c" "c \<notin> {CHR ''{'', CHR ''['', CHR '']'', CHR 0x22, CHR ''t'', CHR ''f'', CHR ''n''}"
  using assms
  by (auto simp: json_ws_def is_digit_def char_digit_def Let_def split: if_splits)

lemma print_start:
  assumes "int_json v"
  obtains c cs where "print_json v = c # cs" "\<not> json_ws c" "c \<noteq> CHR '']''"
proof (cases v)
  case (JNum lit)
  then obtain i where lit: "lit = FormatInt i"
    using assms by (auto split: option.splits)
  obtain c cs where "FormatInt i = c # cs" "is_digit c \<or> c = CHR ''-''"
    by (rule FormatInt_start)
  then show thesis
    using that [of c cs] JNum lit num_start [of c] by simp
next
  case (JBool b)
  then show thesis
    using that by (cases b) (simp_all add: json_ws_def)
qed (use that in \<open>auto simp: json_ws_def print_string_def\<close>)

lemma skip_ws_print: "int_json v \<Longrightarrow> skip_ws (print_json v @ r) = print_json v @ r"
  by (elim print_start) (simp add: skip_ws_def)

lemma skip_ws_nonws: "\<not> json_ws c \<Longrightarrow> skip_ws (c # r) = c # r"
  by (simp add: skip_ws_def)

lemma json_ws_simps [simp]:
  "\<not> json_ws CHR '',''" "\<not> json_ws CHR '']''" "\<not> json_ws CHR ''}''" "\<not> json_ws CHR '':''" "\<not> json_ws CHR 0x22"
  "\<not> json_ws CHR ''{''" "\<not> json_ws CHR ''[''" "\<not> json_ws CHR ''t''" "\<not> json_ws CHR ''f''" "\<not> json_ws CHR ''n''"
  by (simp_all add: json_ws_def)

lemma num_end_simps [simp]:
  "num_end (CHR '','' # r)" "num_end (CHR '']'' # r)" "num_end (CHR ''}'' # r)" "num_end []"
  by (simp_all add: num_end_def is_digit_def char_digit_def)

lemma parse_print_elems:
  assumes "vs \<noteq> []" "list_all (reads d) vs" "2 * length (Join '','' (map print_json vs) @ '']'' @ r) + 2 \<le> n"
  shows "parse_elems n d (Join '','' (map print_json vs) @ '']'' @ r) = Some (vs, r)"
  using assms
proof (induction vs arbitrary: n)
  case (Cons v vs)
  then obtain k where n: "n = Suc k"
    by (cases n) auto
  show ?case
  proof (cases "vs = []")
    case True
    then show ?thesis
      using Cons.prems n by (simp add: reads_def skip_ws_nonws)
  next
    case False
    let ?rest = "Join '','' (map print_json vs) @ '']'' @ r"
    have j: "Join '','' (map print_json (v # vs)) @ '']'' @ r = print_json v @ CHR '','' # ?rest"
      using False by (simp add: Join_Cons)
    have "parse_value k d (print_json v @ CHR '','' # ?rest) = Some (v, CHR '','' # ?rest)"
      using Cons.prems(2,3) unfolding j n by (simp add: reads_def)
    moreover have "parse_elems k d ?rest = Some (vs, r)"
      using Cons.prems(2,3) False unfolding j n by (intro Cons.IH) simp_all
    ultimately show ?thesis
      unfolding j n by (simp add: skip_ws_nonws)
  qed
qed simp

lemma parse_print_members:
  assumes "ms \<noteq> []" "list_all (\<lambda>(k, v). ascii k \<and> reads d v) ms"
    "2 * length (Join '','' (map print_member ms) @ ''}'' @ r) + 1 \<le> n"
  shows "parse_members n d (Join '','' (map print_member ms) @ ''}'' @ r) = Some (ms, r)"
  using assms
proof (induction ms arbitrary: n)
  case (Cons m ms)
  then obtain k where n: "n = Suc k"
    by (cases n) auto
  obtain key v where m: "m = (key, v)"
    by (cases m)
  have key: "parse_string (print_chars key @ CHR 0x22 # s) = Some (key, s)" for s
    using Cons.prems(2) m by (intro parse_print_string) simp
  show ?case
  proof (cases "ms = []")
    case True
    then show ?thesis
      using Cons.prems n m key by (simp add: reads_def skip_ws_nonws print_string_def)
  next
    case False
    let ?rest = "Join '','' (map print_member ms) @ ''}'' @ r"
    have j: "Join '','' (map print_member (m # ms)) @ ''}'' @ r
        = CHR 0x22 # print_chars key @ CHR 0x22 # CHR '':'' # print_json v @ CHR '','' # ?rest"
      using False by (simp add: Join_Cons m print_string_def)
    have "parse_value k d (print_json v @ CHR '','' # ?rest) = Some (v, CHR '','' # ?rest)"
      using Cons.prems(2) [unfolded m] Cons.prems(3) [unfolded j n] by (simp add: reads_def)
    moreover have "parse_members k d ?rest = Some (ms, r)"
      using Cons.prems(2) Cons.prems(3) [unfolded j n] False by (intro Cons.IH) simp_all
    ultimately show ?thesis
      unfolding j n by (simp add: m skip_ws_nonws key)
  qed
qed simp

lemma foldr_max_le: "foldr (\<lambda>v n. max (f v) n) vs (0::nat) \<le> d \<longleftrightarrow> list_all (\<lambda>v. f v \<le> d) vs"
  by (induction vs) simp_all

lemma reads_JArr:
  assumes "list_all (reads d) vs" "list_all int_json vs"
  shows "reads (Suc d) (JArr vs)"
  unfolding reads_def
proof (intro allI impI)
  fix r n
  assume n: "2 * length (print_json (JArr vs) @ r) + 1 \<le> n"
  then obtain k where k: "n = Suc k"
    by (cases n) auto
  show "parse_value n (Suc d) (print_json (JArr vs) @ r) = Some (JArr vs, r)"
  proof (cases vs)
    case Nil
    then show ?thesis
      by (simp add: k skip_ws_nonws)
  next
    case (Cons v vs')
    let ?t = "Join '','' (map print_json vs) @ '']'' @ r"
    obtain c cs where c: "print_json v = c # cs" "\<not> json_ws c" "c \<noteq> CHR '']''"
      using assms(2) Cons print_start [of v] by auto
    have "\<exists>cs'. ?t = c # cs'"
      using c(1) Cons by (cases "vs' = []") (simp_all add: Join_Cons)
    then have t: "skip_ws ?t \<noteq> []" "hd (skip_ws ?t) \<noteq> CHR '']''"
      using c(2,3) by (auto simp: skip_ws_nonws)
    have "parse_elems k d ?t = Some (vs, r)"
      using n k Cons assms(1) by (intro parse_print_elems) simp_all
    then show ?thesis
      using t by (simp add: k skip_ws_nonws)
  qed
qed

lemma reads_JObj:
  assumes "list_all (\<lambda>(k, v). ascii k \<and> reads d v) ms"
  shows "reads (Suc d) (JObj ms)"
  unfolding reads_def
proof (intro allI impI)
  fix r n
  assume n: "2 * length (print_json (JObj ms) @ r) + 1 \<le> n"
  then obtain k where k: "n = Suc k"
    by (cases n) auto
  show "parse_value n (Suc d) (print_json (JObj ms) @ r) = Some (JObj ms, r)"
  proof (cases ms)
    case Nil
    then show ?thesis
      by (simp add: k skip_ws_nonws)
  next
    case (Cons m ms')
    let ?t = "Join '','' (map print_member ms) @ ''}'' @ r"
    have "\<exists>cs'. ?t = CHR 0x22 # cs'"
      using Cons by (cases m; cases "ms' = []") (simp_all add: Join_Cons print_string_def)
    then have t: "skip_ws ?t \<noteq> []" "hd (skip_ws ?t) \<noteq> CHR ''}''"
      by (auto simp: skip_ws_nonws)
    have "parse_members k d ?t = Some (ms, r)"
      using n k Cons assms by (intro parse_print_members) simp_all
    then show ?thesis
      using t by (simp add: k skip_ws_nonws)
  qed
qed

lemma reads_int_json: "int_json v \<Longrightarrow> depth v \<le> d \<Longrightarrow> reads d v"
proof (induction v arbitrary: d)
  case (JArr vs)
  then obtain d' where d: "d = Suc d'"
    by (cases d) auto
  have "list_all (reads d') vs"
    using JArr d by (auto simp: foldr_max_le list_all_iff)
  then show ?case
    using JArr.prems d by (auto intro: reads_JArr)
next
  case (JObj ms)
  then obtain d' where d: "d = Suc d'"
    by (cases d) auto
  have "foldr (\<lambda>(k, v) n. max (depth v) n) ms 0 \<le> d'"
    using JObj.prems d by simp
  then have "list_all (\<lambda>m. depth (snd m) \<le> d') ms"
    by (induction ms) auto
  then have "list_all (\<lambda>(k, v). ascii k \<and> reads d' v) ms"
    using JObj by (fastforce simp: list_all_iff)
  then show ?case
    using d by (auto intro: reads_JObj)
next
  case (JNum lit)
  then obtain i where lit: "lit = FormatInt i"
    by (auto split: option.splits)
  obtain c cs where c: "FormatInt i = c # cs" "is_digit c \<or> c = CHR ''-''"
    by (rule FormatInt_start)
  show ?case
    unfolding reads_def
  proof (intro allI impI)
    fix r n
    assume r: "num_end r" and "2 * length (print_json (JNum lit) @ r) + 1 \<le> n"
    then obtain k where "n = Suc k"
      by (cases n) auto
    then show "parse_value n d (print_json (JNum lit) @ r) = Some (JNum lit, r)"
      using lex_number_FormatInt [OF r, of i] lit c(1) num_start [OF c(2)]
      by (simp add: skip_ws_nonws HasPrefix_def)
  qed
next
  case (JStr w)
  show ?case
    unfolding reads_def
  proof (intro allI impI)
    fix r n
    assume "2 * length (print_json (JStr w) @ r) + 1 \<le> n"
    then obtain k where "n = Suc k"
      by (cases n) auto
    then show "parse_value n d (print_json (JStr w) @ r) = Some (JStr w, r)"
      using JStr parse_print_string [of w r] by (simp add: skip_ws_nonws print_string_def)
  qed
next
  case JNull
  show ?case
    unfolding reads_def
    by (intro allI impI, rename_tac r n, case_tac n) (simp_all add: skip_ws_nonws HasPrefix_def)
next
  case (JBool b)
  show ?case
    unfolding reads_def
    by (intro allI impI, rename_tac r n, case_tac n) (simp_all add: skip_ws_nonws HasPrefix_def)
qed

theorem json_roundtrip:
  assumes "int_json v" "depth v \<le> max_nesting" "num_end r"
  shows "json_decode (print_json v @ r) = Some (v, r)"
  using reads_int_json [OF assms(1,2)] assms(3)
  by (simp add: reads_def json_decode_def json_fuel_def del: parse_value.simps)

corollary json_unmarshal_print:
  "int_json v \<Longrightarrow> depth v \<le> max_nesting \<Longrightarrow> json_unmarshal (print_json v) = Some v"
  using json_roundtrip [of v "[]"] by (simp add: json_unmarshal_def skip_ws_def)

declare fold_name.simps [simp del] print_chars.simps [simp del] parse_value.simps [simp del] parse_elems.simps [simp del] parse_members.simps [simp del]

end
