(* ===== verification/Json_Number.thy ===== *)
theory Json_Number
  imports Json
begin

text \<open>
  JSON numbers decoded into an \<open>any\<close>, as \<open>encoding/json\<close> does: the literal becomes the
  nearest \<open>float64\<close> (ties to even), or a decoding error when it is out of range. The only
  use the program makes of such a value is the conversion to \<open>int\<close>, so the model gives the
  integer part of the rounded value.
\<close>

text \<open>The literal as a fraction: sign, numerator, denominator.\<close>

definition num_value :: "string \<Rightarrow> bool \<times> nat \<times> nat" where
  "num_value lit =
     (let neg = (lit \<noteq> [] \<and> hd lit = CHR ''-'');
          s = (if neg then tl lit else lit);
          ip = takeWhile is_digit s; r = dropWhile is_digit s;
          fr = (if r \<noteq> [] \<and> hd r = CHR ''.'' then takeWhile is_digit (tl r) else []);
          r' = (if r \<noteq> [] \<and> hd r = CHR ''.'' then dropWhile is_digit (tl r) else r);
          es = (if r' \<noteq> [] then tl r' else []);
          eneg = (es \<noteq> [] \<and> hd es = CHR ''-'');
          ed = (if es \<noteq> [] \<and> (hd es = CHR ''-'' \<or> hd es = CHR ''+'') then tl es else es);
          ev = (case digits_val 0 ed of None \<Rightarrow> 0 | Some n \<Rightarrow> n);
          m = (case digits_val 0 (ip @ fr) of None \<Rightarrow> 0 | Some n \<Rightarrow> n);
          e = (if eneg then - int ev else int ev) - int (length fr)
      in (neg, if 0 \<le> e then m * 10 ^ nat e else m, if 0 \<le> e then 1 else 10 ^ nat (- e)))"

definition round_half_even :: "nat \<Rightarrow> nat \<Rightarrow> nat" where
  "round_half_even a b =
     (let q = a div b; r = a mod b
      in if 2 * r < b \<or> (2 * r = b \<and> even q) then q else q + 1)"

fun log2_floor :: "nat \<Rightarrow> nat" where
  "log2_floor n = (if n < 2 then 0 else Suc (log2_floor (n div 2)))"

declare log2_floor.simps [simp del]

text \<open>The integer part of \<open>a / b\<close> rounded to 53 significant bits.\<close>

definition float_floor :: "nat \<Rightarrow> nat \<Rightarrow> nat" where
  "float_floor a b =
     (let n = a div b
      in if n = 0 then (if b * (2 ^ 54 - 1) \<le> a * 2 ^ 54 then 1 else 0)
         else if n < 2 ^ 53 then
           (let sc = 2 ^ (52 - log2_floor n) in round_half_even (a * sc) b div sc)
         else
           (let u = 2 ^ (log2_floor n - 52) in round_half_even a (b * u) * u))"

text \<open>A literal in the range of \<open>float64\<close>; above it the decoder reports an error.\<close>

definition float_finite :: "string \<Rightarrow> bool" where
  "float_finite lit = (case num_value lit of (_, a, b) \<Rightarrow> a < b * ((2 ^ 54 - 1) * 2 ^ 970))"

text \<open>\<open>int(v)\<close>; a value out of the range of \<open>int64\<close> becomes the smallest one, as on amd64.\<close>

definition float_int :: "string \<Rightarrow> int" where
  "float_int lit =
     (case num_value lit of
        (neg, a, b) \<Rightarrow>
          (let i = (if neg then - int (float_floor a b) else int (float_floor a b))
           in if int64_range i then i else - (2 ^ 63)))"

text \<open>A value stored in an \<open>any\<close>: every number in it has to be in range.\<close>

fun any_ok :: "json \<Rightarrow> bool" where
  "any_ok (JNum lit) = float_finite lit"
| "any_ok (JArr vs) = list_all any_ok vs"
| "any_ok (JObj ms) = list_all (\<lambda>(_, v). any_ok v) ms"
| "any_ok _ = True"

text \<open>A field of type \<open>map[string]any\<close>: members are added to the map, \<open>null\<close> makes it nil.\<close>

definition dec_map :: "(string \<rightharpoonup> json) decoder" where
  "dec_map v old =
     (case v of
        JObj ms \<Rightarrow> (foldl (\<lambda>m (k, w). if any_ok w then m(k \<mapsto> w) else m) old ms, any_ok v)
      | JNull \<Rightarrow> (Map.empty, True)
      | _ \<Rightarrow> (old, False))"

section \<open>Integers survive\<close>

lemma float_floor_nat: "n < 2 ^ 53 \<Longrightarrow> float_floor n 1 = n"
  by (simp add: float_floor_def round_half_even_def Let_def)

lemma num_value_show_nat: "num_value (show_nat n) = (False, n, 1)"
proof -
  have t: "takeWhile is_digit (show_nat n) = show_nat n" "dropWhile is_digit (show_nat n) = []"
    by (simp_all add: takeWhile_eq_all_conv show_nat_digits)
  have "hd (show_nat n) \<noteq> CHR ''-''"
    using hd_show_nat digit_not(1) by blast
  then show ?thesis
    by (simp add: num_value_def Let_def t)
qed

lemma float_int_show_nat: "n < 2 ^ 53 \<Longrightarrow> float_int (show_nat n) = int n"
  using float_floor_nat [of n] by (simp add: float_int_def num_value_show_nat Let_def int64_range_def)

lemma float_finite_show_nat:
  assumes "n < 2 ^ 53"
  shows "float_finite (show_nat n)"
proof -
  have "(2::nat) ^ 53 \<le> (2 ^ 54 - 1) * 2 ^ 970"
    by simp
  then show ?thesis
    using assms unfolding float_finite_def num_value_show_nat by simp
qed

lemma float_int_FormatInt: "0 \<le> i \<Longrightarrow> i < 2 ^ 53 \<Longrightarrow> float_int (FormatInt i) = i"
  using float_int_show_nat [of "nat i"] by (simp add: FormatInt_def nat_less_iff)

lemma float_finite_FormatInt: "0 \<le> i \<Longrightarrow> i < 2 ^ 53 \<Longrightarrow> float_finite (FormatInt i)"
  using float_finite_show_nat [of "nat i"] by (simp add: FormatInt_def nat_less_iff)

end
