(* ===== verification/Netalloc.thy ===== *)
theory Netalloc
  imports Go_Lib
begin

text \<open>
  The network allocator of \<open>control-plane/internal/netalloc/netalloc.go\<close>: the IPv4
  arithmetic of \<open>net/netip\<close> it uses, the parser of a CIDR, the state of \<open>Allocator\<close> and
  its operations \<open>New\<close>, \<open>Alloc\<close>, \<open>Release\<close> and \<open>InUseCount\<close>. The lemmas describe the
  state after any sequence of operations exactly, which gives the freshness of every
  lease and the number of leases an allocator can ever hand out.
\<close>

unbundle bit_operations_syntax

section \<open>IPv4 addresses and prefixes\<close>

text \<open>
  An IPv4 \<open>netip.Addr\<close> is its 32 bits; the invalid \<open>netip.Addr{}\<close>, which \<open>Next\<close> returns
  past the last address and which no prefix contains, is \<open>None\<close>.
\<close>

type_synonym ip4 = "32 word"

record ip4_prefix =
  pfx_addr :: ip4
  pfx_bits :: nat

datatype netip_prefix = Prefix4 ip4_prefix | Prefix6 "128 word" nat

definition addr_next :: "ip4 option \<Rightarrow> ip4 option" where
  "addr_next a = (case a of None \<Rightarrow> None | Some w \<Rightarrow> if w + 1 = 0 then None else Some (w + 1))"

definition prefix_contains :: "ip4_prefix \<Rightarrow> ip4 \<Rightarrow> bool" where
  "prefix_contains p w \<longleftrightarrow> drop_bit (32 - pfx_bits p) (w XOR pfx_addr p) = 0"

definition prefix_masked :: "ip4_prefix \<Rightarrow> ip4" where
  "prefix_masked p = pfx_addr p AND NOT (mask (32 - pfx_bits p))"

text \<open>\<open>netip.ParsePrefix\<close>. The textual form of IPv6 addresses is the parameter \<open>parse6\<close>.\<close>

definition parse_octet :: "string \<Rightarrow> nat option" where
  "parse_octet s =
     (case read_nat s of
        None \<Rightarrow> None
      | Some n \<Rightarrow> if n \<le> 255 \<and> (length s = 1 \<or> hd s \<noteq> CHR ''0'') then Some n else None)"

definition parse_ipv4 :: "string \<Rightarrow> ip4 option" where
  "parse_ipv4 s =
     (case map parse_octet (Split (CHR ''.'') s) of
        [Some a, Some b, Some c, Some d] \<Rightarrow>
          Some (word_of_nat (((a * 256 + b) * 256 + c) * 256 + d))
      | _ \<Rightarrow> None)"

definition parse_bits :: "nat \<Rightarrow> string \<Rightarrow> nat option" where
  "parse_bits max_bits s =
     (if 1 < length s \<and> \<not> (is_digit (hd s) \<and> hd s \<noteq> CHR ''0'') then None
      else case Atoi s of
             None \<Rightarrow> None
           | Some n \<Rightarrow> if n < 0 \<or> int max_bits < n then None else Some (nat n))"

definition ParsePrefix :: "(string \<Rightarrow> 128 word option) \<Rightarrow> string \<Rightarrow> netip_prefix option" where
  "ParsePrefix parse6 s =
     (if CHR ''/'' \<notin> set s then None
      else let bits = rev (takeWhile (\<lambda>c. c \<noteq> CHR ''/'') (rev s));
               addr = take (length s - length bits - 1) s
           in case find (\<lambda>c. c = CHR ''.'' \<or> c = CHR '':'' \<or> c = CHR ''%'') addr of
                None \<Rightarrow> None
              | Some c \<Rightarrow>
                  if c = CHR ''.'' then
                    (case (parse_ipv4 addr, parse_bits 32 bits) of
                       (Some a, Some b) \<Rightarrow> Some (Prefix4 \<lparr>pfx_addr = a, pfx_bits = b\<rparr>)
                     | _ \<Rightarrow> None)
                  else if c = CHR '':'' then
                    (case (parse6 addr, parse_bits 128 bits) of
                       (Some a, Some b) \<Rightarrow> Some (Prefix6 a b)
                     | _ \<Rightarrow> None)
                  else None)"

text \<open>\<open>netip.Addr.String\<close> of an IPv4 address.\<close>

definition ip4_octets :: "ip4 \<Rightarrow> nat list" where
  "ip4_octets w =
     [unat w div 16777216, unat w div 65536 mod 256, unat w div 256 mod 256, unat w mod 256]"

definition ip4_string :: "ip4 \<Rightarrow> string" where
  "ip4_string w = Join ''.'' (map show_nat (ip4_octets w))"

definition cidr_string :: "ip4_prefix \<Rightarrow> string" where
  "cidr_string p = ip4_string (pfx_addr p) @ ''/'' @ show_nat (pfx_bits p)"

section \<open>The allocator\<close>

record allocator =
  alloc_base :: ip4_prefix
  alloc_host :: "ip4 option"
  alloc_next :: "ip4 option"
  alloc_in_use :: "ip4 set"
  alloc_tapIdx :: nat
  alloc_cidIdx :: "32 word"

datatype alloc_error = Parse_error | Only_IPv4 | No_free_IPs | Alloc_loop_exhausted

record lease =
  lease_ip :: ip4
  lease_mac :: string
  lease_tap :: string
  lease_cid :: "32 word"

definition new_from_prefix :: "ip4_prefix \<Rightarrow> allocator" where
  "new_from_prefix p =
     (let first = addr_next (Some (prefix_masked p))
      in \<lparr>alloc_base = p, alloc_host = first, alloc_next = addr_next first,
          alloc_in_use = {}, alloc_tapIdx = 0, alloc_cidIdx = 99\<rparr>)"

definition netalloc_New :: "(string \<Rightarrow> 128 word option) \<Rightarrow> string \<Rightarrow> alloc_error + allocator" where
  "netalloc_New parse6 cidr =
     (case ParsePrefix parse6 cidr of
        None \<Rightarrow> Inl Parse_error
      | Some (Prefix6 a b) \<Rightarrow> Inl Only_IPv4
      | Some (Prefix4 p) \<Rightarrow> Inr (new_from_prefix p))"

definition HostAddr :: "allocator \<Rightarrow> ip4 option" where
  "HostAddr a = alloc_host a"

definition PrefixLen :: "allocator \<Rightarrow> nat" where
  "PrefixLen a = pfx_bits (alloc_base a)"

text \<open>\<open>fmt.Sprintf("AA:BB:CC:00:%02x:%02x", b[2], b[3])\<close> with \<open>b = candidate.As4()\<close>.\<close>

definition lease_mac_of :: "ip4 \<Rightarrow> string" where
  "lease_mac_of w =
     ''AA:BB:CC:00:'' @ hex_byte (unat w div 256 mod 256) @ '':'' @ hex_byte (unat w mod 256)"

definition tap_name :: "nat \<Rightarrow> string" where
  "tap_name i = ''tap-fc'' @ show_nat i"

text \<open>The loop of \<open>Alloc\<close>, with the number of iterations left as its first argument.\<close>

primrec alloc_loop :: "nat \<Rightarrow> allocator \<Rightarrow> allocator \<times> (alloc_error + lease)" where
  "alloc_loop 0 a = (a, Inl Alloc_loop_exhausted)"
| "alloc_loop (Suc n) a =
     (let candidate = alloc_next a;
          a = a\<lparr>alloc_next := addr_next candidate\<rparr>
      in case candidate of
           None \<Rightarrow> (a, Inl No_free_IPs)
         | Some c \<Rightarrow>
             if \<not> prefix_contains (alloc_base a) c then (a, Inl No_free_IPs)
             else if Some c = alloc_host a then alloc_loop n a
             else if c \<in> alloc_in_use a then alloc_loop n a
             else
               (let a = a\<lparr>alloc_in_use := insert c (alloc_in_use a),
                          alloc_tapIdx := alloc_tapIdx a + 1,
                          alloc_cidIdx := alloc_cidIdx a + 1\<rparr>
                in (a, Inr \<lparr>lease_ip = c, lease_mac = lease_mac_of c,
                            lease_tap = tap_name (alloc_tapIdx a), lease_cid = alloc_cidIdx a\<rparr>)))"

definition Alloc :: "allocator \<Rightarrow> allocator \<times> (alloc_error + lease)" where
  "Alloc a = alloc_loop (2 ^ 16) a"

definition Release :: "ip4 \<Rightarrow> allocator \<Rightarrow> allocator" where
  "Release ip a = a\<lparr>alloc_in_use := alloc_in_use a - {ip}\<rparr>"

definition InUseCount :: "allocator \<Rightarrow> nat" where
  "InUseCount a = card (alloc_in_use a)"

text \<open>The subnet of the shipped configuration, \<open>172.20.0.0/24\<close>, and a smaller one.\<close>

definition example_net :: ip4_prefix where
  "example_net = \<lparr>pfx_addr = 0xAC140000, pfx_bits = 24\<rparr>"

definition tiny_net :: ip4_prefix where
  "tiny_net = \<lparr>pfx_addr = 0xAC140000, pfx_bits = 30\<rparr>"

text \<open>A sequence of calls by the session manager, and the leases it returns, in order.\<close>

datatype alloc_op = Do_alloc | Do_release ip4

fun alloc_run :: "alloc_op list \<Rightarrow> allocator \<Rightarrow> allocator \<times> lease list" where
  "alloc_run [] a = (a, [])"
| "alloc_run (Do_release ip # ops) a = alloc_run ops (Release ip a)"
| "alloc_run (Do_alloc # ops) a =
     (case Alloc a of
        (a', Inl e) \<Rightarrow> alloc_run ops a'
      | (a', Inr l) \<Rightarrow> (case alloc_run ops a' of (a'', ls) \<Rightarrow> (a'', l # ls)))"

definition allocs :: "alloc_op list \<Rightarrow> nat" where
  "allocs ops = length (filter (\<lambda>x. x = Do_alloc) ops)"

section \<open>Positions in the address space\<close>

definition addr_at :: "nat \<Rightarrow> ip4 option" where
  "addr_at p = (if p < 2 ^ 32 then Some (word_of_nat p) else None)"

text \<open>First address of the subnet, and the number of addresses it has.\<close>

definition network :: "ip4_prefix \<Rightarrow> nat" where
  "network p = unat (pfx_addr p) div 2 ^ (32 - pfx_bits p) * 2 ^ (32 - pfx_bits p)"

definition subnet_size :: "ip4_prefix \<Rightarrow> nat" where
  "subnet_size p = 2 ^ (32 - pfx_bits p)"

text \<open>
  The state after \<open>n\<close> calls of \<open>Alloc\<close>, whatever was released in between: the candidate
  only ever moves up, so the call number \<open>n\<close> looks at the address number \<open>n + 2\<close> of the
  subnet.
\<close>

definition alloc_rep :: "ip4_prefix \<Rightarrow> nat \<Rightarrow> allocator \<Rightarrow> bool" where
  "alloc_rep p n a \<longleftrightarrow>
     alloc_base a = p \<and>
     alloc_host a = addr_at (network p + 1) \<and>
     alloc_next a = addr_at (network p + 2 + n) \<and>
     alloc_tapIdx a = min n (subnet_size p - 2) \<and>
     alloc_cidIdx a = 99 + word_of_nat (alloc_tapIdx a) \<and>
     finite (alloc_in_use a) \<and>
     (\<forall>w \<in> alloc_in_use a. network p + 2 \<le> unat w \<and> unat w < network p + 2 + n)"

definition alloc_ok :: "allocator \<Rightarrow> bool" where
  "alloc_ok a \<longleftrightarrow> (\<exists>p n. alloc_rep p n a)"

definition nth_lease :: "ip4_prefix \<Rightarrow> nat \<Rightarrow> lease" where
  "nth_lease p n =
     \<lparr>lease_ip = word_of_nat (network p + 2 + n),
      lease_mac = lease_mac_of (word_of_nat (network p + 2 + n)),
      lease_tap = tap_name (Suc n),
      lease_cid = 99 + word_of_nat (Suc n)\<rparr>"

text \<open>What the session manager relies on: fresh addresses, and a faithful set of live ones.\<close>

locale address_pool =
  fixes alloc :: "'a \<Rightarrow> 'a \<times> ('e + 'l)"
    and release :: "ip4 \<Rightarrow> 'a \<Rightarrow> 'a"
    and live :: "'a \<Rightarrow> ip4 set"
    and ip_of :: "'l \<Rightarrow> ip4"
    and ok :: "'a \<Rightarrow> bool"
  assumes alloc_fresh: "ok a \<Longrightarrow> alloc a = (a', Inr l) \<Longrightarrow> ip_of l \<notin> live a"
    and alloc_live: "ok a \<Longrightarrow> alloc a = (a', Inr l) \<Longrightarrow> live a' = insert (ip_of l) (live a)"
    and alloc_fail: "ok a \<Longrightarrow> alloc a = (a', Inl e) \<Longrightarrow> live a' = live a"
    and alloc_ok: "ok a \<Longrightarrow> ok (fst (alloc a))"
    and release_live: "live (release ip a) = live a - {ip}"
    and release_ok: "ok a \<Longrightarrow> ok (release ip a)"
begin

lemma alloc_release: "ok a \<Longrightarrow> alloc a = (a', Inr l) \<Longrightarrow> live (release (ip_of l) a') = live a"
  using alloc_fresh [of a a' l] alloc_live [of a a' l] by (simp add: release_live)

lemma alloc_ok': "ok a \<Longrightarrow> alloc a = (a', r) \<Longrightarrow> ok a'"
  using alloc_ok [of a] by simp

lemma release_idem: "live (release ip (release ip a)) = live (release ip a)"
  by (simp add: release_live)

end

lemma unat_word_of_nat_32: "n < 2 ^ 32 \<Longrightarrow> unat (word_of_nat n :: ip4) = n"
  by (simp add: unat_of_nat)

lemma addr_next_at [simp]: "addr_next (addr_at p) = addr_at (Suc p)"
proof (cases "p < 2 ^ 32")
  case True
  have "(word_of_nat p + 1 = (0 :: ip4)) \<longleftrightarrow> (word_of_nat (Suc p) :: ip4) = 0"
    by (simp add: add.commute)
  also have "\<dots> \<longleftrightarrow> 2 ^ 32 dvd Suc p"
    unfolding word_of_nat_eq_0_iff by simp
  also have "\<dots> \<longleftrightarrow> Suc p = 2 ^ 32"
    using True dvd_imp_le [of "2 ^ 32" "Suc p"] by auto
  finally show ?thesis
    using True by (auto simp: addr_at_def addr_next_def add.commute)
next
  case False
  then show ?thesis by (simp add: addr_at_def addr_next_def)
qed

lemma word_xor_eq_0_iff: "a XOR b = 0 \<longleftrightarrow> a = (b :: 'a::len word)"
  by (metis xor.assoc xor.right_neutral xor_self_eq)

lemma unat_drop_bit_div: "unat (drop_bit k w) = unat w div 2 ^ k"
  unfolding unat_drop_bit_eq by (rule drop_bit_eq_div)

lemma prefix_contains_iff:
  "prefix_contains p w \<longleftrightarrow>
   unat w div 2 ^ (32 - pfx_bits p) = unat (pfx_addr p) div 2 ^ (32 - pfx_bits p)"
proof -
  have "prefix_contains p w \<longleftrightarrow>
      drop_bit (32 - pfx_bits p) w = drop_bit (32 - pfx_bits p) (pfx_addr p)"
    by (simp add: prefix_contains_def drop_bit_xor word_xor_eq_0_iff)
  also have "\<dots> \<longleftrightarrow> unat (drop_bit (32 - pfx_bits p) w) = unat (drop_bit (32 - pfx_bits p) (pfx_addr p))"
    by (rule word_unat_eq_iff)
  finally show ?thesis
    unfolding unat_drop_bit_div .
qed

lemma unat_prefix_masked: "unat (prefix_masked p) = network p"
proof -
  have "prefix_masked p = push_bit (32 - pfx_bits p) (drop_bit (32 - pfx_bits p) (pfx_addr p))"
    by (simp add: prefix_masked_def bits_ident [symmetric] bit_eq_iff bit_simps) auto
  then have "unat (prefix_masked p) =
      take_bit 32 (push_bit (32 - pfx_bits p) (unat (drop_bit (32 - pfx_bits p) (pfx_addr p))))"
    by (simp only: unsigned_push_bit_eq) simp
  also have "\<dots> = take_bit 32 (network p)"
    unfolding network_def unat_drop_bit_div push_bit_eq_mult ..
  also have "\<dots> = network p"
  proof -
    have "network p \<le> unat (pfx_addr p)" by (simp add: network_def)
    also have "\<dots> < 2 ^ 32" using unsigned_less [of "pfx_addr p", where 'a = nat] by simp
    finally show ?thesis by (simp add: take_bit_nat_eq_self)
  qed
  finally show ?thesis .
qed

lemma network_lt: "network p < 2 ^ 32"
proof -
  have "network p \<le> unat (pfx_addr p)" by (simp add: network_def)
  also have "\<dots> < 2 ^ 32" using unsigned_less [of "pfx_addr p", where 'a = nat] by simp
  finally show ?thesis .
qed

lemma network_end_le: "network p + subnet_size p \<le> 2 ^ 32"
proof -
  let ?k = "32 - pfx_bits p"
  have "unat (pfx_addr p) < 2 ^ 32" using unsigned_less [of "pfx_addr p", where 'a = nat] by simp
  also have "(2::nat) ^ 32 = 2 ^ (32 - ?k) * 2 ^ ?k"
    by (simp add: power_add [symmetric])
  finally have "unat (pfx_addr p) div 2 ^ ?k < 2 ^ (32 - ?k)"
    by (simp add: less_mult_imp_div_less)
  then have "Suc (unat (pfx_addr p) div 2 ^ ?k) * 2 ^ ?k \<le> 2 ^ (32 - ?k) * 2 ^ ?k"
    by (intro mult_le_mono1) simp
  also have "\<dots> = 2 ^ 32" by (simp add: power_add [symmetric])
  finally show ?thesis by (simp add: network_def subnet_size_def)
qed

text \<open>Membership of the subnet, for an address given by its position.\<close>

lemma prefix_contains_at:
  assumes "q < 2 ^ 32"
  shows "prefix_contains p (word_of_nat q) \<longleftrightarrow> network p \<le> q \<and> q < network p + subnet_size p"
proof -
  let ?s = "subnet_size p"
  have s: "0 < ?s" by (simp add: subnet_size_def)
  have "prefix_contains p (word_of_nat q) \<longleftrightarrow> q div ?s = network p div ?s"
    using assms by (simp add: prefix_contains_iff unat_word_of_nat_32 network_def subnet_size_def)
  also have "\<dots> \<longleftrightarrow> network p \<le> q \<and> q < network p + ?s"
  proof -
    have n: "network p = network p div ?s * ?s"
      by (simp add: network_def subnet_size_def)
    show ?thesis
    proof
      assume "q div ?s = network p div ?s"
      with n s show "network p \<le> q \<and> q < network p + ?s"
        by (metis add.commute dividend_less_div_times times_div_less_eq_dividend mult.commute)
    next
      assume "network p \<le> q \<and> q < network p + ?s"
      then obtain r where "q = network p + r" and "r < ?s"
        by (metis add_less_cancel_left le_iff_add)
      with n s show "q div ?s = network p div ?s"
        by (metis div_mult_self3 div_less add.commute add.right_neutral not_less_zero)
    qed
  qed
  finally show ?thesis .
qed

section \<open>The allocator after any sequence of operations\<close>

lemma addr_at_network: "addr_at (network p) = Some (prefix_masked p)"
  using network_lt [of p] by (simp add: addr_at_def unat_prefix_masked [symmetric])

lemma new_from_prefix_rep: "alloc_rep p 0 (new_from_prefix p)"
  by (simp add: alloc_rep_def new_from_prefix_def Let_def addr_at_network [symmetric])

lemma Release_rep: "alloc_rep p n a \<Longrightarrow> alloc_rep p n (Release ip a)"
  by (simp add: alloc_rep_def Release_def)

lemma addr_at_eq_Some: "addr_at q = Some w \<longleftrightarrow> q < 2 ^ 32 \<and> w = word_of_nat q"
  by (auto simp: addr_at_def)

text \<open>One call: the first iteration of the loop decides, so the loop bound is never met.\<close>

lemma Alloc_first:
  "Alloc a =
     (let candidate = alloc_next a; a = a\<lparr>alloc_next := addr_next candidate\<rparr>
      in case candidate of
           None \<Rightarrow> (a, Inl No_free_IPs)
         | Some c \<Rightarrow>
             if \<not> prefix_contains (alloc_base a) c then (a, Inl No_free_IPs)
             else if Some c = alloc_host a then alloc_loop 65535 a
             else if c \<in> alloc_in_use a then alloc_loop 65535 a
             else
               (let a = a\<lparr>alloc_in_use := insert c (alloc_in_use a),
                          alloc_tapIdx := alloc_tapIdx a + 1,
                          alloc_cidIdx := alloc_cidIdx a + 1\<rparr>
                in (a, Inr \<lparr>lease_ip = c, lease_mac = lease_mac_of c,
                            lease_tap = tap_name (alloc_tapIdx a), lease_cid = alloc_cidIdx a\<rparr>)))"
proof -
  have "(2::nat) ^ 16 = Suc 65535" by simp
  then show ?thesis unfolding Alloc_def by (simp only: alloc_loop.simps)
qed

lemma Alloc_outside:
  "alloc_next a = c \<Longrightarrow> (\<And>w. c = Some w \<Longrightarrow> \<not> prefix_contains (alloc_base a) w) \<Longrightarrow>
   Alloc a = (a\<lparr>alloc_next := addr_next c\<rparr>, Inl No_free_IPs)"
  by (cases c) (simp_all add: Alloc_first Let_def)

lemma Alloc_inside:
  "alloc_next a = Some c \<Longrightarrow> prefix_contains (alloc_base a) c \<Longrightarrow> Some c \<noteq> alloc_host a \<Longrightarrow>
   c \<notin> alloc_in_use a \<Longrightarrow>
   Alloc a =
     (a\<lparr>alloc_next := addr_next (Some c), alloc_in_use := insert c (alloc_in_use a),
        alloc_tapIdx := alloc_tapIdx a + 1, alloc_cidIdx := alloc_cidIdx a + 1\<rparr>,
      Inr \<lparr>lease_ip = c, lease_mac = lease_mac_of c, lease_tap = tap_name (alloc_tapIdx a + 1),
           lease_cid = alloc_cidIdx a + 1\<rparr>)"
  by (simp add: Alloc_first Let_def)

lemma Alloc_success:
  assumes rep: "alloc_rep p n a" and n: "n < subnet_size p - 2"
  shows "\<exists>a'. Alloc a = (a', Inr (nth_lease p n)) \<and> alloc_rep p (Suc n) a' \<and>
    alloc_in_use a' = insert (lease_ip (nth_lease p n)) (alloc_in_use a) \<and>
    lease_ip (nth_lease p n) \<notin> alloc_in_use a"
proof -
  define q where "q = network p + 2 + n"
  define w where "w = (word_of_nat q :: ip4)"
  from n network_end_le [of p] have q: "q < 2 ^ 32" by (simp add: q_def)
  then have u: "unat w = q" unfolding w_def by (rule unat_word_of_nat_32)
  have "prefix_contains p w"
    unfolding w_def by (subst prefix_contains_at [OF q]) (use n in \<open>simp add: q_def\<close>)
  moreover have "Some w \<noteq> addr_at (network p + 1)"
  proof
    assume "Some w = addr_at (network p + 1)"
    then have "unat w = network p + 1"
      by (metis addr_at_eq_Some unat_word_of_nat_32)
    with u show False by (simp add: q_def)
  qed
  moreover have fresh: "w \<notin> alloc_in_use a" using rep u by (auto simp: alloc_rep_def q_def)
  moreover have at: "addr_at q = Some w" using q by (simp add: addr_at_def w_def)
  moreover have tap: "alloc_tapIdx a = n" using rep n by (simp add: alloc_rep_def)
  ultimately have eq: "Alloc a =
     (a\<lparr>alloc_next := addr_at (Suc q), alloc_in_use := insert w (alloc_in_use a),
        alloc_tapIdx := Suc n, alloc_cidIdx := alloc_cidIdx a + 1\<rparr>,
      Inr \<lparr>lease_ip = w, lease_mac = lease_mac_of w, lease_tap = tap_name (Suc n),
           lease_cid = alloc_cidIdx a + 1\<rparr>)"
    using rep Alloc_inside [of a w] addr_next_at [of q]
    unfolding alloc_rep_def q_def by simp
  have "lease_ip (nth_lease p n) = w"
    and "\<lparr>lease_ip = w, lease_mac = lease_mac_of w, lease_tap = tap_name (Suc n),
           lease_cid = alloc_cidIdx a + 1\<rparr> = nth_lease p n"
    using rep tap by (simp_all add: nth_lease_def w_def q_def alloc_rep_def)
  with eq fresh show ?thesis
    using rep u n tap by (auto simp: alloc_rep_def q_def)
qed

lemma Alloc_failure:
  assumes rep: "alloc_rep p n a" and n: "subnet_size p - 2 \<le> n"
  shows "\<exists>a'. Alloc a = (a', Inl No_free_IPs) \<and> alloc_rep p (Suc n) a' \<and>
    alloc_in_use a' = alloc_in_use a"
proof -
  define q where "q = network p + 2 + n"
  have "\<not> prefix_contains p w" if "addr_at q = Some w" for w
  proof -
    from that have w: "q < 2 ^ 32" "w = word_of_nat q" by (simp_all add: addr_at_eq_Some)
    show ?thesis
      unfolding w(2) by (subst prefix_contains_at [OF w(1)]) (use n in \<open>simp add: q_def\<close>)
  qed
  with rep have "Alloc a = (a\<lparr>alloc_next := addr_next (addr_at q)\<rparr>, Inl No_free_IPs)"
    by (intro Alloc_outside) (simp_all add: alloc_rep_def q_def)
  then show ?thesis using rep n by (auto simp: alloc_rep_def q_def)
qed

lemma Alloc_ok_cases [consumes 1, case_names lease full]:
  assumes "alloc_ok a"
  obtains a' l where "Alloc a = (a', Inr l)" "alloc_ok a'" "lease_ip l \<notin> alloc_in_use a"
      "alloc_in_use a' = insert (lease_ip l) (alloc_in_use a)"
    | a' where "Alloc a = (a', Inl No_free_IPs)" "alloc_ok a'" "alloc_in_use a' = alloc_in_use a"
proof -
  from assms obtain p n where rep: "alloc_rep p n a" by (auto simp: alloc_ok_def)
  show thesis
  proof (cases "n < subnet_size p - 2")
    case True
    from Alloc_success [OF rep True] show thesis
      by (metis that(1) alloc_ok_def)
  next
    case False
    then have "subnet_size p - 2 \<le> n" by simp
    from Alloc_failure [OF rep this] show thesis
      by (metis that(2) alloc_ok_def)
  qed
qed

lemma alloc_run_rep:
  assumes "alloc_rep p n a"
  shows "\<exists>a'. alloc_run ops a = (a', map (nth_lease p) [n..<min (n + allocs ops) (subnet_size p - 2)])
    \<and> alloc_rep p (n + allocs ops) a'"
  using assms
proof (induction ops arbitrary: n a)
  case Nil
  then show ?case by (simp add: allocs_def)
next
  case (Cons op ops)
  show ?case
  proof (cases op)
    case (Do_release ip)
    with Cons.IH [OF Release_rep [OF Cons.prems]] show ?thesis by (simp add: allocs_def)
  next
    case Do_alloc
    show ?thesis
    proof (cases "n < subnet_size p - 2")
      case True
      from Alloc_success [OF Cons.prems True] obtain a' where
        a': "Alloc a = (a', Inr (nth_lease p n))" "alloc_rep p (Suc n) a'" by blast
      have "[n..<min (n + allocs (op # ops)) (subnet_size p - 2)] =
          n # [Suc n..<min (Suc n + allocs ops) (subnet_size p - 2)]"
        using True Do_alloc by (simp add: allocs_def upt_conv_Cons)
      with Cons.IH [OF a'(2)] a'(1) Do_alloc show ?thesis by (auto simp: allocs_def)
    next
      case False
      then have "subnet_size p - 2 \<le> n" by simp
      from Alloc_failure [OF Cons.prems this] obtain a' where
        a': "Alloc a = (a', Inl No_free_IPs)" "alloc_rep p (Suc n) a'" by blast
      with Cons.IH [OF a'(2)] Do_alloc False show ?thesis by (auto simp: allocs_def)
    qed
  qed
qed

lemma alloc_run_new:
  "\<exists>a'. alloc_run ops (new_from_prefix p) =
     (a', map (nth_lease p) [0..<min (allocs ops) (subnet_size p - 2)]) \<and> alloc_rep p (allocs ops) a'"
  using alloc_run_rep [OF new_from_prefix_rep] by simp

text \<open>The allocator keeps the contract that the session manager relies on.\<close>

interpretation netpool: address_pool Alloc Release alloc_in_use lease_ip alloc_ok
proof (unfold_locales, goal_cases)
  case (1 a a' l)
  from 1(1) show ?case by (cases rule: Alloc_ok_cases) (use 1 in auto)
next
  case (2 a a' l)
  from 2(1) show ?case by (cases rule: Alloc_ok_cases) (use 2 in auto)
next
  case (3 a a' e)
  from 3(1) show ?case by (cases rule: Alloc_ok_cases) (use 3 in auto)
next
  case (4 a)
  then show ?case by (cases rule: Alloc_ok_cases) auto
next
  case (5 ip a)
  then show ?case by (simp add: Release_def)
next
  case (6 a ip)
  then show ?case by (auto simp: alloc_ok_def intro: Release_rep)
qed

lemma new_from_prefix_ok: "alloc_ok (new_from_prefix p)"
  using new_from_prefix_rep alloc_ok_def by blast

lemma finite_in_use: "alloc_ok a \<Longrightarrow> finite (alloc_in_use a)"
  by (auto simp: alloc_ok_def alloc_rep_def)

text \<open>Distinct calls return distinct resources.\<close>

lemma nth_lease_pos:
  assumes "n < subnet_size p - 2"
  shows "unat (lease_ip (nth_lease p n)) = network p + 2 + n"
proof -
  from assms network_end_le [of p] have "network p + 2 + n < 2 ^ 32" by linarith
  then have "unat (word_of_nat (network p + 2 + n) :: ip4) = network p + 2 + n"
    by (rule unat_word_of_nat_32)
  then show ?thesis by (simp only: nth_lease_def lease.simps)
qed

lemma nth_lease_ip_inj:
  "m < subnet_size p - 2 \<Longrightarrow> n < subnet_size p - 2 \<Longrightarrow>
   lease_ip (nth_lease p m) = lease_ip (nth_lease p n) \<Longrightarrow> m = n"
  by (metis nth_lease_pos add_left_cancel)

lemma nth_lease_cid_inj:
  assumes "m < subnet_size p - 2" "n < subnet_size p - 2"
    and "lease_cid (nth_lease p m) = lease_cid (nth_lease p n)"
  shows "m = n"
proof -
  from assms(3) have "99 + (word_of_nat (Suc m) :: 32 word) = 99 + word_of_nat (Suc n)"
    by (simp only: nth_lease_def lease.simps)
  then have "(word_of_nat (Suc m) :: 32 word) = word_of_nat (Suc n)"
    by (rule add_left_imp_eq)
  moreover have "Suc m < 2 ^ 32" "Suc n < 2 ^ 32"
    using assms(1,2) network_end_le [of p] by linarith+
  ultimately show ?thesis by (metis Suc_inject unat_word_of_nat_32)
qed

lemma lease_mac_of_inject:
  assumes "lease_mac_of v = lease_mac_of w"
  shows "unat v mod 65536 = unat w mod 65536"
proof -
  define x y where "x = unat v" and "y = unat w"
  from assms have "hex_byte (x div 256 mod 256) = hex_byte (y div 256 mod 256)"
    and "hex_byte (x mod 256) = hex_byte (y mod 256)"
    unfolding lease_mac_of_def x_def y_def by (simp_all add: hex_byte_def)
  then have "x div 256 mod 256 = y div 256 mod 256" and "x mod 256 = y mod 256"
    by (auto dest: hex_byte_inject)
  then have "x mod (256 * 256) = y mod (256 * 256)"
    by (simp only: mod_mult2_eq)
  then show ?thesis by (simp add: x_def y_def)
qed

lemma nth_lease_mac_inj:
  assumes bits: "16 \<le> pfx_bits p" and "m < subnet_size p - 2" "n < subnet_size p - 2"
    and "lease_mac (nth_lease p m) = lease_mac (nth_lease p n)"
  shows "m = n"
proof -
  define u v where "u = unat (lease_ip (nth_lease p m))" and "v = unat (lease_ip (nth_lease p n))"
  have "lease_mac (nth_lease p i) = lease_mac_of (lease_ip (nth_lease p i))" for i
    by (simp only: nth_lease_def lease.simps)
  with assms(4) have low: "u mod 65536 = v mod 65536"
    using lease_mac_of_inject unfolding u_def v_def by metis
  have k: "subnet_size p dvd 65536"
  proof -
    have "(2::nat) ^ (32 - pfx_bits p) dvd 2 ^ 16" by (rule le_imp_power_dvd) (use bits in simp)
    then show ?thesis by (simp add: subnet_size_def)
  qed
  have "u mod subnet_size p = u mod 65536 mod subnet_size p"
    by (rule mod_mod_cancel [OF k, symmetric])
  also have "\<dots> = v mod 65536 mod subnet_size p" by (simp only: low)
  also have "\<dots> = v mod subnet_size p" by (rule mod_mod_cancel [OF k])
  finally have uv: "u mod subnet_size p = v mod subnet_size p" .
  have drop: "unat (lease_ip (nth_lease p i)) mod subnet_size p = (2 + i) mod subnet_size p"
    if "i < subnet_size p - 2" for i
  proof -
    obtain c where c: "network p = c * subnet_size p"
      using network_def subnet_size_def by metis
    have "unat (lease_ip (nth_lease p i)) = (2 + i) + c * subnet_size p"
      using nth_lease_pos [OF that] c by linarith
    then show ?thesis by (simp only: mod_mult_self1)
  qed
  have "(2 + m) mod subnet_size p = (2 + n) mod subnet_size p"
    using uv drop [OF assms(2)] drop [OF assms(3)] unfolding u_def v_def by argo
  moreover have "2 + m < subnet_size p" and "2 + n < subnet_size p"
    using assms(2,3) by linarith+
  ultimately have "2 + m = 2 + n" by (simp only: mod_less)
  then show ?thesis by simp
qed

section \<open>Text form of addresses\<close>

lemma Split_octets:
  assumes "\<forall>w \<in> set ws. c \<notin> set w" "ws \<noteq> []"
  shows "Split c (Join [c] ws) = ws"
  using assms
proof (induction ws)
  case Nil
  then show ?case by simp
next
  case (Cons w ws)
  then show ?case by (cases ws) (auto simp: Split_no_sep Split_append)
qed

lemma hd_show_nat_zero: "hd (show_nat n) = CHR ''0'' \<Longrightarrow> n = 0"
proof (induction n rule: show_nat.induct)
  case (1 n)
  show ?case
  proof (cases "n < 10")
    case True
    moreover have "digit_char 0 = CHR ''0''" by code_simp
    ultimately have "digit_char n = digit_char 0"
      using 1 by (simp add: show_nat.simps [of n])
    with True show ?thesis using digit_char_inject [of n 0] by simp
  next
    case False
    with 1 have "n div 10 = 0" by (simp add: show_nat.simps [of n])
    with False show ?thesis by simp
  qed
qed

lemma parse_octet_show: "n \<le> 255 \<Longrightarrow> parse_octet (show_nat n) = Some n"
proof -
  assume n: "n \<le> 255"
  have "length (show_nat n) = 1 \<or> hd (show_nat n) \<noteq> CHR ''0''"
    using hd_show_nat_zero [of n] by (cases "n = 0") (auto simp: show_nat.simps [of 0])
  with n show ?thesis by (simp add: parse_octet_def)
qed

lemma ip4_octets_small: "n \<in> set (ip4_octets w) \<Longrightarrow> n \<le> 255"
proof -
  assume n: "n \<in> set (ip4_octets w)"
  have "unat w < 2 ^ 32" using unsigned_less [of w, where 'a = nat] by simp
  then have "unat w div 16777216 < 256" by (simp add: less_mult_imp_div_less)
  with n show ?thesis by (auto simp: ip4_octets_def)
qed

lemma ip4_octets_value:
  "word_of_nat ((((unat w div 16777216) * 256 + unat w div 65536 mod 256) * 256
     + unat w div 256 mod 256) * 256 + unat w mod 256) = (w :: ip4)"
proof -
  have split: "n = (((n div 16777216) * 256 + n div 65536 mod 256) * 256 + n div 256 mod 256) * 256
      + n mod 256" for n :: nat
  proof -
    have "n = n div 256 * 256 + n mod 256" by simp
    also have "n div 256 = n div 256 div 256 * 256 + n div 256 mod 256" by simp
    also have "n div 256 div 256 = n div 256 div 256 div 256 * 256 + n div 256 div 256 mod 256" by simp
    finally show ?thesis by (simp only: div_mult2_eq [symmetric]) simp
  qed
  show ?thesis by (subst split [symmetric]) simp
qed

lemma parse_ipv4_string [simp]: "parse_ipv4 (ip4_string w) = Some w"
proof -
  have "Split (CHR ''.'') (ip4_string w) = map show_nat (ip4_octets w)"
    unfolding ip4_string_def
    by (rule Split_octets) (auto simp: ip4_octets_def dest: show_nat_digits digit_not)
  moreover have "map parse_octet (map show_nat (ip4_octets w)) = map Some (ip4_octets w)"
    using ip4_octets_small [of _ w] by (simp add: parse_octet_show)
  ultimately have "map parse_octet (Split (CHR ''.'') (ip4_string w)) = map Some (ip4_octets w)"
    by simp
  then show ?thesis
    unfolding parse_ipv4_def ip4_octets_def list.map
    by (simp only: list.case option.case ip4_octets_value)
qed

lemma parse_bits_show: "n \<le> max_bits \<Longrightarrow> n < 2 ^ 63 \<Longrightarrow> parse_bits max_bits (show_nat n) = Some n"
proof -
  assume n: "n \<le> max_bits" "n < 2 ^ 63"
  have "hd (show_nat n) \<noteq> CHR ''0'' \<or> length (show_nat n) = 1"
    using hd_show_nat_zero [of n] by (cases "n = 0") (auto simp: show_nat.simps [of 0])
  moreover have "Atoi (show_nat n) = Some (int n)"
    using ParseInt_FormatInt [of "int n"] n(2) by (simp add: FormatInt_def int64_range_def)
  ultimately show ?thesis using n hd_show_nat [of n] by (auto simp: parse_bits_def)
qed

lemma ParsePrefix_cidr_string:
  assumes "pfx_bits p \<le> 32"
  shows "ParsePrefix parse6 (cidr_string p) = Some (Prefix4 p)"
proof -
  let ?bits = "show_nat (pfx_bits p)" and ?addr = "ip4_string (pfx_addr p)"
  have no_slash: "CHR ''/'' \<notin> set ?bits" by (auto dest: show_nat_digits digit_not)
  have bits: "rev (takeWhile (\<lambda>c. c \<noteq> CHR ''/'') (rev (cidr_string p))) = ?bits"
    using no_slash by (simp add: cidr_string_def takeWhile_append)
  have addr: "take (length (cidr_string p) - length ?bits - 1) (cidr_string p) = ?addr"
    by (simp add: cidr_string_def)
  define head rest where "head = show_nat (unat (pfx_addr p) div 16777216)"
    and "rest = Join ''.'' (map show_nat (tl (ip4_octets (pfx_addr p))))"
  have cut: "?addr = head @ CHR ''.'' # rest"
    by (simp add: ip4_string_def ip4_octets_def head_def rest_def)
  have "is_digit c" if "c \<in> set head" for c
    using that by (simp add: head_def show_nat_digits)
  then have "find (\<lambda>c. c = CHR ''.'' \<or> c = CHR '':'' \<or> c = CHR ''%'') (head @ CHR ''.'' # rest) = Some (CHR ''.'')"
    by (induction head) (auto dest: digit_not)
  then have dot: "find (\<lambda>c. c = CHR ''.'' \<or> c = CHR '':'' \<or> c = CHR ''%'') ?addr = Some (CHR ''.'')"
    by (simp only: cut)
  have slash: "CHR ''/'' \<in> set (cidr_string p)" by (simp add: cidr_string_def)
  show ?thesis
    unfolding ParsePrefix_def Let_def bits addr dot
    using slash assms parse_bits_show [of "pfx_bits p" 32] by simp
qed

section \<open>Properties\<close>

lemma snd_alloc_run_new:
  "snd (alloc_run ops (new_from_prefix p)) =
   map (nth_lease p) [0..<min (allocs ops) (subnet_size p - 2)]"
  using alloc_run_new [of ops p] by auto

lemma distinct_map_leases:
  "(\<And>m n. m < subnet_size p - 2 \<Longrightarrow> n < subnet_size p - 2 \<Longrightarrow>
      f (nth_lease p m) = f (nth_lease p n) \<Longrightarrow> m = n) \<Longrightarrow>
   distinct (map f (snd (alloc_run ops (new_from_prefix p))))"
  unfolding snd_alloc_run_new by (auto simp: distinct_map inj_on_def)


text \<open>
  Over the whole life of an allocator no two leases share an IP address, a TAP name or
  a vsock CID, and none share a MAC address when the subnet is a /16 or smaller.
\<close>

theorem netalloc_leases_distinct:
  "distinct (map lease_ip (snd (alloc_run ops (new_from_prefix p)))) \<and>
   distinct (map lease_tap (snd (alloc_run ops (new_from_prefix p)))) \<and>
   distinct (map lease_cid (snd (alloc_run ops (new_from_prefix p)))) \<and>
   (16 \<le> pfx_bits p \<longrightarrow> distinct (map lease_mac (snd (alloc_run ops (new_from_prefix p)))))"
proof (intro conjI impI)
  show "distinct (map lease_ip (snd (alloc_run ops (new_from_prefix p))))"
    by (rule distinct_map_leases) (rule nth_lease_ip_inj)
  show "distinct (map lease_tap (snd (alloc_run ops (new_from_prefix p))))"
    by (rule distinct_map_leases) (simp add: nth_lease_def tap_name_def)
  show "distinct (map lease_cid (snd (alloc_run ops (new_from_prefix p))))"
    by (rule distinct_map_leases) (rule nth_lease_cid_inj)
  assume "16 \<le> pfx_bits p"
  then show "distinct (map lease_mac (snd (alloc_run ops (new_from_prefix p))))"
    by (intro distinct_map_leases) (rule nth_lease_mac_inj)
qed

theorem netalloc_leases_distinct_witness:
  "16 \<le> pfx_bits example_net \<and>
   distinct (map lease_mac (snd (alloc_run [Do_alloc, Do_alloc, Do_alloc] (new_from_prefix example_net))))"
proof -
  have "16 \<le> pfx_bits example_net" by (simp add: example_net_def)
  then show ?thesis
    using netalloc_leases_distinct [of "[Do_alloc, Do_alloc, Do_alloc]" example_net] by blast
qed

text \<open>
  Every address handed out lies in the configured subnet and is neither the network
  address nor the bridge address that \<open>HostAddr\<close> reports.
\<close>

theorem netalloc_lease_in_subnet:
  assumes "l \<in> set (snd (alloc_run ops (new_from_prefix p)))"
  shows "prefix_contains p (lease_ip l) \<and> lease_ip l \<noteq> prefix_masked p \<and>
    Some (lease_ip l) \<noteq> HostAddr (new_from_prefix p)"
proof -
  from assms obtain n where n: "n < subnet_size p - 2" and l: "l = nth_lease p n"
    by (auto simp: snd_alloc_run_new)
  define w where "w = lease_ip l"
  have pos: "unat w = network p + 2 + n" using nth_lease_pos [OF n] l by (simp only: w_def)
  have lt: "unat w < 2 ^ 32" using unsigned_less [of w, where 'a = nat] by simp
  have "prefix_contains p (word_of_nat (unat w))"
    by (subst prefix_contains_at [OF lt]) (use pos n in linarith)
  then have "prefix_contains p w" by simp
  moreover have "w \<noteq> prefix_masked p" using pos unat_prefix_masked [of p] by auto
  moreover have "Some w \<noteq> HostAddr (new_from_prefix p)"
  proof
    assume "Some w = HostAddr (new_from_prefix p)"
    then have "addr_at (network p + 1) = Some w"
      using new_from_prefix_rep [of p] by (simp add: HostAddr_def alloc_rep_def)
    then have "unat w = network p + 1" by (metis addr_at_eq_Some unat_word_of_nat_32)
    with pos show False by linarith
  qed
  ultimately show ?thesis by (simp add: w_def)
qed

theorem netalloc_lease_in_subnet_witness:
  "nth_lease example_net 0 \<in> set (snd (alloc_run [Do_alloc] (new_from_prefix example_net))) \<and>
   prefix_contains example_net (lease_ip (nth_lease example_net 0))"
proof -
  have "nth_lease example_net 0 \<in> set (snd (alloc_run [Do_alloc] (new_from_prefix example_net)))"
    unfolding snd_alloc_run_new by (simp add: allocs_def subnet_size_def example_net_def)
  then show ?thesis using netalloc_lease_in_subnet by blast
qed

text \<open>
  Releasing an address does not make it available again. Once (subnet size - 2) calls
  of \<open>Alloc\<close> have been made, every further call fails, even when every lease has been
  released and nothing is in use.
\<close>

theorem netalloc_released_not_reused:
  assumes "subnet_size p - 2 \<le> allocs ops"
    and "alloc_run ops (new_from_prefix p) = (a, ls)"
  shows "snd (Alloc a) = Inl No_free_IPs"
proof -
  from alloc_run_new [of ops p] assms(2) have "alloc_rep p (allocs ops) a" by auto
  from Alloc_failure [OF this assms(1)] show ?thesis by auto
qed

theorem netalloc_released_not_reused_witness:
  "\<exists>a ls. alloc_run [Do_alloc, Do_alloc, Do_release 0xAC140002, Do_release 0xAC140003]
      (new_from_prefix tiny_net) = (a, ls) \<and> length ls = 2 \<and> snd (Alloc a) = Inl No_free_IPs"
proof -
  let ?ops = "[Do_alloc, Do_alloc, Do_release 0xAC140002, Do_release 0xAC140003]"
  obtain a ls where run: "alloc_run ?ops (new_from_prefix tiny_net) = (a, ls)"
    by (metis surj_pair)
  have enough: "subnet_size tiny_net - 2 \<le> allocs ?ops"
    by (simp add: allocs_def subnet_size_def tiny_net_def)
  have "length ls = 2"
    using snd_alloc_run_new [of ?ops tiny_net] run
    by (simp add: allocs_def subnet_size_def tiny_net_def del: alloc_run.simps)
  then show ?thesis using run netalloc_released_not_reused [OF enough run] by blast
qed

text \<open>
  \<open>netalloc.New\<close> accepts the text of every IPv4 prefix and starts from exactly that
  prefix, with the first address of the subnet reserved for the bridge.
\<close>

theorem netalloc_New_roundtrip:
  assumes "pfx_bits p \<le> 32"
  shows "netalloc_New parse6 (cidr_string p) = Inr (new_from_prefix p)"
  using ParsePrefix_cidr_string [OF assms] by (simp add: netalloc_New_def)

theorem netalloc_New_roundtrip_witness:
  "pfx_bits example_net \<le> 32 \<and>
   netalloc_New (\<lambda>_. None) (cidr_string example_net) = Inr (new_from_prefix example_net)"
  using netalloc_New_roundtrip [of example_net "\<lambda>_. None"] by (simp add: example_net_def)

end
