(* ===== verification/Streaming.thy ===== *)
theory Streaming
  imports Json
begin

text \<open>
  The response streaming of \<open>proxy/internal/server/stream.go\<close>: forwarding of the upstream
  body line by line (\<open>streamSSE\<close>) or chunk by chunk (\<open>streamJSON\<close>), the capped capture
  buffers, and the extraction of token usage (\<open>parseUsage\<close>, \<open>mergeUsage\<close>, \<open>max64\<close>) and its
  cost. A body is the sequence of chunks its reads return and the error that ends it
  (\<open>None\<close> for the end of file); the client side is a writer that accepts all bytes or
  breaks after a given number of them.
\<close>

record usage_pair =
  u_request :: int
  u_response :: int

definition zero_usage :: usage_pair where
  "zero_usage = \<lparr>u_request = 0, u_response = 0\<rparr>"

record body_reader =
  br_chunks :: "string list"
  br_err :: "string option"

definition br_bytes :: "body_reader \<Rightarrow> string" where
  "br_bytes b = concat (br_chunks b)"

text \<open>
  The client's \<open>http.ResponseWriter\<close>: the bytes written so far, how many of them were
  flushed, whether it is an \<open>http.Flusher\<close>, and the number of bytes the connection
  still takes (\<open>None\<close>: no limit).
\<close>

record client_writer =
  cw_out :: string
  cw_flushed :: nat
  cw_flusher :: bool
  cw_left :: "nat option"

definition cw_write :: "string \<Rightarrow> client_writer \<Rightarrow> client_writer \<times> bool" where
  "cw_write p w =
     (case cw_left w of
        None \<Rightarrow> (w\<lparr>cw_out := cw_out w @ p\<rparr>, True)
      | Some n \<Rightarrow>
          if length p \<le> n then (w\<lparr>cw_out := cw_out w @ p, cw_left := Some (n - length p)\<rparr>, True)
          else (w\<lparr>cw_out := cw_out w @ take n p, cw_left := Some 0\<rparr>, False))"

definition flush :: "client_writer \<Rightarrow> client_writer" where
  "flush w = (if cw_flusher w then w\<lparr>cw_flushed := length (cw_out w)\<rparr> else w)"

datatype stream_error = Client_write | Upstream_read string

section \<open>Usage\<close>

definition max64 :: "int list \<Rightarrow> int" where
  "max64 xs = foldl (\<lambda>m x. if x > m then x else m) 0 xs"

definition mergeUsage :: "usage_pair \<Rightarrow> usage_pair \<Rightarrow> usage_pair" where
  "mergeUsage a b =
     \<lparr>u_request = (if u_request b > u_request a then u_request b else u_request a),
      u_response = (if u_response b > u_response a then u_response b else u_response a)\<rparr>"

text \<open>The anonymous struct of \<open>parseUsage\<close>: three usage objects, one inside each wrapper.\<close>

record usage_outer =
  o_usage :: usage_pair
  o_message :: usage_pair
  o_delta :: usage_pair

definition zero_outer :: usage_outer where
  "zero_outer = \<lparr>o_usage = zero_usage, o_message = zero_usage, o_delta = zero_usage\<rparr>"

definition dec_usage :: "usage_pair decoder" where
  "dec_usage = dec_struct (\<lambda>f v u.
     if f = fold_name ''input_tokens'' then
       (case dec_int64 v (u_request u) of (i, ok) \<Rightarrow> (u\<lparr>u_request := i\<rparr>, ok))
     else if f = fold_name ''output_tokens'' then
       (case dec_int64 v (u_response u) of (i, ok) \<Rightarrow> (u\<lparr>u_response := i\<rparr>, ok))
     else (u, True))"

definition dec_wrapped :: "usage_pair decoder" where
  "dec_wrapped = dec_struct (\<lambda>f v u. if f = fold_name ''usage'' then dec_usage v u else (u, True))"

definition dec_outer :: "usage_outer decoder" where
  "dec_outer = dec_struct (\<lambda>f v x.
     if f = fold_name ''usage'' then (case dec_usage v (o_usage x) of (u, ok) \<Rightarrow> (x\<lparr>o_usage := u\<rparr>, ok))
     else if f = fold_name ''message'' then
       (case dec_wrapped v (o_message x) of (u, ok) \<Rightarrow> (x\<lparr>o_message := u\<rparr>, ok))
     else if f = fold_name ''delta'' then
       (case dec_wrapped v (o_delta x) of (u, ok) \<Rightarrow> (x\<lparr>o_delta := u\<rparr>, ok))
     else (x, True))"

definition parseUsage :: "string \<Rightarrow> usage_pair" where
  "parseUsage b0 =
     (let b = TrimSpace b0
      in if b = [] \<or> hd b \<noteq> CHR ''{'' then zero_usage
         else case unmarshal_into dec_outer zero_outer b of
                None \<Rightarrow> zero_usage
              | Some x \<Rightarrow>
                  \<lparr>u_request = max64 [u_request (o_usage x), u_request (o_message x), u_request (o_delta x)],
                   u_response = max64 [u_response (o_usage x), u_response (o_message x), u_response (o_delta x)]\<rparr>)"

text \<open>Prices in micro-dollars per token; the products and the sum wrap at 64 bits.\<close>

definition estimateCostMicros :: "usage_pair \<Rightarrow> int" where
  "estimateCostMicros u = wrap64 (wrap64 (u_request u * 3) + wrap64 (u_response u * 15))"

section \<open>streamSSE\<close>

definition captureCap :: nat where
  "captureCap = 32 * 1024"

text \<open>\<open>r.ReadBytes('\n')\<close>: the line with its newline, the rest, and whether the body ended first.\<close>

definition ReadBytes :: "string \<Rightarrow> string \<times> string \<times> bool" where
  "ReadBytes s =
     (if CHR 0x0A \<in> set s
      then (takeWhile (\<lambda>c. c \<noteq> CHR 0x0A) s @ [CHR 0x0A], tl (dropWhile (\<lambda>c. c \<noteq> CHR 0x0A) s), False)
      else (s, [], True))"

definition capture :: "string \<Rightarrow> string \<Rightarrow> string" where
  "capture line captured =
     (if length captured < captureCap then
        (let remain = captureCap - length captured
         in if length line < remain then captured @ line else captured @ take remain line)
      else captured)"

definition line_usage :: "string \<Rightarrow> usage_pair \<Rightarrow> usage_pair" where
  "line_usage line usage =
     (if HasPrefix line ''data:'' then mergeUsage usage (parseUsage (TrimSpace (drop 5 line))) else usage)"

function sse_loop ::
  "string \<Rightarrow> string option \<Rightarrow> client_writer \<Rightarrow> usage_pair \<Rightarrow> string
   \<Rightarrow> client_writer \<times> usage_pair \<times> string \<times> stream_error option" where
  "sse_loop s rerr w usage captured =
     (case ReadBytes s of
        (line, rest, ended) \<Rightarrow>
          (let captured1 = (if line \<noteq> [] then capture line captured else captured);
               (w1, wok) = (if line \<noteq> [] then cw_write line w else (w, True))
           in if \<not> wok then (w1, usage, captured1, Some Client_write)
              else
                (let w2 = (if line = [CHR 0x0A] then flush w1 else w1);
                     usage1 = (if line \<noteq> [] then line_usage line usage else usage)
                 in if ended then
                      (case rerr of
                         None \<Rightarrow> (flush w2, usage1, captured1, None)
                       | Some e \<Rightarrow> (w2, usage1, captured1, Some (Upstream_read e)))
                    else sse_loop rest rerr w2 usage1 captured1)))"
  by pat_completeness auto

lemma ReadBytes_rest: "ReadBytes s = (line, rest, False) \<Longrightarrow> length rest < length s"
proof -
  assume *: "ReadBytes s = (line, rest, False)"
  then have "CHR 0x0A \<in> set s" and rest: "rest = tl (dropWhile (\<lambda>c. c \<noteq> CHR 0x0A) s)"
    by (simp_all add: ReadBytes_def split: if_splits)
  then have "dropWhile (\<lambda>c. c \<noteq> CHR 0x0A) s \<noteq> []"
    by auto
  then show ?thesis
    using length_dropWhile_le [of "\<lambda>c. c \<noteq> CHR 0x0A" s] rest
    by (cases "dropWhile (\<lambda>c. c \<noteq> CHR 0x0A) s") simp_all
qed

termination sse_loop
  by (relation "measure (\<lambda>(s, _). length s)") (simp_all, metis ReadBytes_rest)

declare sse_loop.simps [simp del]

definition streamSSE :: "body_reader \<Rightarrow> client_writer \<Rightarrow> client_writer \<times> usage_pair \<times> string \<times> stream_error option" where
  "streamSSE b w = sse_loop (br_bytes b) (br_err b) w zero_usage []"

section \<open>streamJSON\<close>

text \<open>\<open>limitedWriter.Write\<close> on its buffer and the number \<open>N\<close> of bytes it still takes.\<close>

definition limited_write :: "string \<Rightarrow> string \<times> nat \<Rightarrow> string \<times> nat" where
  "limited_write p = (\<lambda>(buf, n).
     if n = 0 then (buf, n)
     else if length p > n then (buf @ take n p, 0)
     else (buf @ p, n - length p))"

definition json_cap :: nat where
  "json_cap = 2 ^ 20"

text \<open>\<open>io.Copy(w, io.TeeReader(body, limitedWriter))\<close>: each chunk goes to the buffer, then to the client.\<close>

fun copy_tee ::
  "string list \<Rightarrow> string option \<Rightarrow> client_writer \<Rightarrow> string \<times> nat \<Rightarrow> client_writer \<times> (string \<times> nat) \<times> stream_error option" where
  "copy_tee [] rerr w lw = (w, lw, map_option Upstream_read rerr)"
| "copy_tee (c # cs) rerr w lw =
     (case cw_write c w of
        (w', False) \<Rightarrow> (w', limited_write c lw, Some Client_write)
      | (w', True) \<Rightarrow> copy_tee cs rerr w' (limited_write c lw))"

definition streamJSON :: "body_reader \<Rightarrow> client_writer \<Rightarrow> client_writer \<times> usage_pair \<times> string \<times> stream_error option" where
  "streamJSON b w =
     (case copy_tee (br_chunks b) (br_err b) w ([], json_cap) of
        (w', (buf, _), Some e) \<Rightarrow> (flush w', zero_usage, buf, Some e)
      | (w', (buf, _), None) \<Rightarrow> (flush w', parseUsage buf, buf, None))"

definition streamBody :: "bool \<Rightarrow> body_reader \<Rightarrow> client_writer \<Rightarrow> client_writer \<times> usage_pair \<times> string \<times> stream_error option" where
  "streamBody isSSE b w = (if isSSE then streamSSE b w else streamJSON b w)"

section \<open>What is expected of them\<close>

text \<open>The lines of a body, each with its newline; only the last one may lack it.\<close>

fun body_lines :: "string \<Rightarrow> string list" where
  "body_lines [] = []"
| "body_lines (c # cs) =
     (if c = CHR 0x0A then [c] # body_lines cs
      else case body_lines cs of [] \<Rightarrow> [[c]] | l # ls \<Rightarrow> (c # l) # ls)"

definition max_usage :: "usage_pair list \<Rightarrow> usage_pair" where
  "max_usage us = \<lparr>u_request = Max (insert 0 (u_request ` set us)), u_response = Max (insert 0 (u_response ` set us))\<rparr>"

text \<open>The usage a line announces, if it is a \<open>data:\<close> line.\<close>

definition announced :: "string \<Rightarrow> usage_pair" where
  "announced line = (if HasPrefix line ''data:'' then parseUsage (TrimSpace (drop 5 line)) else zero_usage)"

definition usage_json :: "int \<Rightarrow> int \<Rightarrow> json" where
  "usage_json i j = JObj [(''input_tokens'', JNum (FormatInt i)), (''output_tokens'', JNum (FormatInt j))]"

text \<open>The payloads that carry usage: a plain response, \<open>message_start\<close> and \<open>message_delta\<close> frames.\<close>

datatype payload = Plain | Message_start | Delta

fun payload_json :: "payload \<Rightarrow> int \<Rightarrow> int \<Rightarrow> json" where
  "payload_json Plain i j = JObj [(''type'', JStr ''message''), (''usage'', usage_json i j)]"
| "payload_json Message_start i j =
     JObj [(''type'', JStr ''message_start''), (''message'', JObj [(''id'', JStr ''m''), (''usage'', usage_json i j)])]"
| "payload_json Delta i j =
     JObj [(''type'', JStr ''message_delta''), (''delta'', JObj [(''usage'', usage_json i j)])]"

definition sse_frame :: "payload \<times> int \<times> int \<Rightarrow> string" where
  "sse_frame = (\<lambda>(k, i, j). ''data: '' @ print_json (payload_json k i j) @ [CHR 0x0A, CHR 0x0A])"

text \<open>What the client gets of a text, by the bytes it still takes.\<close>

definition cw_take :: "client_writer \<Rightarrow> string \<Rightarrow> string" where
  "cw_take w s = (case cw_left w of None \<Rightarrow> s | Some n \<Rightarrow> take n s)"

definition cw_room :: "client_writer \<Rightarrow> string \<Rightarrow> bool" where
  "cw_room w s \<longleftrightarrow> (case cw_left w of None \<Rightarrow> True | Some n \<Rightarrow> length s \<le> n)"

text \<open>The step of the loop on a non-empty line.\<close>

definition after_line :: "string \<Rightarrow> client_writer \<Rightarrow> client_writer" where
  "after_line line w = (if line = [CHR 0x0A] then flush (fst (cw_write line w)) else fst (cw_write line w))"

definition token_count :: "int \<Rightarrow> bool" where
  "token_count i \<longleftrightarrow> 0 \<le> i \<and> int64_range i"

section \<open>Lemmas\<close>

lemma body_lines_noline: "CHR 0x0A \<notin> set s \<Longrightarrow> body_lines s = (if s = [] then [] else [s])"
  by (induction s) auto

lemma body_lines_line: "CHR 0x0A \<notin> set l \<Longrightarrow> body_lines (l @ CHR 0x0A # r) = (l @ [CHR 0x0A]) # body_lines r"
  by (induction l) auto

lemma body_lines_concat: "concat (body_lines s) = s"
  by (induction s) (auto split: list.splits)

lemma line_induct [case_names last line]:
  assumes "\<And>s. CHR 0x0A \<notin> set s \<Longrightarrow> P s"
    and "\<And>l rest. CHR 0x0A \<notin> set l \<Longrightarrow> P rest \<Longrightarrow> P (l @ CHR 0x0A # rest)"
  shows "P s"
proof (induction s rule: length_induct)
  case (1 s)
  show ?case
  proof (cases "CHR 0x0A \<in> set s")
    case True
    then obtain l rest where "s = l @ CHR 0x0A # rest" "CHR 0x0A \<notin> set l"
      by (meson split_list_first)
    then show ?thesis
      using assms(2) 1 by simp
  qed (rule assms(1))
qed

lemma cw_write_cases:
  assumes "cw_write p w = (w', ok)"
  shows "cw_out w' = cw_out w @ cw_take w p" "ok \<longleftrightarrow> cw_room w p"
    "ok \<Longrightarrow> cw_take w (p @ q) = p @ cw_take w' q" "ok \<Longrightarrow> cw_room w (p @ q) \<longleftrightarrow> cw_room w' q"
    "\<not> ok \<Longrightarrow> cw_take w (p @ q) = cw_take w p" "cw_flusher w' = cw_flusher w"
    "ok \<Longrightarrow> cw_take w p = p" "\<not> ok \<Longrightarrow> \<not> cw_room w (p @ q)"
  using assms by (auto simp: cw_write_def cw_take_def cw_room_def split: option.splits if_splits)

lemma flush_simps [simp]:
  "cw_out (flush w) = cw_out w" "cw_left (flush w) = cw_left w" "cw_take (flush w) s = cw_take w s"
  "cw_room (flush w) s = cw_room w s" "cw_flusher (flush w) = cw_flusher w"
  by (simp_all add: flush_def cw_take_def cw_room_def)

lemma cw_nil [simp]: "cw_take w [] = []" "cw_room w []"
  by (simp_all add: cw_take_def cw_room_def split: option.split)

lemma take_take_append: "take n (take n a @ b) = take n (a @ b)"
  by (simp add: min_def)

lemma capture_take:
  assumes "length captured \<le> captureCap"
  shows "capture line captured = take captureCap (captured @ line)"
  using assms by (auto simp: capture_def Let_def)

lemma sse_loop_end:
  assumes "CHR 0x0A \<notin> set s"
  shows "sse_loop s rerr w u cap =
    (if s = [] then
       (case rerr of None \<Rightarrow> (flush w, u, cap, None) | Some e \<Rightarrow> (w, u, cap, Some (Upstream_read e)))
     else if \<not> cw_room w s then (fst (cw_write s w), u, capture s cap, Some Client_write)
     else (case rerr of
             None \<Rightarrow> (flush (fst (cw_write s w)), line_usage s u, capture s cap, None)
           | Some e \<Rightarrow> (fst (cw_write s w), line_usage s u, capture s cap, Some (Upstream_read e))))"
proof -
  obtain w' ok where w: "cw_write s w = (w', ok)"
    by (cases "cw_write s w")
  have "s \<noteq> [CHR 0x0A]"
    using assms by auto
  then show ?thesis
    using assms cw_write_cases(2) [OF w] w
    by (subst sse_loop.simps) (auto simp: ReadBytes_def Let_def split: option.split)
qed

lemma sse_loop_line:
  assumes "CHR 0x0A \<notin> set l"
  shows "sse_loop (l @ CHR 0x0A # rest) rerr w u cap =
    (if \<not> cw_room w (l @ [CHR 0x0A])
     then (fst (cw_write (l @ [CHR 0x0A]) w), u, capture (l @ [CHR 0x0A]) cap, Some Client_write)
     else sse_loop rest rerr (after_line (l @ [CHR 0x0A]) w) (line_usage (l @ [CHR 0x0A]) u)
            (capture (l @ [CHR 0x0A]) cap))"
proof -
  let ?line = "l @ [CHR 0x0A]"
  obtain w' ok where w: "cw_write ?line w = (w', ok)"
    by (cases "cw_write ?line w")
  have t: "takeWhile (\<lambda>c. c \<noteq> CHR 0x0A) (l @ CHR 0x0A # rest) = l"
    "dropWhile (\<lambda>c. c \<noteq> CHR 0x0A) (l @ CHR 0x0A # rest) = CHR 0x0A # rest"
    using assms by (simp_all add: takeWhile_append dropWhile_append)
  have r: "ReadBytes (l @ CHR 0x0A # rest) = (?line, rest, False)"
    by (simp add: ReadBytes_def t)
  show ?thesis
    using cw_write_cases(2) [OF w] w
    by (subst sse_loop.simps) (auto simp: r Let_def after_line_def)
qed

lemma after_line_simps:
  assumes "cw_room w line"
  shows "cw_out (after_line line w) = cw_out w @ line"
    "cw_take w (line @ s) = line @ cw_take (after_line line w) s"
    "cw_room w (line @ s) \<longleftrightarrow> cw_room (after_line line w) s"
    "cw_flusher (after_line line w) = cw_flusher w"
proof -
  obtain w' ok where w: "cw_write line w = (w', ok)"
    by (cases "cw_write line w")
  then have ok
    using cw_write_cases(2) [OF w] assms by simp
  moreover have "after_line line w = flush w' \<or> after_line line w = w'"
    using w by (auto simp: after_line_def)
  ultimately show "cw_out (after_line line w) = cw_out w @ line"
    "cw_take w (line @ s) = line @ cw_take (after_line line w) s"
    "cw_room w (line @ s) \<longleftrightarrow> cw_room (after_line line w) s"
    "cw_flusher (after_line line w) = cw_flusher w"
    using cw_write_cases [OF w] by auto
qed

lemma cw_write_out: "cw_out (fst (cw_write s w)) = cw_out w @ cw_take w s"
  by (cases "cw_write s w") (simp add: cw_write_cases(1))

lemma cw_write_full: "\<not> cw_room w p \<Longrightarrow> cw_take w (p @ q) = cw_take w p" "\<not> cw_room w p \<Longrightarrow> \<not> cw_room w (p @ q)"
  by (auto simp: cw_take_def cw_room_def split: option.splits)

lemma sse_loop_out: "cw_out (fst (sse_loop s rerr w u cap)) = cw_out w @ cw_take w s"
proof (induction s arbitrary: w u cap rule: line_induct)
  case (last s)
  then show ?case
    by (simp add: sse_loop_end cw_write_out split: option.split)
next
  case (line l rest)
  have s: "l @ CHR 0x0A # rest = (l @ [CHR 0x0A]) @ rest"
    by simp
  show ?case
    unfolding sse_loop_line [OF line(1)]
    by (simp add: line(2) cw_write_out cw_write_full after_line_simps s del: append.assoc append_assoc)
qed

lemma sse_loop_err:
  "snd (snd (snd (sse_loop s rerr w u cap))) =
     (if cw_room w s then map_option Upstream_read rerr else Some Client_write)"
proof (induction s arbitrary: w u cap rule: line_induct)
  case (last s)
  then show ?case
    by (simp add: sse_loop_end split: option.split)
next
  case (line l rest)
  have s: "l @ CHR 0x0A # rest = (l @ [CHR 0x0A]) @ rest"
    by simp
  show ?case
    unfolding sse_loop_line [OF line(1)]
    by (simp add: line(2) cw_write_full after_line_simps s del: append.assoc append_assoc)
qed

lemma sse_loop_sniff:
  assumes "cw_room w s" "length cap \<le> captureCap"
  shows "fst (snd (sse_loop s rerr w u cap)) = foldl (\<lambda>u l. line_usage l u) u (body_lines s)
       \<and> fst (snd (snd (sse_loop s rerr w u cap))) = take captureCap (cap @ s)"
  using assms
proof (induction s arbitrary: w u cap rule: line_induct)
  case (last s)
  then show ?case
    by (simp add: sse_loop_end body_lines_noline capture_take split: option.split)
next
  case (line l rest)
  have s: "l @ CHR 0x0A # rest = (l @ [CHR 0x0A]) @ rest"
    by simp
  have room: "cw_room w (l @ [CHR 0x0A])" "cw_room (after_line (l @ [CHR 0x0A]) w) rest"
    using line.prems(1) cw_write_full(2) [of w "l @ [CHR 0x0A]" rest] after_line_simps(3) [of w "l @ [CHR 0x0A]" rest]
    unfolding s by blast+
  have c: "capture (l @ [CHR 0x0A]) cap = take captureCap (cap @ l @ [CHR 0x0A])"
    using line.prems(2) by (rule capture_take)
  have "take captureCap (take captureCap (cap @ l @ [CHR 0x0A]) @ rest) = take captureCap (cap @ l @ CHR 0x0A # rest)"
    using take_take_append [of captureCap "cap @ l @ [CHR 0x0A]" rest] by (simp only: append.assoc append_Cons append_Nil)
  then show ?case
    unfolding sse_loop_line [OF line(1)]
    using room line.IH [OF room(2), of "capture (l @ [CHR 0x0A]) cap"] line.hyps
    by (simp add: c body_lines_line)
qed

lemma sse_loop_flushed:
  assumes "cw_room w s" "cw_flusher w"
  shows "cw_flushed (fst (sse_loop s None w u cap)) = length (cw_out (fst (sse_loop s None w u cap)))"
  using assms
proof (induction s arbitrary: w u cap rule: line_induct)
  case (last s)
  have "cw_flusher (fst (cw_write s w))"
    using last.prems(2) by (cases "cw_write s w") (simp add: cw_write_cases(6))
  then show ?case
    using last by (simp add: sse_loop_end flush_def)
next
  case (line l rest)
  have s: "l @ CHR 0x0A # rest = (l @ [CHR 0x0A]) @ rest"
    by simp
  have room: "cw_room w (l @ [CHR 0x0A])"
    using line.prems(1) cw_write_full(2) [of w "l @ [CHR 0x0A]" rest] unfolding s by blast
  then have "cw_room (after_line (l @ [CHR 0x0A]) w) rest"
    using line.prems(1) after_line_simps(3) [OF room] unfolding s by blast
  then show ?case
    using room line.IH line.prems(2) after_line_simps(4) [OF room] by (simp add: sse_loop_line [OF line(1)])
qed

lemma copy_tee_out:
  "cw_out (fst (copy_tee cs rerr w lw)) = cw_out w @ cw_take w (concat cs)
   \<and> snd (snd (copy_tee cs rerr w lw)) =
       (if cw_room w (concat cs) then map_option Upstream_read rerr else Some Client_write)"
proof (induction cs arbitrary: w lw)
  case (Cons c cs)
  obtain w' ok where w: "cw_write c w = (w', ok)"
    by (cases "cw_write c w")
  show ?case
    using Cons cw_write_cases [OF w] w by (cases ok) simp_all
qed simp

lemma copy_tee_captured:
  "cw_room w (concat cs) \<Longrightarrow>
   fst (snd (copy_tee cs rerr w (buf, n))) = (buf @ take n (concat cs), n - length (concat cs))"
proof (induction cs arbitrary: w buf n)
  case (Cons c cs)
  obtain w' ok where w: "cw_write c w = (w', ok)"
    by (cases "cw_write c w")
  have ok: ok
    using Cons.prems cw_write_cases(2,8) [OF w] by auto
  moreover have "cw_room w' (concat cs)"
    using ok Cons.prems cw_write_cases(4) [OF w ok] by simp
  ultimately show ?case
    using Cons.IH [of w'] w by (auto simp: limited_write_def)
qed simp

section \<open>Usage\<close>

lemma max64_max: "max64 xs = Max (insert 0 (set xs))"
proof -
  have "foldl (\<lambda>m x. if x > m then x else m) m xs = Max (insert m (set xs))" for m :: int
  proof (induction xs arbitrary: m)
    case (Cons x xs)
    have "insert m (set (x # xs)) = insert m (insert x (set xs))"
      by simp
    moreover have "Max (insert m (insert x (set xs))) = max m (Max (insert x (set xs)))"
      by (rule Max_insert) simp_all
    moreover have "Max (insert (max m x) (set xs)) = max m (Max (insert x (set xs)))"
      by (cases "xs = []") (simp_all add: max.assoc)
    ultimately show ?case
      using Cons.IH [of "max m x"] by (simp add: max_def split: if_splits)
  qed simp
  then show ?thesis
    by (simp add: max64_def)
qed

lemma max64_nonneg: "0 \<le> max64 xs"
  by (simp add: max64_max)

lemma parseUsage_nonneg: "0 \<le> u_request (parseUsage b)" "0 \<le> u_response (parseUsage b)"
  by (auto simp: parseUsage_def Let_def zero_usage_def max64_nonneg split: option.split)

lemma mergeUsage_max:
  "mergeUsage a b = \<lparr>u_request = max (u_request a) (u_request b), u_response = max (u_response a) (u_response b)\<rparr>"
  by (simp add: mergeUsage_def max_def)

lemma max_usage_snoc: "max_usage (us @ [x]) = mergeUsage (max_usage us) x"
proof -
  have "Max (insert 0 (insert (f x) (f ` set us))) = max (Max (insert 0 (f ` set us))) (f x)"
    for f :: "usage_pair \<Rightarrow> int"
    by (subst insert_commute, subst Max_insert) (simp_all add: max.commute)
  then show ?thesis
    by (simp add: max_usage_def mergeUsage_max)
qed

lemma line_usage_announced:
  assumes "0 \<le> u_request u" "0 \<le> u_response u"
  shows "line_usage l u = mergeUsage u (announced l)"
  using assms by (simp add: line_usage_def announced_def mergeUsage_max zero_usage_def max_def)

lemma fold_line_usage: "foldl (\<lambda>u l. line_usage l u) zero_usage ls = max_usage (map announced ls)"
proof (induction ls rule: rev_induct)
  case Nil
  then show ?case
    by (simp add: max_usage_def zero_usage_def)
next
  case (snoc l ls)
  have "0 \<le> u_request (max_usage us)" "0 \<le> u_response (max_usage us)" for us
    by (simp_all add: max_usage_def)
  then show ?case
    using snoc by (simp add: max_usage_snoc line_usage_announced)
qed

lemma fold_name_usage [simp]:
  "fold_name ''usage'' = ''USAGE''" "fold_name ''message'' = ''MESSAGE''" "fold_name ''delta'' = ''DELTA''"
  "fold_name ''input_tokens'' = ''INPUT_TOKENS''" "fold_name ''output_tokens'' = ''OUTPUT_TOKENS''"
  "fold_name ''type'' = ''TYPE''" "fold_name ''id'' = ''ID''"
  by code_simp+

lemma dec_usage_json [simp]:
  "token_count i \<Longrightarrow> token_count j \<Longrightarrow>
     dec_usage (usage_json i j) zero_usage = (\<lparr>u_request = i, u_response = j\<rparr>, True)"
  by (simp add: dec_usage_def dec_struct_def usage_json_def dec_int64_def token_count_def zero_usage_def)

lemma payload_readable:
  assumes "token_count i" "token_count j"
  shows "int_json (payload_json k i j)" "depth (payload_json k i j) \<le> max_nesting"
proof -
  have a: "ascii ''usage''" "ascii ''message''" "ascii ''delta''" "ascii ''input_tokens''" "ascii ''output_tokens''"
    "ascii ''type''" "ascii ''id''" "ascii ''m''" "ascii ''message_start''" "ascii ''message_delta''"
    by code_simp+
  show "int_json (payload_json k i j)"
    using assms a by (cases k) (simp_all add: usage_json_def token_count_def)
  show "depth (payload_json k i j) \<le> max_nesting"
    by (cases k) (simp_all add: usage_json_def max_nesting_def)
qed

lemma payload_ends:
  "print_json (payload_json k i j) \<noteq> []" "hd (print_json (payload_json k i j)) = CHR ''{''"
  "last (print_json (payload_json k i j)) = CHR ''}''"
  by (cases k; simp)+

lemma plain_braces: "plain_char CHR ''{''" "plain_char CHR ''}''"
  by (simp_all add: plain_char_def)

lemma parseUsage_payload:
  assumes "token_count i" "token_count j" "set a \<subseteq> set ascii_spaces" "set b \<subseteq> set ascii_spaces"
  shows "parseUsage (a @ print_json (payload_json k i j) @ b) = \<lparr>u_request = i, u_response = j\<rparr>"
proof -
  have t: "TrimSpace (a @ print_json (payload_json k i j) @ b) = print_json (payload_json k i j)"
    using assms(3,4) by (rule TrimSpace_padded) (simp_all add: payload_ends plain_braces)
  have u: "unmarshal_into dec_outer zero_outer (print_json (payload_json k i j)) =
      Some (case k of
              Plain \<Rightarrow> zero_outer\<lparr>o_usage := \<lparr>u_request = i, u_response = j\<rparr>\<rparr>
            | Message_start \<Rightarrow> zero_outer\<lparr>o_message := \<lparr>u_request = i, u_response = j\<rparr>\<rparr>
            | Delta \<Rightarrow> zero_outer\<lparr>o_delta := \<lparr>u_request = i, u_response = j\<rparr>\<rparr>)"
    using assms(1,2) json_unmarshal_print [OF payload_readable [OF assms(1,2), of k]]
    by (cases k)
      (simp_all add: unmarshal_into_def dec_outer_def dec_wrapped_def dec_struct_def zero_outer_def
        del: print_json.simps)
  show ?thesis
    unfolding parseUsage_def Let_def t u using assms(1,2)
    by (cases k) (simp_all add: zero_outer_def zero_usage_def max64_def token_count_def)
qed

lemma newline_not_payload: "CHR 0x0A \<notin> set (print_json (payload_json k i j))"
proof -
  have i: "CHR 0x0A \<notin> set (FormatInt i)" for i
  proof
    assume "CHR 0x0A \<in> set (FormatInt i)"
    then have "is_digit CHR 0x0A"
      by (auto simp: FormatInt_def dest: show_nat_digits split: if_splits)
    then show False
      by (simp add: is_digit_def char_digit_def)
  qed
  have e: "CHR 0x0A \<notin> set (escape_char c)" if "32 \<le> (of_char c :: nat)" for c
  proof -
    have "\<not> plain_char CHR 0x0A"
      by (simp add: plain_char_def)
    then have "CHR 0x0A \<noteq> digit_char d" if "d < 16" for d
      using digit_char_plain [OF that] by metis
    moreover have "(of_char c :: nat) div 16 < 16" "(of_char c :: nat) mod 16 < 16"
      using nat_of_char_less_256 [of c] by (simp_all add: less_mult_imp_div_less)
    ultimately have "CHR 0x0A \<notin> set (hex_byte (of_char c))"
      unfolding hex_byte_def by (metis empty_iff empty_set set_ConsD)
    then show ?thesis
      using that by (auto simp: escape_char_def)
  qed
  have s: "CHR 0x0A \<notin> set (print_string w)" if "ascii w \<and> list_all (\<lambda>c. 32 \<le> (of_char c :: nat)) w" for w
    using that e by (auto simp: print_string_def list_all_iff print_chars_ascii)
  have "ascii w \<and> list_all (\<lambda>c. 32 \<le> (of_char c :: nat)) w"
    if "w \<in> {''usage'', ''message'', ''delta'', ''input_tokens'', ''output_tokens'', ''type'', ''id'', ''m'',
              ''message_start'', ''message_delta''}" for w
    using that by (auto simp: ascii_def)
  then show ?thesis
    using i s by (cases k) (simp_all add: usage_json_def)
qed

lemma body_lines_frames:
  "body_lines (concat (map sse_frame fs)) =
     concat (map (\<lambda>(k, i, j). [''data: '' @ print_json (payload_json k i j) @ [CHR 0x0A], [CHR 0x0A]]) fs)"
proof (induction fs)
  case (Cons f fs)
  obtain k i j where f: "f = (k, i, j)"
    by (cases f)
  have "CHR 0x0A \<notin> set (''data: '' @ print_json (payload_json k i j))"
    using newline_not_payload by simp
  from body_lines_line [OF this, of "CHR 0x0A # concat (map sse_frame fs)"]
  show ?case
    using Cons by (simp add: f sse_frame_def)
qed simp

lemma announced_frame:
  assumes "token_count i" "token_count j"
  shows "announced (''data: '' @ print_json (payload_json k i j) @ [CHR 0x0A]) = \<lparr>u_request = i, u_response = j\<rparr>"
proof -
  have "TrimSpace ('' '' @ print_json (payload_json k i j) @ [CHR 0x0A]) = [] @ print_json (payload_json k i j) @ []"
    by (subst TrimSpace_padded) (simp_all add: payload_ends plain_braces ascii_spaces_def)
  then show ?thesis
    using parseUsage_payload [OF assms, of "[]" "[]" k] by (simp add: announced_def HasPrefix_def)
qed

lemma max_usage_set:
  assumes "insert zero_usage (set us) = insert zero_usage (set vs)"
  shows "max_usage us = max_usage vs"
proof -
  have "insert 0 (f ` set us) = insert 0 (f ` set vs)" if "f zero_usage = 0" for f :: "usage_pair \<Rightarrow> int"
    using assms that by (metis image_insert)
  then show ?thesis
    by (simp add: max_usage_def zero_usage_def)
qed

lemma announced_frames:
  assumes "\<forall>(k, i, j) \<in> set fs. token_count i \<and> token_count j"
  shows "insert zero_usage (set (map announced (body_lines (concat (map sse_frame fs)))))
       = insert zero_usage (set (map (\<lambda>(k, i, j). \<lparr>u_request = i, u_response = j\<rparr>) fs))"
  unfolding body_lines_frames using assms
proof (induction fs)
  case (Cons f fs)
  let ?F = "\<lambda>(k, i, j). [''data: '' @ print_json (payload_json k i j) @ [CHR 0x0A], [CHR 0x0A]]"
  let ?U = "\<lambda>(k, i, j). \<lparr>u_request = i, u_response = j\<rparr>"
  obtain k i j where f: "f = (k, i, j)"
    by (cases f)
  have "announced [CHR 0x0A] = zero_usage"
    by (simp add: announced_def HasPrefix_def)
  moreover have "announced (''data: '' @ print_json (payload_json k i j) @ [CHR 0x0A]) = \<lparr>u_request = i, u_response = j\<rparr>"
    using Cons.prems f by (intro announced_frame) simp_all
  moreover have IH: "insert zero_usage (announced ` set (concat (map ?F fs))) = insert zero_usage (set (map ?U fs))"
    using Cons.IH Cons.prems by (simp add: list.set_map del: append_Cons set_concat)
  ultimately show ?case
    by (simp only: f list.map concat.simps prod.case list.set set_append image_Un image_insert image_empty Un_insert_left
        Un_empty_left list.set_map) (metis insert_commute insert_absorb2)
qed simp

lemma stream_cost_exact:
  assumes "0 \<le> u_request u" "0 \<le> u_response u" "u_request u * 3 + u_response u * 15 < 2 ^ 63"
  shows "estimateCostMicros u = u_request u * 3 + u_response u * 15"
  using assms by (simp add: estimateCostMicros_def wrap64_id int64_range_def)

lemma stream_cost_wraps: "estimateCostMicros \<lparr>u_request = 0, u_response = 2 ^ 60\<rparr> < 0"
  by (simp add: estimateCostMicros_def wrap64_def)

lemma streamBody_client:
  assumes "streamBody isSSE b w = (w', usage, captured, err)"
  shows "cw_out w' = cw_out w @ cw_take w (br_bytes b)"
    "err = (if cw_room w (br_bytes b) then map_option Upstream_read (br_err b) else Some Client_write)"
proof -
  have "cw_out w' = cw_out w @ cw_take w (br_bytes b) \<and>
      err = (if cw_room w (br_bytes b) then map_option Upstream_read (br_err b) else Some Client_write)"
  proof (cases isSSE)
    case True
    then show ?thesis
      using assms sse_loop_out [of "br_bytes b" "br_err b" w zero_usage "[]"]
        sse_loop_err [of "br_bytes b" "br_err b" w zero_usage "[]"]
      by (simp add: streamBody_def streamSSE_def)
  next
    case False
    then show ?thesis
      using assms copy_tee_out [of "br_chunks b" "br_err b" w "([], json_cap)"]
      by (auto simp: streamBody_def streamJSON_def br_bytes_def split: prod.splits option.splits if_splits)
  qed
  then show "cw_out w' = cw_out w @ cw_take w (br_bytes b)"
    "err = (if cw_room w (br_bytes b) then map_option Upstream_read (br_err b) else Some Client_write)"
    by simp_all
qed

text \<open>
  The proxy is transparent. Whatever the mode and the chunking, the client receives
  exactly the bytes of the upstream body, up to the point where its own connection breaks,
  and the error reported is the client's failure, else the upstream's read error, else none.
\<close>

theorem stream_transparent:
  "case streamBody isSSE b w of
     (w', usage, captured, err) \<Rightarrow>
       cw_out w' = cw_out w @ cw_take w (br_bytes b)
     \<and> err = (if cw_room w (br_bytes b) then map_option Upstream_read (br_err b) else Some Client_write)"
proof (cases "streamBody isSSE b w")
  case (fields w' usage captured err)
  then show ?thesis
    using streamBody_client [OF fields] by simp
qed

text \<open>
  Usage and capture. When the client takes the whole body, a stream yields the largest
  input and output counts any of its \<open>data:\<close> lines announces, with the first 32 KiB
  captured and everything flushed at its end; a plain response read to its end yields the
  counts of its first MiB. Neither depends on how the body was cut into chunks.
\<close>

theorem stream_usage:
  assumes "cw_room w (br_bytes b)" "br_err b = None" "cw_flusher w"
  shows "(case streamSSE b w of
            (w', usage, captured, err) \<Rightarrow>
              usage = max_usage (map announced (body_lines (br_bytes b)))
            \<and> captured = take (32 * 1024) (br_bytes b)
            \<and> cw_flushed w' = length (cw_out w'))
       \<and> (case streamJSON b w of
            (w', usage, captured, err) \<Rightarrow>
              usage = parseUsage (take (2 ^ 20) (br_bytes b))
            \<and> captured = take (2 ^ 20) (br_bytes b)
            \<and> cw_flushed w' = length (cw_out w'))"
proof
  show "case streamSSE b w of
          (w', usage, captured, err) \<Rightarrow>
            usage = max_usage (map announced (body_lines (br_bytes b)))
          \<and> captured = take (32 * 1024) (br_bytes b)
          \<and> cw_flushed w' = length (cw_out w')"
    using sse_loop_sniff [OF assms(1), of "[]" None zero_usage] sse_loop_flushed [OF assms(1,3), of zero_usage "[]"]
    by (simp add: streamSSE_def assms(2) case_prod_beta fold_line_usage captureCap_def)
  have c: "cw_room w (concat (br_chunks b))"
    using assms(1) by (simp add: br_bytes_def)
  obtain w' lw where t: "copy_tee (br_chunks b) None w ([], json_cap) = (w', lw, None)"
    using copy_tee_out [of "br_chunks b" None w "([], json_cap)"] c
    by (cases "copy_tee (br_chunks b) None w ([], json_cap)") auto
  have "cw_flusher (fst (copy_tee cs rerr w lw)) = cw_flusher w" for cs rerr w lw
    by (induction cs arbitrary: w lw) (auto simp: cw_write_cases(6) split: prod.splits bool.splits)
  then have "cw_flusher w'"
    using t assms(3) by (metis fst_conv)
  then show "case streamJSON b w of
          (w', usage, captured, err) \<Rightarrow>
            usage = parseUsage (take (2 ^ 20) (br_bytes b))
          \<and> captured = take (2 ^ 20) (br_bytes b)
          \<and> cw_flushed w' = length (cw_out w')"
    using copy_tee_captured [OF c, of None "[]" json_cap] t
    by (simp add: streamJSON_def assms(2) br_bytes_def json_cap_def flush_def del: power_numeral)
qed

theorem stream_usage_witness:
  "case streamSSE \<lparr>br_chunks = [''da'', ''ta: x''], br_err = None\<rparr>
       \<lparr>cw_out = [], cw_flushed = 0, cw_flusher = True, cw_left = None\<rparr> of
     (w', usage, captured, err) \<Rightarrow> captured = ''data: x'' \<and> cw_flushed w' = length (cw_out w')"
  using stream_usage [of "\<lparr>cw_out = [], cw_flushed = 0, cw_flusher = True, cw_left = None\<rparr>"
      "\<lparr>br_chunks = [''da'', ''ta: x''], br_err = None\<rparr>"]
  by (auto simp: cw_room_def br_bytes_def)

text \<open>
  The counts an upstream reports are the counts the proxy charges. A stream of frames,
  each with a usage object at the top level, under \<open>message\<close> or under \<open>delta\<close>, yields the
  maximum of their input and of their output counts; and each such payload, padded with
  white space, yields its own counts.
\<close>

theorem stream_reported_usage:
  assumes "br_bytes b = concat (map sse_frame fs)" "\<forall>(k, i, j) \<in> set fs. token_count i \<and> token_count j"
    and "cw_room w (br_bytes b)" "token_count i" "token_count j"
  shows "fst (snd (streamSSE b w)) = max_usage (map (\<lambda>(k, i, j). \<lparr>u_request = i, u_response = j\<rparr>) fs)
       \<and> parseUsage ('' '' @ print_json (payload_json k i j) @ [CHR 0x0A]) = \<lparr>u_request = i, u_response = j\<rparr>"
proof
  have "insert zero_usage (set (map announced (body_lines (br_bytes b))))
      = insert zero_usage (set (map (\<lambda>(k, i, j). \<lparr>u_request = i, u_response = j\<rparr>) fs))"
    using assms(2) unfolding assms(1) by (rule announced_frames)
  then have "max_usage (map announced (body_lines (br_bytes b)))
      = max_usage (map (\<lambda>(k, i, j). \<lparr>u_request = i, u_response = j\<rparr>) fs)"
    by (rule max_usage_set)
  then show "fst (snd (streamSSE b w)) = max_usage (map (\<lambda>(k, i, j). \<lparr>u_request = i, u_response = j\<rparr>) fs)"
    using sse_loop_sniff [OF assms(3), of "[]" "br_err b" zero_usage] by (simp add: streamSSE_def fold_line_usage)
  show "parseUsage ('' '' @ print_json (payload_json k i j) @ [CHR 0x0A]) = \<lparr>u_request = i, u_response = j\<rparr>"
    using assms(4,5) by (rule parseUsage_payload) (simp_all add: ascii_spaces_def)
qed

theorem stream_reported_usage_witness:
  "fst (snd (streamSSE \<lparr>br_chunks = [sse_frame (Message_start, 42, 1), sse_frame (Plain, 0, 73)], br_err = None\<rparr>
       \<lparr>cw_out = [], cw_flushed = 0, cw_flusher = True, cw_left = None\<rparr>))
   = \<lparr>u_request = 42, u_response = 73\<rparr>"
  using stream_reported_usage [of "\<lparr>br_chunks = [sse_frame (Message_start, 42, 1), sse_frame (Plain, 0, 73)], br_err = None\<rparr>"
      "[(Message_start, 42, 1), (Plain, 0, 73)]"
      "\<lparr>cw_out = [], cw_flushed = 0, cw_flusher = True, cw_left = None\<rparr>" 0 0 Plain]
  by (simp add: br_bytes_def cw_room_def token_count_def int64_range_def max_usage_def)

end
