(* ===== verification/Vm_Session.thy ===== *)
theory Vm_Session
  imports Serial Json_Number Netalloc Streaming
begin

text \<open>
  One VM session, \<open>control-plane/internal/session/session.go\<close>, and the guest side of its
  vsock connection, \<open>vsock_listener.go\<close>: readiness, terminal geometry, the bookkeeping of
  attached clients for the idle reaper, closing, and the handshake with the guest agent.
  A channel that is only closed is \<open>None\<close> when nil and otherwise whether it is closed; a
  connection is a number, and \<open>wr\<close> says whether writing to it succeeds.
\<close>

datatype session_error =
    ErrAtCapacity
  | ErrNotFound
  | ErrNoGuest
  | ErrSessionClosed
  | ErrBootTimeout
  | ErrContext
  | ErrBadSize
  | ErrWrite
  | ErrStep string

record session =
  ss_ID :: string
  ss_IP :: "ip4 option"
  ss_MAC :: string
  ss_Tap :: string
  ss_Hostname :: string
  ss_SessionToken :: string
  ss_Owner :: string
  ss_Process :: bool
  ss_VmDir :: string
  ss_Serial :: "serial_tee option"
  ss_Warm :: bool
  ss_createdAt :: go_time
  ss_readyAt :: int
  ss_ready :: "bool option"
  ss_readyOnce :: bool
  ss_mgr :: bool
  ss_done :: "bool option"
  ss_doneOnce :: bool
  ss_guestConn :: "nat option"
  ss_cols :: "16 word"
  ss_rows :: "16 word"
  ss_attached :: int
  ss_lastDetach :: "go_time option"
  ss_closures :: "bool list"

text \<open>\<open>ss_closures\<close> holds the \<open>sync.Once\<close> of every function \<open>Attach\<close> has returned.\<close>

definition zero_session :: session where
  "zero_session =
     \<lparr>ss_ID = [], ss_IP = None, ss_MAC = [], ss_Tap = [], ss_Hostname = [], ss_SessionToken = [],
      ss_Owner = [], ss_Process = False, ss_VmDir = [], ss_Serial = None, ss_Warm = False,
      ss_createdAt = 0, ss_readyAt = 0, ss_ready = None, ss_readyOnce = False, ss_mgr = False,
      ss_done = None, ss_doneOnce = False, ss_guestConn = None, ss_cols = 0, ss_rows = 0,
      ss_attached = 0, ss_lastDetach = None, ss_closures = []\<rparr>"

section \<open>Readiness\<close>

definition MarkReady :: "go_time \<Rightarrow> session \<Rightarrow> session" where
  "MarkReady now s =
     (let s1 = (if ss_ready s = None then s\<lparr>ss_ready := Some False\<rparr> else s)
      in if ss_readyOnce s1 then s1
         else s1\<lparr>ss_readyOnce := True, ss_readyAt := now, ss_ready := Some True\<rparr>)"

definition ReadyAt :: "session \<Rightarrow> go_time option" where
  "ReadyAt s = (if ss_readyAt s = 0 then None else Some (ss_readyAt s))"

text \<open>
  The results \<open>WaitReady\<close> can return now: \<open>select\<close> takes any case that is enabled, and
  blocks when the set is empty. \<open>None\<close> stands for a nil error.
\<close>

definition WaitReady :: "bool \<Rightarrow> session \<Rightarrow> session_error option set" where
  "WaitReady ctx_done s =
     (case ss_ready s of
        None \<Rightarrow> {None}
      | Some r \<Rightarrow>
          (if r then {None} else {}) \<union> (if ctx_done then {Some ErrContext} else {})
            \<union> (if ss_done s = Some True then {Some ErrSessionClosed} else {}))"

section \<open>The guest connection and the window size\<close>

definition SetGuestConn :: "nat option \<Rightarrow> session \<Rightarrow> session" where
  "SetGuestConn c s = s\<lparr>ss_guestConn := c\<rparr>"

text \<open>
  The error, if any, and what was written to which connection; a write that fails is taken
  to have written nothing.
\<close>

definition SendToGuest :: "(nat \<Rightarrow> bool) \<Rightarrow> json \<Rightarrow> session \<Rightarrow> session_error option \<times> (nat \<times> string) list" where
  "SendToGuest wr msg s =
     (case ss_guestConn s of
        None \<Rightarrow> (Some ErrNoGuest, [])
      | Some c \<Rightarrow> if wr c then (None, [(c, print_json msg @ [CHR 0x0A])]) else (Some ErrWrite, []))"

definition resizeMessage :: "16 word \<Rightarrow> 16 word \<Rightarrow> json" where
  "resizeMessage cols rows =
     JObj [(''type'', JStr ''resize''),
           (''payload'', JObj [(''cols'', JNum (show_nat (unat cols))), (''rows'', JNum (show_nat (unat rows)))])]"

definition Resize ::
  "(nat \<Rightarrow> bool) \<Rightarrow> 16 word \<Rightarrow> 16 word \<Rightarrow> session \<Rightarrow> session \<times> session_error option \<times> (nat \<times> string) list" where
  "Resize wr cols rows s =
     (if cols = 0 \<or> rows = 0 then (s, Some ErrBadSize, [])
      else
        (let s1 = s\<lparr>ss_cols := cols, ss_rows := rows\<rparr>
         in case SendToGuest wr (resizeMessage cols rows) s1 of
              (Some ErrNoGuest, out) \<Rightarrow> (s1, None, out)
            | (err, out) \<Rightarrow> (s1, err, out)))"

definition WindowSize :: "session \<Rightarrow> 16 word \<times> 16 word" where
  "WindowSize s = (ss_cols s, ss_rows s)"

section \<open>Attached clients\<close>

definition sess_Attach :: "session \<Rightarrow> session \<times> nat" where
  "sess_Attach s =
     (s\<lparr>ss_attached := ss_attached s + 1, ss_closures := ss_closures s @ [False]\<rparr>, length (ss_closures s))"

text \<open>Calling the \<open>i\<close>-th detach function; only its first call counts.\<close>

definition sess_detach :: "nat \<Rightarrow> go_time \<Rightarrow> session \<Rightarrow> session" where
  "sess_detach i now s =
     (if i < length (ss_closures s) \<and> \<not> ss_closures s ! i then
        (let n = ss_attached s - 1
         in s\<lparr>ss_closures := (ss_closures s)[i := True], ss_attached := n,
              ss_lastDetach := (if n = 0 then Some now else ss_lastDetach s)\<rparr>)
      else s)"

definition IdleSince :: "session \<Rightarrow> go_time option" where
  "IdleSince s =
     (if ss_attached s > 0 then None
      else case ss_lastDetach s of
             Some t \<Rightarrow> Some t
           | None \<Rightarrow> (case ReadyAt s of Some r \<Rightarrow> Some r | None \<Rightarrow> Some (ss_createdAt s)))"

definition CloseDone :: "session \<Rightarrow> session" where
  "CloseDone s =
     (if ss_done s = None \<or> ss_doneOnce s then s else s\<lparr>ss_doneOnce := True, ss_done := Some True\<rparr>)"

definition NewInMemorySession :: "go_time \<Rightarrow> go_time \<Rightarrow> string \<Rightarrow> session" where
  "NewInMemorySession t0 t1 sid =
     MarkReady t1 (zero_session\<lparr>ss_ID := sid, ss_createdAt := t0, ss_done := Some False, ss_ready := Some False\<rparr>)"

section \<open>The vsock handshake\<close>

record guest_event =
  ge_Type :: string
  ge_TS :: string
  ge_SessionToken :: string
  ge_Payload :: "string \<rightharpoonup> json"

definition zero_event :: guest_event where
  "zero_event = \<lparr>ge_Type = [], ge_TS = [], ge_SessionToken = [], ge_Payload = Map.empty\<rparr>"

definition dec_event :: "guest_event decoder" where
  "dec_event = dec_struct (\<lambda>f v e.
     if f = fold_name ''type'' then (case dec_string v (ge_Type e) of (w, ok) \<Rightarrow> (e\<lparr>ge_Type := w\<rparr>, ok))
     else if f = fold_name ''ts'' then (case dec_string v (ge_TS e) of (w, ok) \<Rightarrow> (e\<lparr>ge_TS := w\<rparr>, ok))
     else if f = fold_name ''session_token'' then
       (case dec_string v (ge_SessionToken e) of (w, ok) \<Rightarrow> (e\<lparr>ge_SessionToken := w\<rparr>, ok))
     else if f = fold_name ''payload'' then
       (case dec_map v (ge_Payload e) of (w, ok) \<Rightarrow> (e\<lparr>ge_Payload := w\<rparr>, ok))
     else (e, True))"

text \<open>One \<open>dec.Decode(&ev)\<close> on the bytes that are left: the event and the rest.\<close>

definition next_event :: "string \<Rightarrow> (guest_event \<times> string) option" where
  "next_event s =
     (case json_decode s of
        None \<Rightarrow> None
      | Some (v, r) \<Rightarrow> (case dec_event v zero_event of (e, ok) \<Rightarrow> if ok then Some (e, r) else None))"

text \<open>The hello check: what is left of the input when it is accepted.\<close>

definition guest_hello :: "string \<Rightarrow> session \<Rightarrow> string option" where
  "guest_hello input s =
     (case next_event input of
        None \<Rightarrow> None
      | Some (hello, r) \<Rightarrow>
          if ge_Type hello \<noteq> ''hello'' \<or> ge_SessionToken hello \<noteq> ss_SessionToken s then None else Some r)"

text \<open>From an accepted hello to the event loop: the session and the frames written to the guest.\<close>

definition guest_begin :: "(nat \<Rightarrow> bool) \<Rightarrow> nat \<Rightarrow> go_time \<Rightarrow> session \<Rightarrow> session \<times> (nat \<times> string) list" where
  "guest_begin wr conn now s =
     (let s1 = MarkReady now (SetGuestConn (Some conn) s);
          (cols, rows) = WindowSize s1
      in (s1, if cols > 0 \<and> rows > 0 then snd (SendToGuest wr (resizeMessage cols rows) s1) else []))"

text \<open>The loop over the later events, up to the first decoding error or the end of the stream.\<close>

function guest_events :: "string \<Rightarrow> guest_event list" where
  "guest_events s = (case next_event s of None \<Rightarrow> [] | Some (e, r) \<Rightarrow> e # guest_events r)"
  by pat_completeness auto

lemma next_event_length: "next_event s = Some (e, r) \<Longrightarrow> length r < length s"
  by (auto simp: next_event_def json_decode_def split: option.splits prod.splits if_splits dest: parse_length)

termination guest_events
  by (relation "measure length") (auto dest: next_event_length sym)

declare guest_events.simps [simp del]

definition guest_end :: "session \<Rightarrow> session" where
  "guest_end s = SetGuestConn None s"

definition handleGuestConn ::
  "(nat \<Rightarrow> bool) \<Rightarrow> nat \<Rightarrow> go_time \<Rightarrow> string \<Rightarrow> session \<Rightarrow> session \<times> (nat \<times> string) list \<times> guest_event list" where
  "handleGuestConn wr conn now input s =
     (case guest_hello input s of
        None \<Rightarrow> (s, [], [])
      | Some r \<Rightarrow> (case guest_begin wr conn now s of (s1, out) \<Rightarrow> (guest_end s1, out, guest_events r)))"

definition guestVsockPort :: nat where
  "guestVsockPort = 5555"

definition vsock_addr :: "string \<Rightarrow> string" where
  "vsock_addr udsPath = udsPath @ ''_'' @ Itoa (int guestVsockPort)"

text \<open>One round of the accept loop of \<open>startVsockListener\<close>.\<close>

datatype accept_result = Accepted nat | Accept_closed | Accept_timeout | Accept_error

datatype listen_action = L_return | L_continue | L_handle nat

definition listen_round :: "session \<Rightarrow> accept_result \<Rightarrow> listen_action" where
  "listen_round s a =
     (if ss_done s = Some True then L_return
      else case a of
             Accepted c \<Rightarrow> L_handle c
           | Accept_closed \<Rightarrow> L_return
           | Accept_timeout \<Rightarrow> L_continue
           | Accept_error \<Rightarrow> L_continue)"

section \<open>Operations as values, and the abstract view of the attached clients\<close>

datatype sess_op =
    SO_Attach
  | SO_Detach nat go_time
  | SO_Ready go_time
  | SO_Resize "16 word" "16 word"
  | SO_Conn "nat option"
  | SO_Close

fun sess_apply :: "(nat \<Rightarrow> bool) \<Rightarrow> sess_op \<Rightarrow> session \<Rightarrow> session" where
  "sess_apply wr SO_Attach s = fst (sess_Attach s)"
| "sess_apply wr (SO_Detach i now) s = sess_detach i now s"
| "sess_apply wr (SO_Ready now) s = MarkReady now s"
| "sess_apply wr (SO_Resize c r) s = fst (Resize wr c r s)"
| "sess_apply wr (SO_Conn c) s = SetGuestConn c s"
| "sess_apply wr SO_Close s = CloseDone s"

definition sess_run :: "(nat \<Rightarrow> bool) \<Rightarrow> sess_op list \<Rightarrow> session \<Rightarrow> session" where
  "sess_run wr ops s = fold (sess_apply wr) ops s"

text \<open>
  What the idle reaper is promised: the set of clients that have attached and not yet
  detached, and the moment that set last became empty.
\<close>

record idle_view =
  iv_next :: nat
  iv_open :: "nat set"
  iv_since :: "go_time option"

fun idle_spec :: "sess_op \<Rightarrow> idle_view \<Rightarrow> idle_view" where
  "idle_spec SO_Attach v = v\<lparr>iv_next := Suc (iv_next v), iv_open := insert (iv_next v) (iv_open v)\<rparr>"
| "idle_spec (SO_Detach i now) v =
     (if i \<in> iv_open v then
        v\<lparr>iv_open := iv_open v - {i}, iv_since := (if iv_open v = {i} then Some now else iv_since v)\<rparr>
      else v)"
| "idle_spec _ v = v"

definition open_clients :: "session \<Rightarrow> nat set" where
  "open_clients s = {i. i < length (ss_closures s) \<and> \<not> ss_closures s ! i}"

definition idle_abs :: "session \<Rightarrow> idle_view" where
  "idle_abs s = \<lparr>iv_next = length (ss_closures s), iv_open = open_clients s, iv_since = ss_lastDetach s\<rparr>"

definition attach_inv :: "session \<Rightarrow> bool" where
  "attach_inv s \<longleftrightarrow> ss_attached s = int (card (open_clients s))"

lemma finite_open_clients [simp]: "finite (open_clients s)"
  by (simp add: open_clients_def)

lemma MarkReady_keeps [simp]:
  "ss_closures (MarkReady t s) = ss_closures s" "ss_attached (MarkReady t s) = ss_attached s"
  "ss_lastDetach (MarkReady t s) = ss_lastDetach s" "ss_createdAt (MarkReady t s) = ss_createdAt s"
  "ss_guestConn (MarkReady t s) = ss_guestConn s" "ss_cols (MarkReady t s) = ss_cols s"
  "ss_rows (MarkReady t s) = ss_rows s" "ss_SessionToken (MarkReady t s) = ss_SessionToken s"
  "ss_done (MarkReady t s) = ss_done s" "ss_ID (MarkReady t s) = ss_ID s"
  by (simp_all add: MarkReady_def Let_def)

lemma CloseDone_keeps [simp]:
  "ss_closures (CloseDone s) = ss_closures s" "ss_attached (CloseDone s) = ss_attached s"
  "ss_lastDetach (CloseDone s) = ss_lastDetach s" "ss_ID (CloseDone s) = ss_ID s"
  "ss_readyAt (CloseDone s) = ss_readyAt s" "ss_ready (CloseDone s) = ss_ready s"
  "ss_readyOnce (CloseDone s) = ss_readyOnce s"
  by (simp_all add: CloseDone_def)

lemma SetGuestConn_keeps [simp]:
  "ss_closures (SetGuestConn c s) = ss_closures s" "ss_attached (SetGuestConn c s) = ss_attached s"
  "ss_lastDetach (SetGuestConn c s) = ss_lastDetach s" "ss_guestConn (SetGuestConn c s) = c"
  "ss_readyAt (SetGuestConn c s) = ss_readyAt s" "ss_ready (SetGuestConn c s) = ss_ready s"
  "ss_readyOnce (SetGuestConn c s) = ss_readyOnce s" "ss_cols (SetGuestConn c s) = ss_cols s"
  "ss_rows (SetGuestConn c s) = ss_rows s" "ss_done (SetGuestConn c s) = ss_done s"
  by (simp_all add: SetGuestConn_def)

lemma fst_Resize:
  "fst (Resize wr c r s) = (if c = 0 \<or> r = 0 then s else s\<lparr>ss_cols := c, ss_rows := r\<rparr>)"
  by (auto simp: Resize_def Let_def split: prod.splits option.splits session_error.splits)

lemma open_clients_Attach: "open_clients (fst (sess_Attach s)) = insert (length (ss_closures s)) (open_clients s)"
  by (auto simp: open_clients_def sess_Attach_def nth_append less_Suc_eq)

lemma open_clients_detach: "open_clients (sess_detach i now s) = open_clients s - {i}"
  by (auto simp: open_clients_def sess_detach_def Let_def nth_list_update)

lemma attach_inv_apply:
  assumes "attach_inv s"
  shows "attach_inv (sess_apply wr op s)"
proof (cases op)
  case SO_Attach
  have "length (ss_closures s) \<notin> open_clients s"
    by (simp add: open_clients_def)
  then show ?thesis
    using assms SO_Attach by (simp add: attach_inv_def open_clients_Attach) (simp add: sess_Attach_def)
next
  case (SO_Detach i now)
  show ?thesis
  proof (cases "i \<in> open_clients s")
    case True
    then have "0 < card (open_clients s)"
      by (auto simp: card_gt_0_iff)
    with True show ?thesis
      using assms SO_Detach
      by (simp add: attach_inv_def open_clients_detach card_Diff_singleton of_nat_diff)
        (simp add: sess_detach_def open_clients_def Let_def)
  next
    case False
    then have "sess_detach i now s = s"
      by (auto simp: sess_detach_def open_clients_def)
    with SO_Detach assms show ?thesis by simp
  qed
qed (use assms in \<open>simp_all add: attach_inv_def open_clients_def fst_Resize\<close>)

lemma idle_abs_apply:
  assumes "attach_inv s"
  shows "idle_abs (sess_apply wr op s) = idle_spec op (idle_abs s)"
proof (cases op)
  case (SO_Detach i now)
  have "ss_attached s - 1 = 0 \<longleftrightarrow> open_clients s = {i}" if "i \<in> open_clients s"
    using assms that by (auto simp: attach_inv_def card_1_singleton_iff)
  moreover have "i \<in> open_clients s \<longleftrightarrow> i < length (ss_closures s) \<and> \<not> ss_closures s ! i"
    by (simp add: open_clients_def)
  ultimately show ?thesis
    using SO_Detach by (simp add: idle_abs_def open_clients_detach) (simp add: sess_detach_def Let_def)
next
  case SO_Attach
  then show ?thesis
    by (simp add: idle_abs_def open_clients_Attach) (simp add: sess_Attach_def)
qed (simp_all add: idle_abs_def open_clients_def fst_Resize)

lemma attach_inv_run: "attach_inv s \<Longrightarrow> attach_inv (sess_run wr ops s)"
  unfolding sess_run_def by (induction ops arbitrary: s) (simp_all add: attach_inv_apply)

lemma idle_abs_run:
  "attach_inv s \<Longrightarrow> idle_abs (sess_run wr ops s) = fold idle_spec ops (idle_abs s)"
  unfolding sess_run_def
  by (induction ops arbitrary: s) (simp_all add: attach_inv_apply idle_abs_apply)

lemma attach_inv_new [simp]: "attach_inv (NewInMemorySession t0 t1 sid)"
  by (simp add: attach_inv_def open_clients_def NewInMemorySession_def zero_session_def)

lemma idle_abs_new: "idle_abs (NewInMemorySession t0 t1 sid) = \<lparr>iv_next = 0, iv_open = {}, iv_since = None\<rparr>"
  by (simp add: idle_abs_def open_clients_def NewInMemorySession_def zero_session_def)

text \<open>
  C18: The bookkeeping of attached clients refines its specification. After any sequence of
  attaching, detaching (any number of times, through any of the returned functions),
  resizing, handshakes and closing, the counter is the number of clients still attached, and
  \<open>IdleSince\<close> answers only when there is none: with the moment the set of attached clients
  last became empty, else the ready time, else the creation time.
\<close>

theorem session_idle_refines:
  assumes "attach_inv s"
  shows "(let v = fold idle_spec ops (idle_abs s); s' = sess_run wr ops s
     in ss_attached s' = int (card (iv_open v)) \<and>
        IdleSince s' =
          (if iv_open v \<noteq> {} then None
           else case iv_since v of
                  Some t \<Rightarrow> Some t
                | None \<Rightarrow> Some (if ss_readyAt s' = 0 then ss_createdAt s' else ss_readyAt s')))"
proof -
  define s' where "s' = sess_run wr ops s"
  define v where "v = fold idle_spec ops (idle_abs s)"
  have inv: "attach_inv s'" and abs: "idle_abs s' = v"
    using assms by (simp_all add: s'_def v_def attach_inv_run idle_abs_run)
  have v: "iv_open v = open_clients s'" "iv_since v = ss_lastDetach s'"
    by (simp_all add: abs [symmetric] idle_abs_def)
  have att: "ss_attached s' = int (card (iv_open v))"
    using inv by (simp add: attach_inv_def v)
  then have "0 < ss_attached s' \<longleftrightarrow> iv_open v \<noteq> {}"
    using v by (simp add: card_gt_0_iff)
  then show ?thesis
    using att unfolding Let_def s'_def [symmetric] v_def [symmetric]
    by (simp add: IdleSince_def v ReadyAt_def split: option.splits)
qed

theorem session_idle_refines_witness:
  "attach_inv (NewInMemorySession 5 9 ''s'') \<and>
   IdleSince (sess_run (\<lambda>_. True) [SO_Attach, SO_Detach 0 20, SO_Detach 0 30] (NewInMemorySession 5 9 ''s'')) = Some 20"
  using session_idle_refines [OF attach_inv_new, of "[SO_Attach, SO_Detach 0 20, SO_Detach 0 30]" 5 9 "''s''" "\<lambda>_. True"]
  by (simp add: idle_abs_new Let_def)

section \<open>Readiness is stable\<close>

definition ready_inv :: "session \<Rightarrow> bool" where
  "ready_inv s \<longleftrightarrow> (ss_readyOnce s \<longleftrightarrow> ss_ready s = Some True)"

lemma ready_inv_apply: "ready_inv s \<Longrightarrow> ready_inv (sess_apply wr op s)"
  by (cases op)
    (auto simp: ready_inv_def sess_Attach_def sess_detach_def MarkReady_def Let_def fst_Resize)

lemma MarkReady_WaitReady: "ready_inv s \<Longrightarrow> None \<in> WaitReady ctx (MarkReady now s)"
  by (simp add: WaitReady_def MarkReady_def Let_def ready_inv_def)

lemma MarkReady_first: "ready_inv s \<Longrightarrow> ss_readyAt (MarkReady t2 (MarkReady t1 s)) = ss_readyAt (MarkReady t1 s)"
  by (simp add: MarkReady_def Let_def)

section \<open>The handshake\<close>

text \<open>A connection that does not open with the session's token leaves no trace.\<close>

lemma handleGuestConn_rejected:
  "guest_hello input s = None \<Longrightarrow> handleGuestConn wr conn now input s = (s, [], [])"
  by (simp add: handleGuestConn_def)

lemma handleGuestConn_accepted:
  assumes "guest_hello input s = Some r" "ready_inv s"
  shows "None \<in> WaitReady ctx (fst (handleGuestConn wr conn now input s))"
  using assms
  by (simp add: handleGuestConn_def guest_begin_def guest_end_def Let_def WindowSize_def WaitReady_def
      MarkReady_def ready_inv_def SetGuestConn_def)

text \<open>
  A guest that reconnects before the host has noticed the end of its first connection loses
  the new one: the deferred \<open>SetGuestConn(nil)\<close> of the first clears it.
\<close>

lemma guest_reconnect_lost:
  "SendToGuest wr m (guest_end (fst (guest_begin wr c2 t2 (fst (guest_begin wr c1 t1 s))))) = (Some ErrNoGuest, [])"
  by (simp add: guest_end_def SendToGuest_def)

end
