(* ===== verification/Guest_Agent.thy ===== *)
theory Guest_Agent
  imports Vm_Session
begin

text \<open>
  The agent that runs inside every VM, \<open>guest-agent/cmd/microvm-guest-agent/main.go\<close>: the
  kernel command line, the hello frame, the loop that applies resize frames to the console,
  and the redial loop. The kernel command line, the clock, the host name and the result of
  system calls are arguments.
\<close>

definition hostCID :: nat where
  "hostCID = 2"

definition defaultVsockPort :: nat where
  "defaultVsockPort = 5555"

record frame =
  fr_Type :: string
  fr_TS :: string
  fr_Session :: string
  fr_Payload :: "string \<rightharpoonup> json"

definition zero_frame :: frame where
  "zero_frame = \<lparr>fr_Type = [], fr_TS = [], fr_Session = [], fr_Payload = Map.empty\<rparr>"

definition dec_frame :: "frame decoder" where
  "dec_frame = dec_struct (\<lambda>n v f.
     if n = fold_name ''type'' then (case dec_string v (fr_Type f) of (w, ok) \<Rightarrow> (f\<lparr>fr_Type := w\<rparr>, ok))
     else if n = fold_name ''ts'' then (case dec_string v (fr_TS f) of (w, ok) \<Rightarrow> (f\<lparr>fr_TS := w\<rparr>, ok))
     else if n = fold_name ''session_token'' then
       (case dec_string v (fr_Session f) of (w, ok) \<Rightarrow> (f\<lparr>fr_Session := w\<rparr>, ok))
     else if n = fold_name ''payload'' then
       (case dec_map v (fr_Payload f) of (w, ok) \<Rightarrow> (f\<lparr>fr_Payload := w\<rparr>, ok))
     else (f, True))"

section \<open>The kernel command line\<close>

text \<open>\<open>fmt.Sscanf(s, "%d", &n)\<close> on a word without blanks: 0 when it does not read a \<open>uint32\<close>.\<close>

definition Sscanf_uint32 :: "string \<Rightarrow> nat" where
  "Sscanf_uint32 s =
     (case read_nat (takeWhile is_digit s) of
        None \<Rightarrow> 0
      | Some n \<Rightarrow> if n < 2 ^ 32 then n else 0)"

definition cmdline_word :: "string \<Rightarrow> string \<times> nat \<Rightarrow> string \<times> nat" where
  "cmdline_word tok st =
     (case st of
        (sessionToken, vsockPort) \<Rightarrow>
          if HasPrefix tok ''mvt.session_token='' then (TrimPrefix tok ''mvt.session_token='', vsockPort)
          else if HasPrefix tok ''mvt.vsock_port='' then
            (let n = Sscanf_uint32 (TrimPrefix tok ''mvt.vsock_port='')
             in (sessionToken, if n > 0 then n else vsockPort))
          else (sessionToken, vsockPort))"

definition readCmdlineParams :: "string option \<Rightarrow> string \<times> nat" where
  "readCmdlineParams cmdline =
     (case cmdline of
        None \<Rightarrow> ([], defaultVsockPort)
      | Some s \<Rightarrow> fold cmdline_word (Fields s) ([], defaultVsockPort))"

definition safePrefix :: "string \<Rightarrow> string" where
  "safePrefix s = (if length s < 4 then ''---'' else take 4 s)"

section \<open>Serving one connection\<close>

text \<open>The hello frame; empty strings with \<open>omitempty\<close> are left out.\<close>

definition hello_json :: "string \<Rightarrow> string \<Rightarrow> string \<Rightarrow> string \<Rightarrow> json" where
  "hello_json ts sessionToken hostname version =
     JObj ([(''type'', JStr ''hello'')]
           @ (if ts = [] then [] else [(''ts'', JStr ts)])
           @ (if sessionToken = [] then [] else [(''session_token'', JStr sessionToken)])
           @ [(''payload'', JObj [(''hostname'', JStr hostname), (''version'', JStr version)])])"

definition numField :: "(string \<rightharpoonup> json) \<Rightarrow> string \<Rightarrow> int" where
  "numField m key = (case m key of Some (JNum lit) \<Rightarrow> float_int lit | _ \<Rightarrow> 0)"

datatype agent_error = Bad_winsize | Open_console | Ioctl_failed

type_synonym winsize = "16 word \<times> 16 word"

text \<open>\<open>dev\<close> gives whether the console opens and whether the ioctl succeeds.\<close>

definition applyWinsize :: "bool \<times> bool \<Rightarrow> 16 word \<Rightarrow> 16 word \<Rightarrow> winsize \<Rightarrow> agent_error option \<times> winsize" where
  "applyWinsize dev cols rows tty =
     (if cols = 0 \<or> rows = 0 then (Some Bad_winsize, tty)
      else if \<not> fst dev then (Some Open_console, tty)
      else if \<not> snd dev then (Some Ioctl_failed, tty)
      else (None, (cols, rows)))"

definition handle_frame :: "bool \<times> bool \<Rightarrow> frame \<Rightarrow> winsize \<Rightarrow> winsize" where
  "handle_frame dev f tty =
     (if fr_Type f = ''resize'' then
        snd (applyWinsize dev (word_of_int (numField (fr_Payload f) ''cols''))
               (word_of_int (numField (fr_Payload f) ''rows'')) tty)
      else tty)"

definition next_frame :: "string \<Rightarrow> (frame \<times> string) option" where
  "next_frame s =
     (case json_decode s of
        None \<Rightarrow> None
      | Some (v, r) \<Rightarrow> (case dec_frame v zero_frame of (f, ok) \<Rightarrow> if ok then Some (f, r) else None))"

text \<open>The frame loop: it ends with the first frame that does not decode, or with the stream.\<close>

function frame_loop :: "bool \<times> bool \<Rightarrow> string \<Rightarrow> winsize \<Rightarrow> winsize" where
  "frame_loop dev s tty =
     (case next_frame s of None \<Rightarrow> tty | Some (f, r) \<Rightarrow> frame_loop dev r (handle_frame dev f tty))"
  by pat_completeness auto

lemma next_frame_length: "next_frame s = Some (f, r) \<Longrightarrow> length r < length s"
  by (auto simp: next_frame_def json_decode_def split: option.splits prod.splits if_splits dest: parse_length)

termination frame_loop
  by (relation "measure (\<lambda>(_, s, _). length s)") (auto dest: next_frame_length sym)

declare frame_loop.simps [simp del]

datatype serve_error = Dial_failed | Hello_failed | Read_failed

record serve_env =
  sv_dial :: bool
  sv_wr :: bool
  sv_now :: string
  sv_hostname :: string
  sv_version :: string
  sv_input :: string
  sv_dev :: "bool \<times> bool"

text \<open>The error \<open>serve\<close> ends with, the text it wrote to the host, the window size it leaves.\<close>

definition serve :: "serve_env \<Rightarrow> string \<Rightarrow> winsize \<Rightarrow> serve_error \<times> string \<times> winsize" where
  "serve env sessionToken tty =
     (if \<not> sv_dial env then (Dial_failed, [], tty)
      else if \<not> sv_wr env then (Hello_failed, [], tty)
      else
        (Read_failed,
         print_json (hello_json (sv_now env) sessionToken (sv_hostname env) (sv_version env)) @ [CHR 0x0A],
         frame_loop (sv_dev env) (sv_input env) tty))"

text \<open>The redial loop of \<open>main\<close>: the back-off before the \<open>n\<close>-th redial.\<close>

definition next_backoff :: "duration \<Rightarrow> duration" where
  "next_backoff b = (if b < 10 * Second then b * 2 else b)"

definition backoff :: "nat \<Rightarrow> duration" where
  "backoff n = (next_backoff ^^ n) Second"

fun agent_run :: "serve_env list \<Rightarrow> string \<Rightarrow> duration \<Rightarrow> winsize \<Rightarrow> (serve_error \<times> string \<times> duration) list \<times> winsize" where
  "agent_run [] tok b tty = ([], tty)"
| "agent_run (env # envs) tok b tty =
     (case serve env tok tty of
        (e, out, tty') \<Rightarrow>
          (case agent_run envs tok (next_backoff b) tty' of (evs, t) \<Rightarrow> ((e, out, b) # evs, t)))"

section \<open>Words of the command line\<close>

lemma fields_aux_end:
  assumes "t = [] \<or> t = [CHR 0x0A]" "length t \<le> n"
  shows "fields_aux n acc t = (if acc = [] then [] else [rev acc])"
proof (cases n)
  case (Suc m)
  have "fields_aux m [] [] = []" by (cases m) simp_all
  with Suc assms show ?thesis by (auto simp: space_len_def ascii_spaces_def)
qed (use assms in simp)

text \<open>\<open>/proc/cmdline\<close> is words separated by blanks, with or without the final newline.\<close>

lemma Fields_cmdline:
  assumes "list_all (\<lambda>w. w \<noteq> [] \<and> list_all plain_char w) ws" "t = [] \<or> t = [CHR 0x0A]"
  shows "Fields (Join '' '' ws @ t) = ws"
proof -
  have "fields_aux n [] (Join '' '' ws @ t) = ws" if "length (Join '' '' ws @ t) \<le> n" for n
    using assms(1) that
  proof (induction ws arbitrary: n)
    case Nil
    then show ?case using fields_aux_end [OF assms(2), of n "[]"] by simp
  next
    case (Cons w ws)
    have word: "fields_aux n [] (w @ s) = fields_aux (n - length w) (rev w) s" if "length (w @ s) \<le> n" for s
      using Cons.prems(1) that fields_aux_word [of w s n "[]"] by simp
    show ?case
    proof (cases "ws = []")
      case True
      with Cons.prems word [of t] show ?thesis
        using fields_aux_end [OF assms(2), of "n - length w" "rev w"] by simp
    next
      case False
      let ?r = "Join '' '' ws @ t"
      have j: "Join '' '' (w # ws) @ t = w @ CHR '' '' # ?r"
        using False by (simp add: Join_Cons)
      with Cons.prems obtain m where m: "n - length w = Suc m" "length ?r \<le> m"
        by (cases "n - length w") auto
      have "length (w @ CHR '' '' # ?r) \<le> n" using Cons.prems(2) j by simp
      from word [OF this] m show ?thesis
        using Cons.IH [of m] Cons.prems(1) unfolding j by simp
    qed
  qed
  then show ?thesis by (simp add: Fields_def)
qed

section \<open>Frames on the wire\<close>

lemma fold_name_frame [simp]:
  "fold_name ''ts'' = ''TS''" "fold_name ''session_token'' = ''SESSION_TOKEN''" "fold_name ''payload'' = ''PAYLOAD''"
  by code_simp+

lemma num_end_newline [simp]: "num_end (CHR 0x0A # r)"
  by (simp add: num_end_def is_digit_def char_digit_def)

lemma json_decode_newline: "json_decode (CHR 0x0A # s) = json_decode s"
proof -
  have "parse_value n d (CHR 0x0A # s) = parse_value n d s" for n d
    by (cases n) (simp_all add: parse_value.simps skip_ws_def json_ws_def)
  then show ?thesis
    using json_decode_fuel [of s "json_fuel (CHR 0x0A # s)"] by (simp add: json_decode_def json_fuel_def)
qed

lemma int_json_show_nat: "n < 2 ^ 63 \<Longrightarrow> int_json (JNum (show_nat n))"
  using ParseInt_FormatInt [of "int n"] by (simp add: FormatInt_def int64_range_def)

lemma wire_roundtrip:
  assumes "int_json v" "depth v \<le> 2"
  shows "json_decode (print_json v @ CHR 0x0A # r) = Some (v, CHR 0x0A # r)"
  using assms by (intro json_roundtrip) (simp_all add: max_nesting_def)

lemma resizeMessage_wire: "int_json (resizeMessage c r)" "depth (resizeMessage c r) \<le> 2"
proof -
  have "unat x < 2 ^ 63" for x :: "16 word"
    using unsigned_less [of x, where ?'a = nat] by (rule less_trans) simp
  then show "int_json (resizeMessage c r)"
    by (simp add: resizeMessage_def int_json_show_nat ascii_def del: int_json.simps(1))
qed (simp add: resizeMessage_def)

lemma hello_json_wire:
  assumes "ascii ts" "ascii tok" "ascii hn" "ascii ver"
  shows "int_json (hello_json ts tok hn ver)" "depth (hello_json ts tok hn ver) \<le> 2"
  using assms by (simp_all add: hello_json_def ascii_def)

definition resize_frame :: "winsize \<Rightarrow> string" where
  "resize_frame w = print_json (resizeMessage (fst w) (snd w)) @ [CHR 0x0A]"

lemma next_frame_resize:
  "next_frame (resize_frame (c, r) @ rest) =
     Some (zero_frame\<lparr>fr_Type := ''resize'',
             fr_Payload := [''cols'' \<mapsto> JNum (show_nat (unat c)), ''rows'' \<mapsto> JNum (show_nat (unat r))]\<rparr>,
           CHR 0x0A # rest)"
proof -
  have "unat x < 2 ^ 53" for x :: "16 word"
    using unsigned_less [of x, where ?'a = nat] by (rule less_trans) simp
  then have "float_finite (show_nat (unat x))" for x :: "16 word"
    by (rule float_finite_show_nat)
  then show ?thesis
    using wire_roundtrip [OF resizeMessage_wire, of c r rest]
    by (simp add: next_frame_def resize_frame_def)
      (simp add: resizeMessage_def dec_frame_def dec_struct_def dec_string_def dec_map_def zero_frame_def)
qed

lemma uint16_float: "(word_of_int (float_int (show_nat (unat c))) :: 16 word) = c"
proof -
  have "unat c < 2 ^ 53"
    using unsigned_less [of c, where ?'a = nat] by (rule less_trans) simp
  then show ?thesis
    by (simp add: float_int_show_nat)
qed

lemma next_frame_newline: "next_frame (CHR 0x0A # s) = next_frame s"
  by (simp add: next_frame_def json_decode_newline)

lemma frame_loop_newline: "frame_loop dev (CHR 0x0A # s) tty = frame_loop dev s tty"
  by (subst (1 2) frame_loop.simps) (simp add: next_frame_newline)

lemma frame_loop_resize:
  "frame_loop dev (resize_frame (c, r) @ rest) tty =
     frame_loop dev rest (snd (applyWinsize dev c r tty))"
  by (subst frame_loop.simps)
    (simp add: next_frame_resize frame_loop_newline handle_frame_def numField_def uint16_float)

lemma next_frame_Nil: "next_frame [] = None"
  by (simp add: next_frame_def json_decode_def json_fuel_def parse_value.simps skip_ws_def)

definition valid_size :: "winsize \<Rightarrow> bool" where
  "valid_size w \<longleftrightarrow> fst w \<noteq> 0 \<and> snd w \<noteq> 0"

lemma frame_loop_resizes:
  "list_all valid_size ws \<Longrightarrow> frame_loop (True, True) (concat (map resize_frame ws)) tty = last (tty # ws)"
proof (induction ws arbitrary: tty)
  case Nil
  then show ?case by (simp add: frame_loop.simps next_frame_Nil)
next
  case (Cons w ws)
  obtain c r where w: "w = (c, r)" by (cases w)
  with Cons.prems have "snd (applyWinsize (True, True) c r tty) = w"
    by (simp add: applyWinsize_def valid_size_def)
  with Cons w show ?case by (simp add: frame_loop_resize)
qed

section \<open>The terminal size reaches the guest\<close>

text \<open>A client's resize requests, one after the other, with everything they write.\<close>

fun resizes :: "(nat \<Rightarrow> bool) \<Rightarrow> winsize list \<Rightarrow> session \<Rightarrow> session \<times> (nat \<times> string) list" where
  "resizes wr [] s = (s, [])"
| "resizes wr (w # ws) s =
     (case Resize wr (fst w) (snd w) s of
        (s1, _, out) \<Rightarrow> (case resizes wr ws s1 of (s2, out2) \<Rightarrow> (s2, out @ out2)))"

lemma Resize_cases:
  "Resize wr c r s =
     (if c = 0 \<or> r = 0 then (s, Some ErrBadSize, [])
      else (s\<lparr>ss_cols := c, ss_rows := r\<rparr>,
        (case ss_guestConn s of None \<Rightarrow> (None, [])
         | Some k \<Rightarrow> if wr k then (None, [(k, resize_frame (c, r))]) else (Some ErrWrite, []))))"
  by (simp add: Resize_def SendToGuest_def resize_frame_def split: option.splits)

lemma resizes_Cons:
  "fst (resizes wr (w # ws) s) = fst (resizes wr ws (fst (Resize wr (fst w) (snd w) s)))"
  "snd (resizes wr (w # ws) s) =
     snd (snd (Resize wr (fst w) (snd w) s)) @ snd (resizes wr ws (fst (Resize wr (fst w) (snd w) s)))"
  by (simp_all split: prod.splits)

declare resizes.simps(2) [simp del]

lemma resizes_detached:
  "ss_guestConn s = None \<Longrightarrow>
     ss_guestConn (fst (resizes wr ws s)) = None \<and> snd (resizes wr ws s) = [] \<and>
     WindowSize (fst (resizes wr ws s)) = last (WindowSize s # filter valid_size ws)"
  by (induction ws arbitrary: s)
    (simp_all add: resizes_Cons Resize_cases WindowSize_def valid_size_def prod_eq_iff)

lemma resizes_attached:
  "ss_guestConn s = Some k \<Longrightarrow> wr k \<Longrightarrow>
     snd (resizes wr ws s) = map (\<lambda>w. (k, resize_frame w)) (filter valid_size ws) \<and>
     WindowSize (fst (resizes wr ws s)) = last (WindowSize s # filter valid_size ws)"
  by (induction ws arbitrary: s)
    (simp_all add: resizes_Cons Resize_cases WindowSize_def valid_size_def prod_eq_iff)

lemma guest_begin_out:
  assumes "wr k"
  shows "snd (guest_begin wr k now s) =
     (if valid_size (WindowSize s) then [(k, resize_frame (WindowSize s))] else [])"
  using assms
  by (simp add: guest_begin_def WindowSize_def SendToGuest_def resize_frame_def valid_size_def word_gt_0)

lemma guest_begin_session [simp]:
  "ss_guestConn (fst (guest_begin wr k now s)) = Some k"
  "WindowSize (fst (guest_begin wr k now s)) = WindowSize s"
  by (simp_all add: guest_begin_def Let_def WindowSize_def)

text \<open>
  C39: The terminal size a browser asks for reaches the guest, whenever it asks. Resizes
  requested while the guest is still booting write nothing; after the handshake the frames the
  session writes, the replay included, all go to the guest's connection, and the agent that
  reads them leaves its console at exactly the session's window size, or untouched when no
  valid size was ever requested. Sizes with a zero component are refused on the host.
\<close>

theorem resize_reaches_guest:
  assumes "ss_guestConn s = None" "WindowSize s = (0, 0)" "wr conn"
    and "resizes wr before s = (s1, out1)"
    and "guest_begin wr conn now s1 = (s2, out2)"
    and "resizes wr after s2 = (s3, out3)"
  shows "out1 = [] \<and> fst ` set (out2 @ out3) \<subseteq> {conn} \<and>
     WindowSize s3 = last ((0, 0) # filter valid_size (before @ after)) \<and>
     frame_loop (True, True) (concat (map snd (out2 @ out3))) tty =
       last (tty # filter valid_size (before @ after))"
proof -
  have 1: "ss_guestConn s1 = None" "out1 = []" "WindowSize s1 = last ((0, 0) # filter valid_size before)"
    using resizes_detached [of s wr before] assms by simp_all
  have 2: "ss_guestConn s2 = Some conn" "WindowSize s2 = WindowSize s1"
    using assms(5) guest_begin_session [of wr conn now s1] by simp_all
  have 3: "out3 = map (\<lambda>w. (conn, resize_frame w)) (filter valid_size after)"
    "WindowSize s3 = last (WindowSize s2 # filter valid_size after)"
    using resizes_attached [OF 2(1), of wr after] assms(3,6) by simp_all
  define shown where "shown = (if filter valid_size before = [] then [] else [last (filter valid_size before)])"
  have valid: "valid_size (last (filter valid_size before))" if "filter valid_size before \<noteq> []"
    using last_in_set [OF that] by auto
  have 4: "out2 = map (\<lambda>w. (conn, resize_frame w)) shown"
    using guest_begin_out [of wr conn now s1] assms(3,5) 1(3) valid
    by (simp add: shown_def valid_size_def split: if_splits)
  have "list_all valid_size (shown @ filter valid_size after)"
    using valid by (simp add: shown_def list_all_iff)
  then have "frame_loop (True, True) (concat (map resize_frame (shown @ filter valid_size after))) tty =
      last (tty # shown @ filter valid_size after)"
    by (rule frame_loop_resizes)
  then show ?thesis
    using 1 2 3 4 by (auto simp: shown_def comp_def)
qed

theorem resize_reaches_guest_witness:
  "frame_loop (True, True)
     (concat (map snd (snd (guest_begin (\<lambda>_. True) 4 9 (fst (resizes (\<lambda>_. True) [(80, 24), (0, 3)] zero_session))) @
        snd (resizes (\<lambda>_. True) [(120, 40)]
          (fst (guest_begin (\<lambda>_. True) 4 9 (fst (resizes (\<lambda>_. True) [(80, 24), (0, 3)] zero_session))))))))
     (1, 1) = (120, 40)"
proof -
  let ?wr = "\<lambda>_::nat. True"
  have z: "ss_guestConn zero_session = None" "WindowSize zero_session = (0, 0)"
    by (simp_all add: zero_session_def WindowSize_def)
  show ?thesis
    using resize_reaches_guest [OF z, of ?wr 4 "[(80, 24), (0, 3)]" _ _ 9 _ _ "[(120, 40)]" _ _ "(1, 1)",
        OF TrueI surjective_pairing surjective_pairing surjective_pairing]
    by (simp add: valid_size_def)
qed

section \<open>The handshake\<close>

lemma next_event_hello:
  assumes "ascii ts" "ascii tok" "ascii hn" "ascii ver"
  shows "\<exists>e. next_event (print_json (hello_json ts tok hn ver) @ CHR 0x0A # r) = Some (e, CHR 0x0A # r) \<and>
     ge_Type e = ''hello'' \<and> ge_SessionToken e = tok"
  using wire_roundtrip [OF hello_json_wire(1) [OF assms] hello_json_wire(2) [OF assms], of r]
  by (simp add: next_event_def)
    (simp add: hello_json_def dec_event_def dec_struct_def dec_string_def dec_map_def zero_event_def)

lemma guest_hello_agent:
  assumes "ascii ts" "ascii tok" "ascii hn" "ascii ver"
  shows "guest_hello (print_json (hello_json ts tok hn ver) @ CHR 0x0A # r) s =
     (if tok = ss_SessionToken s then Some (CHR 0x0A # r) else None)"
  using next_event_hello [OF assms, of r] by (auto simp: guest_hello_def)

section \<open>The redial loop\<close>

lemma backoff_small: "backoff 0 = Second" "backoff 1 = 2 * Second" "backoff 2 = 4 * Second" "backoff 3 = 8 * Second"
  "backoff 4 = 16 * Second"
  by (simp_all add: backoff_def next_backoff_def Second_def numeral_eq_Suc)

text \<open>
  The redial delay doubles from one second and settles at 16 seconds, above the 10 seconds
  of the guard.
\<close>

lemma backoff_limit: "4 \<le> n \<Longrightarrow> backoff n = 16 * Second"
proof (induction n rule: dec_induct)
  case base
  show ?case by (rule backoff_small)
next
  case (step n)
  then show ?case by (simp add: backoff_def next_backoff_def Second_def)
qed

lemma agent_run_backoff:
  "map (snd \<circ> snd) (fst (agent_run envs tok b tty)) = map (\<lambda>i. (next_backoff ^^ i) b) [0..<length envs]"
proof (induction envs arbitrary: b tty)
  case (Cons env envs)
  have "[0..<length (env # envs)] = 0 # map Suc [0..<length envs]"
    by (simp only: upt_conv_Cons map_Suc_upt) (simp add: upt_conv_Cons del: upt_Suc)
  then show ?case
    using Cons.IH [of "next_backoff b" "snd (snd (serve env tok tty))"]
    by (simp add: case_prod_beta funpow_swap1 del: upt_Suc)
qed simp

end
