(* ===== verification/Host_Actions.thy ===== *)
theory Host_Actions
  imports Json
begin

text \<open>
  The operating system as the control plane sees it: a history of the actions it has taken,
  each with whether it succeeded. What decides success (the kernel, \<open>ip\<close>,
  \<open>iptables\<close>, \<open>mount\<close>, a full disk) is not under \<open>src/\<close>: it is an argument
  \<open>os\<close>, any function of the history so far and the next action. The theory also has the
  parts of \<open>path/filepath\<close> and \<open>strconv\<close> the launch code uses.
\<close>

datatype host_action =
    Run "string list"
  | WriteFile string string nat
  | MkdirAll string nat
  | MkdirTemp string
  | Chown string nat nat
  | RemoveFile string
  | RemoveAll string
  | StdinPipe
  | StdoutPipe
  | Spawn "string list"

type_synonym host_log = "(host_action \<times> bool) list"

type_synonym os = "host_log \<Rightarrow> host_action \<Rightarrow> bool"

definition perform :: "os \<Rightarrow> host_action \<Rightarrow> host_log \<Rightarrow> bool \<times> host_log" where
  "perform os a h = (os h a, h @ [(a, os h a)])"

text \<open>An action whose error is dropped (\<open>_ = f()\<close>).\<close>

definition ignore :: "os \<Rightarrow> host_action \<Rightarrow> host_log \<Rightarrow> host_log" where
  "ignore os a h = snd (perform os a h)"

text \<open>\<open>if err := f(); err != nil { return e }\<close> followed by the rest of the function.\<close>

type_synonym 'e effect = "host_log \<Rightarrow> 'e option \<times> host_log"

definition attempt :: "os \<Rightarrow> host_action \<Rightarrow> 'e \<Rightarrow> 'e effect \<Rightarrow> 'e effect" where
  "attempt os a e k h = (case perform os a h of (ok, h') \<Rightarrow> if ok then k h' else (Some e, h'))"

definition return_nil :: "'e effect" where
  "return_nil h = (None, h)"

text \<open>\<open>adds P f\<close>: the effect only appends to the history, and only actions in \<open>P\<close>.\<close>

definition adds :: "(host_action \<Rightarrow> bool) \<Rightarrow> 'e effect \<Rightarrow> bool" where
  "adds P f \<longleftrightarrow> (\<forall>h. \<exists>w. snd (f h) = h @ w \<and> list_all (P \<circ> fst) w)"

section \<open>Paths\<close>

definition clean_elem :: "bool \<Rightarrow> string \<Rightarrow> string list \<Rightarrow> string list" where
  "clean_elem rooted e st =
     (if e = [] \<or> e = ''.'' then st
      else if e = ''..'' then
        (case st of
           [] \<Rightarrow> if rooted then [] else [''..'']
         | x # xs \<Rightarrow> if x = ''..'' then ''..'' # st else xs)
      else e # st)"

definition path_Clean :: "string \<Rightarrow> string" where
  "path_Clean p =
     (if p = [] then ''.''
      else
        (let rooted = (hd p = CHR ''/'');
             out = Join ''/'' (rev (fold (clean_elem rooted) (Split (CHR ''/'') p) []))
         in if rooted then CHR ''/'' # out else if out = [] then ''.'' else out))"

definition path_Join :: "string list \<Rightarrow> string" where
  "path_Join es =
     (case dropWhile (\<lambda>e. e = []) es of
        [] \<Rightarrow> []
      | fs \<Rightarrow> path_Clean (Join ''/'' fs))"

text \<open>A clean absolute path: \<open>/\<close> followed by plain elements.\<close>

definition plain_elem :: "string \<Rightarrow> bool" where
  "plain_elem e \<longleftrightarrow> e \<noteq> [] \<and> e \<noteq> ''.'' \<and> e \<noteq> ''..'' \<and> CHR ''/'' \<notin> set e"

definition abs_path :: "string list \<Rightarrow> string" where
  "abs_path es = CHR ''/'' # Join ''/'' es"

section \<open>Quoting\<close>

text \<open>\<open>strconv.Quote\<close>; whether a rune above ASCII is printable is a table of \<open>unicode\<close>.\<close>

definition hex_digit :: "nat \<Rightarrow> char" where
  "hex_digit n = digit_char (n mod 16)"

definition hex_fixed :: "nat \<Rightarrow> nat \<Rightarrow> string" where
  "hex_fixed w n = map (\<lambda>i. hex_digit (n div 16 ^ i)) (rev [0..<w])"

definition utf8_rune :: "string \<Rightarrow> nat" where
  "utf8_rune s =
     (let b = (\<lambda>i. (of_char (s ! i) :: nat) mod 64)
      in case utf8_len s of
           Suc 0 \<Rightarrow> of_char (s ! 0)
         | Suc (Suc 0) \<Rightarrow> (of_char (s ! 0) mod 32) * 64 + b 1
         | Suc (Suc (Suc 0)) \<Rightarrow> (of_char (s ! 0) mod 16) * 4096 + b 1 * 64 + b 2
         | _ \<Rightarrow> (of_char (s ! 0) mod 8) * 262144 + b 1 * 4096 + b 2 * 64 + b 3)"

definition quote_ascii :: "char \<Rightarrow> string" where
  "quote_ascii c =
     (let n = (of_char c :: nat)
      in if c = CHR 0x22 \<or> c = CHR 0x5C then [CHR 0x5C, c]
         else if 32 \<le> n \<and> n < 127 then [c]
         else if n = 7 then [CHR 0x5C, CHR ''a'']
         else if n = 8 then [CHR 0x5C, CHR ''b'']
         else if n = 12 then [CHR 0x5C, CHR ''f'']
         else if n = 10 then [CHR 0x5C, CHR ''n'']
         else if n = 13 then [CHR 0x5C, CHR ''r'']
         else if n = 9 then [CHR 0x5C, CHR ''t'']
         else if n = 11 then [CHR 0x5C, CHR ''v'']
         else [CHR 0x5C, CHR ''x''] @ hex_fixed 2 n)"

fun quote_runes :: "(nat \<Rightarrow> bool) \<Rightarrow> nat \<Rightarrow> string \<Rightarrow> string" where
  "quote_runes pr 0 s = []"
| "quote_runes pr (Suc k) [] = []"
| "quote_runes pr (Suc k) (c # s) =
     (if (of_char c :: nat) < 128 then quote_ascii c @ quote_runes pr k s
      else
        (let l = utf8_len (c # s); r = utf8_rune (c # s)
         in if l = 0 then [CHR 0x5C, CHR ''x''] @ hex_fixed 2 (of_char c) @ quote_runes pr k s
            else
              (if pr r then take l (c # s)
               else if r < 65536 then [CHR 0x5C, CHR ''u''] @ hex_fixed 4 r
               else [CHR 0x5C, CHR ''U''] @ hex_fixed 8 r) @ quote_runes pr k (drop l (c # s))))"

definition go_Quote :: "(nat \<Rightarrow> bool) \<Rightarrow> string \<Rightarrow> string" where
  "go_Quote pr s = [CHR 0x22] @ quote_runes pr (length s) s @ [CHR 0x22]"

section \<open>Lemmas\<close>

lemma fst_attempt:
  "fst (attempt os a e k h) = (if os h a then fst (k (h @ [(a, True)])) else Some e)"
  by (simp add: attempt_def perform_def)

lemma snd_attempt:
  "snd (attempt os a e k h) = (if os h a then snd (k (h @ [(a, True)])) else h @ [(a, False)])"
  by (simp add: attempt_def perform_def)

lemma attempt_eq:
  "attempt os a e k h = (if os h a then k (h @ [(a, True)]) else (Some e, h @ [(a, False)]))"
  by (simp add: attempt_def perform_def)

lemma ignore_eq: "ignore os a h = h @ [(a, os h a)]"
  by (simp add: ignore_def perform_def)

lemma adds_return_nil [simp, intro]: "adds P return_nil"
  by (simp add: adds_def return_nil_def)

lemma adds_attempt [intro]:
  assumes "P a" "adds P k"
  shows "adds P (attempt os a e k)"
  unfolding adds_def
proof
  fix h
  obtain w where "snd (k (h @ [(a, True)])) = (h @ [(a, True)]) @ w" "list_all (P \<circ> fst) w"
    using assms(2) unfolding adds_def by blast
  then have "snd (attempt os a e k h) = h @ (if os h a then (a, True) # w else [(a, False)]) \<and>
      list_all (P \<circ> fst) (if os h a then (a, True) # w else [(a, False)])"
    using assms(1) by (simp add: snd_attempt)
  then show "\<exists>w. snd (attempt os a e k h) = h @ w \<and> list_all (P \<circ> fst) w"
    by blast
qed

lemma addsE:
  assumes "adds P f" "f h = (e, h')"
  obtains w where "h' = h @ w" "list_all (P \<circ> fst) w"
  using assms unfolding adds_def by (metis snd_conv)

lemma Split_Join:
  assumes "es \<noteq> []" "list_all (\<lambda>e. c \<notin> set e) es"
  shows "Split c (Join [c] es) = es"
  using assms
proof (induction es)
  case (Cons e es)
  show ?case
  proof (cases "es = []")
    case True
    with Cons.prems show ?thesis by (simp add: Split_no_sep)
  next
    case False
    with Cons show ?thesis by (simp add: Join_Cons Split_append)
  qed
qed simp

lemma clean_elems:
  assumes "list_all plain_elem es"
  shows "fold (clean_elem r) es st = rev es @ st"
  using assms by (induction es arbitrary: st) (simp_all add: plain_elem_def clean_elem_def)

lemma Join_append:
  assumes "es \<noteq> []" "fs \<noteq> []"
  shows "Join sep (es @ fs) = Join sep es @ sep @ Join sep fs"
  using assms
proof (induction es)
  case (Cons e es)
  then show ?case by (cases "es = []") (simp_all add: Join_Cons)
qed simp

lemma path_Clean_abs:
  assumes "list_all plain_elem es" "es \<noteq> []"
  shows "path_Clean (abs_path es) = abs_path es"
proof -
  have "Split (CHR ''/'') (CHR ''/'' # Join ''/'' es) = [] # es"
    using assms Split_append [of "CHR ''/''" "[]" "Join ''/'' es"]
    by (simp add: Split_Join list_all_iff plain_elem_def)
  then show ?thesis
    using assms by (simp add: path_Clean_def abs_path_def clean_elems) (simp add: clean_elem_def clean_elems)
qed

lemma abs_path_append: "es \<noteq> [] \<Longrightarrow> fs \<noteq> [] \<Longrightarrow> abs_path (es @ fs) = abs_path es @ ''/'' @ Join ''/'' fs"
  by (simp add: abs_path_def Join_append)

lemma path_Join_abs:
  assumes "list_all plain_elem es" "es \<noteq> []" "list_all plain_elem fs"
  shows "path_Join (abs_path es # fs) = abs_path (es @ fs)"
proof (cases "fs = []")
  case True
  with assms show ?thesis
    using path_Clean_abs [of es] by (simp add: path_Join_def abs_path_def)
next
  case False
  with assms show ?thesis
    using path_Clean_abs [of "es @ fs"] by (simp add: path_Join_def abs_path_append Join_Cons) (simp add: abs_path_def)
qed

end
