(* ===== verification/Firecracker.thy ===== *)
theory Firecracker
  imports Host_Actions Netalloc
begin

text \<open>
  The package \<open>control-plane/internal/firecracker\<close>: the bridge, NAT rules and TAP devices
  (\<open>network.go\<close>), the per-VM root file system (\<open>rootfs.go\<close>) and the launch of the
  process (\<open>launcher.go\<close>). Every function is an effect on the history of host actions; the
  commands and files are the ones the code names.
\<close>

datatype fc_error = Fc_error string

text \<open>File modes, written in octal in the source.\<close>

abbreviation mode_644 :: nat where "mode_644 \<equiv> 420"
abbreviation mode_755 :: nat where "mode_755 \<equiv> 493"
abbreviation mode_600 :: nat where "mode_600 \<equiv> 384"
abbreviation mode_700 :: nat where "mode_700 \<equiv> 448"

section \<open>Network\<close>

definition runCmdSilent :: "os \<Rightarrow> string list \<Rightarrow> host_log \<Rightarrow> bool \<times> host_log" where
  "runCmdSilent os args h = perform os (Run args) h"

definition ensureLink :: "os \<Rightarrow> string \<Rightarrow> string \<Rightarrow> fc_error effect" where
  "ensureLink os nm kind h =
     (case runCmdSilent os [''ip'', ''link'', ''show'', nm] h of
        (ok, h1) \<Rightarrow>
          if ok then (None, h1)
          else attempt os (Run [''ip'', ''link'', ''add'', ''name'', nm, ''type'', kind]) (Fc_error ''bridge'') return_nil h1)"

definition nat_rule :: "string \<Rightarrow> string \<Rightarrow> string list" where
  "nat_rule subnet upstream = [''POSTROUTING'', ''-s'', subnet, ''-o'', upstream, ''-j'', ''MASQUERADE'']"

definition addIfMissing :: "os \<Rightarrow> string list \<Rightarrow> host_log \<Rightarrow> host_log" where
  "addIfMissing os args h =
     (case runCmdSilent os (''iptables'' # ''-C'' # args) h of
        (ok, h1) \<Rightarrow> if ok then h1 else ignore os (Run (''iptables'' # ''-A'' # args)) h1)"

definition fwd_out :: "string \<Rightarrow> string list" where
  "fwd_out br = [''FORWARD'', ''-i'', br, ''-j'', ''ACCEPT'']"

definition fwd_in :: "string \<Rightarrow> string list" where
  "fwd_in br = [''FORWARD'', ''-o'', br, ''-m'', ''state'', ''--state'', ''RELATED,ESTABLISHED'', ''-j'', ''ACCEPT'']"

definition ensure_rules :: "os \<Rightarrow> string \<Rightarrow> string \<Rightarrow> string \<Rightarrow> fc_error effect" where
  "ensure_rules os br subnet upstream h =
     (let permits = (\<lambda>h. (None, addIfMissing os (fwd_in br) (addIfMissing os (fwd_out br) h)))
      in case runCmdSilent os (''iptables'' # ''-t'' # ''nat'' # ''-C'' # nat_rule subnet upstream) h of
           (ok, h1) \<Rightarrow>
             if ok then permits h1
             else attempt os (Run (''iptables'' # ''-t'' # ''nat'' # ''-A'' # nat_rule subnet upstream)) (Fc_error ''nat add'')
                    permits h1)"

definition EnsureBridge :: "os \<Rightarrow> string \<Rightarrow> string \<Rightarrow> nat \<Rightarrow> string \<Rightarrow> string \<Rightarrow> fc_error effect" where
  "EnsureBridge os br hostAddr prefixLen subnet upstream h =
     (case ensureLink os br ''bridge'' h of
        (Some e, h1) \<Rightarrow> (Some e, h1)
      | (None, h1) \<Rightarrow>
          attempt os (Run [''ip'', ''addr'', ''replace'', hostAddr @ ''/'' @ show_nat prefixLen, ''dev'', br]) (Fc_error ''bridge addr'')
            (attempt os (Run [''ip'', ''link'', ''set'', br, ''up'']) (Fc_error ''bridge up'')
              (\<lambda>h2.
                let h3 = ignore os (WriteFile ''/proc/sys/net/ipv4/ip_forward'' (''1'' @ [CHR 0x0A]) mode_644) h2
                in if upstream = [] then (Some (Fc_error ''upstream iface required''), h3)
                   else ensure_rules os br subnet upstream h3)) h1)"

definition tap_add :: "string \<Rightarrow> host_action" where
  "tap_add tap = Run [''ip'', ''tuntap'', ''add'', tap, ''mode'', ''tap'']"

definition tap_del :: "string \<Rightarrow> host_action" where
  "tap_del tap = Run [''ip'', ''link'', ''del'', tap]"

definition CreateTAP :: "os \<Rightarrow> string \<Rightarrow> string \<Rightarrow> fc_error effect" where
  "CreateTAP os tap br h =
     (let attach =
        attempt os (Run [''ip'', ''link'', ''set'', tap, ''master'', br]) (Fc_error ''attach tap to bridge'')
          (attempt os (Run [''ip'', ''link'', ''set'', tap, ''up'']) (Fc_error ''tap up'') return_nil)
      in case perform os (tap_add tap) h of
           (True, h1) \<Rightarrow> attach h1
         | (False, h1) \<Rightarrow>
             (case runCmdSilent os [''ip'', ''link'', ''show'', tap] h1 of
                (True, h2) \<Rightarrow> attach h2
              | (False, h2) \<Rightarrow> (Some (Fc_error ''create tap''), h2)))"

definition DeleteTAP :: "os \<Rightarrow> string \<Rightarrow> host_log \<Rightarrow> host_log" where
  "DeleteTAP os tap h = ignore os (tap_del tap) (ignore os (Run [''ip'', ''link'', ''set'', tap, ''down'']) h)"

section \<open>Root file system\<close>

definition GuestUser :: string where
  "GuestUser = ''dev''"

definition GuestHome :: string where
  "GuestHome = ''/home/'' @ GuestUser"

definition guestUID :: nat where
  "guestUID = 1001"

definition guestGID :: nat where
  "guestGID = 1001"

definition reflinkCopy :: "os \<Rightarrow> string \<Rightarrow> string \<Rightarrow> fc_error effect \<Rightarrow> fc_error effect" where
  "reflinkCopy os src dst k h =
     attempt os (Run [''cp'', ''--reflink=auto'', src, dst]) (Fc_error ''copy rootfs'') k (ignore os (RemoveFile dst) h)"

definition writeOwnedJSON :: "os \<Rightarrow> string \<Rightarrow> json \<Rightarrow> fc_error effect \<Rightarrow> fc_error effect" where
  "writeOwnedJSON os path v k =
     attempt os (WriteFile path (print_json v) mode_600) (Fc_error ''write'')
       (attempt os (Chown path guestUID guestGID) (Fc_error ''chown'') k)"

definition network_unit :: "string \<Rightarrow> nat \<Rightarrow> string \<Rightarrow> string" where
  "network_unit ip prefixLen gateway =
     (let nl = [CHR 0x0A]
      in ''[Match]'' @ nl @ ''Name=eth0'' @ nl @ nl @ ''[Network]'' @ nl @
         ''Address='' @ ip @ ''/'' @ show_nat prefixLen @ nl @ ''Gateway='' @ gateway @ nl @
         ''DNS=1.1.1.1'' @ nl @ ''DNS=1.0.0.1'' @ nl)"

definition credentials :: "string \<Rightarrow> go_time \<Rightarrow> json" where
  "credentials oauthToken now =
     JObj [(''claudeAiOauth'', JObj
       [(''accessToken'', JStr oauthToken),
        (''expiresAt'', JNum (FormatInt ((now + 350 * 24 * 60 * Minute) div 1000000))),
        (''refreshToken'', JStr oauthToken),
        (''scopes'', JArr [JStr ''user:inference'', JStr ''user:profile''])])]"

record rootfs_args =
  ra_golden :: string
  ra_dst :: string
  ra_ip :: string
  ra_prefixLen :: nat
  ra_gateway :: string
  ra_hostname :: string
  ra_token :: string

text \<open>What is written into the mounted image, up to \<open>sync\<close>.\<close>

definition rootfs_files :: "os \<Rightarrow> (nat \<Rightarrow> bool) \<Rightarrow> go_time \<Rightarrow> rootfs_args \<Rightarrow> string \<Rightarrow> fc_error effect" where
  "rootfs_files os pr now a mnt =
     (let home = path_Join [mnt, GuestHome]; claudeDir = path_Join [home, ''.claude'']
      in attempt os (WriteFile (path_Join [mnt, ''etc/systemd/network/10-eth0.network''])
           (network_unit (ra_ip a) (ra_prefixLen a) (ra_gateway a)) mode_644) (Fc_error ''write networkd config'')
        (attempt os (WriteFile (path_Join [mnt, ''etc/hostname'']) (ra_hostname a @ [CHR 0x0A]) mode_644) (Fc_error ''write hostname'')
        (attempt os (WriteFile (path_Join [mnt, ''etc/profile.d/99-claude-token.sh''])
           (''export CLAUDE_CODE_OAUTH_TOKEN='' @ go_Quote pr (ra_token a) @ [CHR 0x0A]) mode_644) (Fc_error ''write profile.d'')
        (attempt os (MkdirAll claudeDir mode_700) (Fc_error ''mkdir .claude'')
        (attempt os (Chown claudeDir guestUID guestGID) (Fc_error ''chown .claude'')
        (writeOwnedJSON os (path_Join [claudeDir, ''.credentials.json'']) (credentials (ra_token a) now)
        (writeOwnedJSON os (path_Join [home, ''.claude.json'']) (JObj [(''hasCompletedOnboarding'', JBool True)])
        (attempt os (Run [''sync'']) (Fc_error ''sync'') return_nil))))))))"

definition umount_cmd :: "string \<Rightarrow> host_action" where
  "umount_cmd mnt = Run [''umount'', mnt]"

definition mount_cmd :: "string \<Rightarrow> string \<Rightarrow> host_action" where
  "mount_cmd dst mnt = Run [''mount'', ''-o'', ''loop'', dst, mnt]"

text \<open>From the mount on: the two deferred functions run in reverse order on every return.\<close>

definition rootfs_mounted :: "os \<Rightarrow> (nat \<Rightarrow> bool) \<Rightarrow> go_time \<Rightarrow> rootfs_args \<Rightarrow> string \<Rightarrow> fc_error effect" where
  "rootfs_mounted os pr now a mnt h =
     (let (err, h1, unmounted) =
        (case rootfs_files os pr now a mnt h of
           (Some e, h1) \<Rightarrow> (Some e, h1, False)
         | (None, h1) \<Rightarrow>
             (case perform os (umount_cmd mnt) h1 of
                (True, h2) \<Rightarrow> (None, h2, True)
              | (False, h2) \<Rightarrow> (Some (Fc_error ''umount''), h2, False)))
      in (err, if unmounted then h1 else ignore os (umount_cmd mnt) h1))"

definition PrepareRootfs :: "os \<Rightarrow> (nat \<Rightarrow> bool) \<Rightarrow> go_time \<Rightarrow> string \<Rightarrow> rootfs_args \<Rightarrow> fc_error effect" where
  "PrepareRootfs os pr now mnt a =
     reflinkCopy os (ra_golden a) (ra_dst a)
       (attempt os (MkdirTemp ''microvm-rootfs-'') (Fc_error ''mktemp'')
         (\<lambda>h. case attempt os (mount_cmd (ra_dst a) mnt) (Fc_error ''mount'') (rootfs_mounted os pr now a mnt) h of
                (err, h1) \<Rightarrow> (err, ignore os (RemoveFile mnt) h1)))"

section \<open>Launch\<close>

record launch_spec =
  ls_BinaryPath :: string
  ls_VMDir :: string
  ls_KernelPath :: string
  ls_RootfsPath :: string
  ls_VcpuCount :: int
  ls_MemMiB :: int
  ls_TapName :: string
  ls_GuestMAC :: string
  ls_BootArgs :: string
  ls_VsockCID :: "32 word"
  ls_VsockUDS :: string

definition default_boot_args :: string where
  "default_boot_args = ''console=ttyS0 reboot=k panic=1 pci=off rw''"

text \<open>The configuration of the machine: each struct with the field names of its JSON tags.\<close>

definition fcBootSource :: "string \<Rightarrow> string \<Rightarrow> json" where
  "fcBootSource kernelImagePath bootArgs =
     JObj [(''kernel_image_path'', JStr kernelImagePath), (''boot_args'', JStr bootArgs)]"

definition fcDrive :: "string \<Rightarrow> string \<Rightarrow> bool \<Rightarrow> bool \<Rightarrow> json" where
  "fcDrive driveID pathOnHost isRootDevice isReadOnly =
     JObj [(''drive_id'', JStr driveID), (''path_on_host'', JStr pathOnHost),
           (''is_root_device'', JBool isRootDevice), (''is_read_only'', JBool isReadOnly)]"

definition fcNetIface :: "string \<Rightarrow> string \<Rightarrow> string \<Rightarrow> json" where
  "fcNetIface ifaceID guestMAC hostDevName =
     JObj [(''iface_id'', JStr ifaceID), (''guest_mac'', JStr guestMAC), (''host_dev_name'', JStr hostDevName)]"

definition fcMachineConfig :: "int \<Rightarrow> int \<Rightarrow> bool \<Rightarrow> json" where
  "fcMachineConfig vcpuCount memSizeMiB smt =
     JObj [(''vcpu_count'', JNum (FormatInt vcpuCount)), (''mem_size_mib'', JNum (FormatInt memSizeMiB)),
           (''smt'', JBool smt)]"

definition fcVsock :: "32 word \<Rightarrow> string \<Rightarrow> json" where
  "fcVsock guestCID udsPath = JObj [(''guest_cid'', JNum (show_nat (unat guestCID))), (''uds_path'', JStr udsPath)]"

definition fcConfig :: "json \<Rightarrow> json list \<Rightarrow> json list \<Rightarrow> json \<Rightarrow> json option \<Rightarrow> json" where
  "fcConfig bootSource drives networkInterfaces machineConfig vsock =
     JObj ([(''boot-source'', bootSource), (''drives'', JArr drives), (''network-interfaces'', JArr networkInterfaces),
            (''machine-config'', machineConfig)]
           @ (case vsock of None \<Rightarrow> [] | Some v \<Rightarrow> [(''vsock'', v)]))"

definition fc_config :: "launch_spec \<Rightarrow> json" where
  "fc_config spec =
     fcConfig
       (fcBootSource (ls_KernelPath spec) (if ls_BootArgs spec = [] then default_boot_args else ls_BootArgs spec))
       [fcDrive ''rootfs'' (ls_RootfsPath spec) True False]
       [fcNetIface ''eth0'' (ls_GuestMAC spec) (ls_TapName spec)]
       (fcMachineConfig (ls_VcpuCount spec) (ls_MemMiB spec) False)
       (if 0 < ls_VsockCID spec \<and> ls_VsockUDS spec \<noteq> []
        then Some (fcVsock (ls_VsockCID spec) (ls_VsockUDS spec)) else None)"

text \<open>\<open>json.MarshalIndent(v, "", "  ")\<close>.\<close>

definition indent :: "nat \<Rightarrow> string" where
  "indent n = CHR 0x0A # replicate (2 * n) (CHR 0x20)"

fun print_indent :: "nat \<Rightarrow> json \<Rightarrow> string" where
  "print_indent n (JArr vs) =
     (if vs = [] then ''[]''
      else ''['' @ Join '','' (map (\<lambda>v. indent (Suc n) @ print_indent (Suc n) v) vs) @ indent n @ '']'')"
| "print_indent n (JObj ms) =
     (if ms = [] then ''{}''
      else ''{'' @ Join '','' (map (\<lambda>(k, v). indent (Suc n) @ print_string k @ '': '' @ print_indent (Suc n) v) ms)
             @ indent n @ ''}'')"
| "print_indent n v = print_json v"

record fc_process =
  pr_started :: bool
  pr_vmDir :: string

definition Launch :: "os \<Rightarrow> launch_spec \<Rightarrow> host_log \<Rightarrow> (fc_error + fc_process) \<times> host_log" where
  "Launch os spec h =
     (let sockPath = path_Join [ls_VMDir spec, ''fc.sock'']; configPath = path_Join [ls_VMDir spec, ''vm.json'']
      in case attempt os (MkdirAll (ls_VMDir spec) mode_755) (Fc_error ''mkdir vm dir'')
             (\<lambda>h1. attempt os (WriteFile configPath (print_indent 0 (fc_config spec)) mode_644) (Fc_error ''write config'')
               (attempt os StdinPipe (Fc_error ''stdin pipe'')
               (attempt os StdoutPipe (Fc_error ''stdout pipe'')
               (attempt os (Spawn [ls_BinaryPath spec, ''--api-sock'', sockPath, ''--config-file'', configPath])
                  (Fc_error ''start firecracker'') return_nil))) (ignore os (RemoveFile sockPath) h1)) h of
           (Some e, h2) \<Rightarrow> (Inl e, h2)
         | (None, h2) \<Rightarrow> (Inr \<lparr>pr_started = True, pr_vmDir = ls_VMDir spec\<rparr>, h2))"

text \<open>
  Stopping a process: the signals sent, given how long after SIGTERM it exits (\<open>None\<close>:
  only when killed), or none at all when it was never started.
\<close>

datatype signal = SIGTERM | SIGKILL

definition Stop :: "bool \<Rightarrow> duration option \<Rightarrow> signal list" where
  "Stop started exits =
     (if \<not> started then []
      else case exits of
             Some d \<Rightarrow> if d \<le> 5 * Second then [SIGTERM] else [SIGTERM, SIGKILL]
           | None \<Rightarrow> [SIGTERM, SIGKILL])"

section \<open>The image is never left mounted\<close>

definition file_action :: "host_action \<Rightarrow> bool" where
  "file_action a \<longleftrightarrow>
     (case a of
        WriteFile _ _ _ \<Rightarrow> True
      | MkdirAll _ _ \<Rightarrow> True
      | Chown _ _ _ \<Rightarrow> True
      | Run c \<Rightarrow> c = [''sync'']
      | _ \<Rightarrow> False)"

lemma file_action_simps [simp]:
  "file_action (WriteFile p x m)" "file_action (MkdirAll p m)" "file_action (Chown p u g)"
  "file_action (Run c) \<longleftrightarrow> c = [''sync'']" "\<not> file_action (RemoveFile p)" "\<not> file_action (MkdirTemp p)"
  by (simp_all add: file_action_def)

lemma rootfs_files_adds: "adds file_action (rootfs_files os pr now a mnt)"
  unfolding rootfs_files_def Let_def writeOwnedJSON_def
  by (intro adds_attempt adds_return_nil file_action_simps) simp

lemma rootfs_mounted_trace:
  assumes "rootfs_mounted os pr now a mnt h = (err, h')"
  shows "\<exists>w b. h' = h @ w @ [(umount_cmd mnt, b)] \<and> (err = None \<longrightarrow> b) \<and>
     list_all (\<lambda>(x, _). file_action x \<or> x = umount_cmd mnt) w"
proof -
  obtain e1 h1 where f: "rootfs_files os pr now a mnt h = (e1, h1)" by fastforce
  obtain w where w: "h1 = h @ w" "list_all (file_action \<circ> fst) w"
    using addsE [OF rootfs_files_adds f] by blast
  then have ok: "list_all (\<lambda>(x, _). file_action x \<or> x = umount_cmd mnt) w"
    by (auto simp: list_all_iff)
  show ?thesis
  proof (cases e1)
    case (Some e)
    with assms f w have "err = Some e \<and> h' = h @ w @ [(umount_cmd mnt, os h1 (umount_cmd mnt))]"
      by (simp add: rootfs_mounted_def ignore_eq)
    with ok show ?thesis by blast
  next
    case None
    show ?thesis
    proof (cases "os h1 (umount_cmd mnt)")
      case True
      with None assms f w have "err = None \<and> h' = h @ w @ [(umount_cmd mnt, True)]"
        by (simp add: rootfs_mounted_def perform_def)
      with ok show ?thesis by blast
    next
      case False
      let ?w = "w @ [(umount_cmd mnt, False)]"
      from False None assms f w have "err \<noteq> None \<and>
          h' = h @ ?w @ [(umount_cmd mnt, os (h @ ?w) (umount_cmd mnt))]"
        by (auto simp: rootfs_mounted_def perform_def ignore_eq)
      moreover have "list_all (\<lambda>(x, _). file_action x \<or> x = umount_cmd mnt) ?w"
        using ok by simp
      ultimately show ?thesis by blast
    qed
  qed
qed

text \<open>
  C40: A prepared image is never left mounted and never written unmounted. Whatever fails,
  once the mount has succeeded the last two actions of \<open>PrepareRootfs\<close> are an
  \<open>umount\<close> of the mount point and its removal, and success is only reported when that
  \<open>umount\<close> succeeded; when the mount has not succeeded, an error is returned and no file,
  directory or owner has been changed.
\<close>

theorem rootfs_unmounted:
  assumes "PrepareRootfs os pr now mnt a h = (err, h')"
  shows "\<exists>new. h' = h @ new \<and>
     (if (mount_cmd (ra_dst a) mnt, True) \<in> set new
      then \<exists>w b c. new = w @ [(umount_cmd mnt, b), (RemoveFile mnt, c)] \<and> (err = None \<longrightarrow> b)
      else err \<noteq> None \<and> list_all (\<lambda>(x, _). \<not> file_action x) new)"
proof -
  let ?rm = "RemoveFile (ra_dst a)" and ?cp = "Run [''cp'', ''--reflink=auto'', ra_golden a, ra_dst a]"
  let ?tmp = "MkdirTemp ''microvm-rootfs-''" and ?mt = "mount_cmd (ra_dst a) mnt"
  define h1 where "h1 = h @ [(?rm, os h ?rm)]"
  define h2 where "h2 = h1 @ [(?cp, True)]"
  define h3 where "h3 = h2 @ [(?tmp, True)]"
  have e: "PrepareRootfs os pr now mnt a h =
     (if os h1 ?cp then
        if os h2 ?tmp then
          if os h3 ?mt then
            (case rootfs_mounted os pr now a mnt (h3 @ [(?mt, True)]) of
               (e, g) \<Rightarrow> (e, g @ [(RemoveFile mnt, os g (RemoveFile mnt))]))
          else (Some (Fc_error ''mount''), h3 @ [(?mt, False), (RemoveFile mnt, os (h3 @ [(?mt, False)]) (RemoveFile mnt))])
        else (Some (Fc_error ''mktemp''), h2 @ [(?tmp, False)])
      else (Some (Fc_error ''copy rootfs''), h1 @ [(?cp, False)]))"
    by (simp add: PrepareRootfs_def reflinkCopy_def attempt_eq ignore_eq h1_def h2_def h3_def split: prod.splits)
  show ?thesis
  proof (cases "os h1 ?cp \<and> os h2 ?tmp \<and> os h3 ?mt")
    case True
    obtain g where g: "rootfs_mounted os pr now a mnt (h3 @ [(?mt, True)]) = (err, g)"
      "h' = g @ [(RemoveFile mnt, os g (RemoveFile mnt))]"
      using True assms by (auto simp: e split: prod.splits)
    obtain w b where w: "g = h3 @ [(?mt, True)] @ w @ [(umount_cmd mnt, b)]" "err = None \<longrightarrow> b"
      using rootfs_mounted_trace [OF g(1)] by auto
    let ?w = "[(?rm, os h ?rm), (?cp, True), (?tmp, True), (?mt, True)] @ w"
    have "h' = h @ ?w @ [(umount_cmd mnt, b), (RemoveFile mnt, os g (RemoveFile mnt))]"
      using g(2) w(1) by (simp add: h1_def h2_def h3_def)
    moreover have "(?mt, True) \<in> set ?w" by simp
    ultimately show ?thesis
      using w(2) by (intro exI [of _ "?w @ [(umount_cmd mnt, b), (RemoveFile mnt, os g (RemoveFile mnt))]"] conjI) auto
  next
    case False
    then show ?thesis
      using assms
      by (intro exI [of _ "drop (length h) h'"]) (auto simp: e h1_def h2_def h3_def mount_cmd_def split: if_splits)
  qed
qed

definition ex_rootfs :: rootfs_args where
  "ex_rootfs =
     \<lparr>ra_golden = ''golden.ext4'', ra_dst = ''vm.ext4'', ra_ip = ''172.20.0.2'', ra_prefixLen = 24,
      ra_gateway = ''172.20.0.1'', ra_hostname = ''vm-1'', ra_token = ''tok''\<rparr>"

theorem rootfs_unmounted_witness:
  "\<exists>h' w c. PrepareRootfs (\<lambda>_ _. True) (\<lambda>_. True) 0 ''/tmp/m'' ex_rootfs [] = (None, h') \<and>
     h' = w @ [(umount_cmd ''/tmp/m'', True), (RemoveFile ''/tmp/m'', c)]"
proof -
  let ?os = "\<lambda>_ _. True"
  obtain h' where h': "PrepareRootfs ?os (\<lambda>_. True) 0 ''/tmp/m'' ex_rootfs [] = (None, h')"
    "(mount_cmd (ra_dst ex_rootfs) ''/tmp/m'', True) \<in> set h'"
    by (simp add: PrepareRootfs_def reflinkCopy_def attempt_eq ignore_eq rootfs_mounted_def rootfs_files_def
        writeOwnedJSON_def return_nil_def perform_def Let_def)
  then show ?thesis
    using rootfs_unmounted [OF h'(1)] by auto
qed

text \<open>On success the image holds exactly the files of the plan, secrets readable by the guest user only.\<close>

definition rootfs_plan :: "(nat \<Rightarrow> bool) \<Rightarrow> go_time \<Rightarrow> rootfs_args \<Rightarrow> string \<Rightarrow> host_action list" where
  "rootfs_plan pr now a mnt =
     (let home = path_Join [mnt, GuestHome]; claudeDir = path_Join [home, ''.claude''];
          cred = path_Join [claudeDir, ''.credentials.json'']; state = path_Join [home, ''.claude.json'']
      in [WriteFile (path_Join [mnt, ''etc/systemd/network/10-eth0.network''])
            (network_unit (ra_ip a) (ra_prefixLen a) (ra_gateway a)) mode_644,
          WriteFile (path_Join [mnt, ''etc/hostname'']) (ra_hostname a @ [CHR 0x0A]) mode_644,
          WriteFile (path_Join [mnt, ''etc/profile.d/99-claude-token.sh''])
            (''export CLAUDE_CODE_OAUTH_TOKEN='' @ go_Quote pr (ra_token a) @ [CHR 0x0A]) mode_644,
          MkdirAll claudeDir mode_700, Chown claudeDir guestUID guestGID,
          WriteFile cred (print_json (credentials (ra_token a) now)) mode_600, Chown cred guestUID guestGID,
          WriteFile state (print_json (JObj [(''hasCompletedOnboarding'', JBool True)])) mode_600,
          Chown state guestUID guestGID, Run [''sync'']])"

lemma rootfs_files_success:
  assumes "rootfs_files os pr now a mnt h = (None, h')"
  shows "h' = h @ map (\<lambda>x. (x, True)) (rootfs_plan pr now a mnt)"
  using assms
  by (simp add: rootfs_files_def writeOwnedJSON_def attempt_eq return_nil_def rootfs_plan_def Let_def split: if_splits)

section \<open>Repeated starts add no second rule\<close>

text \<open>What the code relies on of \<open>iptables\<close>: \<open>-C\<close> succeeds exactly when the rule has been added.\<close>

definition iptables_checks :: "os \<Rightarrow> bool" where
  "iptables_checks os \<longleftrightarrow>
     (\<forall>h args. os h (Run (''iptables'' # ''-t'' # ''nat'' # ''-C'' # args)) =
          ((Run (''iptables'' # ''-t'' # ''nat'' # ''-A'' # args), True) \<in> set h)) \<and>
     (\<forall>h args. os h (Run (''iptables'' # ''-C'' # args)) =
          ((Run (''iptables'' # ''-A'' # args), True) \<in> set h))"

definition rule_added :: "string list \<Rightarrow> host_action \<times> bool" where
  "rule_added args = (Run (''iptables'' # args), True)"

text \<open>At most one successful \<open>-A\<close> of each of the rules of a bridge.\<close>

definition single_rules :: "string \<Rightarrow> string \<Rightarrow> string \<Rightarrow> host_log \<Rightarrow> bool" where
  "single_rules br subnet upstream h \<longleftrightarrow>
     count_list h (rule_added (''-t'' # ''nat'' # ''-A'' # nat_rule subnet upstream)) \<le> 1 \<and>
     count_list h (rule_added (''-A'' # fwd_out br)) \<le> 1 \<and>
     count_list h (rule_added (''-A'' # fwd_in br)) \<le> 1"

lemma fwd_distinct [simp]: "fwd_in br \<noteq> fwd_out br" "fwd_out br \<noteq> fwd_in br"
  by (simp_all add: fwd_in_def fwd_out_def)

lemma rule_added_eq [simp]:
  "(Run c, b) = rule_added args \<longleftrightarrow> c = ''iptables'' # args \<and> b"
  "rule_added args = (Run c, b) \<longleftrightarrow> c = ''iptables'' # args \<and> b"
  by (auto simp: rule_added_def)

lemma addIfMissing_single:
  assumes "iptables_checks os" "single_rules br subnet upstream h" "args = fwd_in br \<or> args = fwd_out br"
  shows "single_rules br subnet upstream (addIfMissing os args h)"
proof -
  have chk: "os h (Run (''iptables'' # ''-C'' # args)) \<longleftrightarrow> rule_added (''-A'' # args) \<in> set h"
    using assms(1) by (simp add: iptables_checks_def rule_added_def)
  have hd: "args \<noteq> [] \<and> hd args = ''FORWARD''"
    using assms(3) by (auto simp: fwd_in_def fwd_out_def)
  show ?thesis
  proof (cases "rule_added (''-A'' # args) \<in> set h")
    case True
    with chk assms(2) show ?thesis
      by (simp add: addIfMissing_def runCmdSilent_def perform_def single_rules_def rule_added_def)
  next
    case False
    then have "count_list h (rule_added (''-A'' # args)) = 0"
      by (simp add: count_list_0_iff)
    with chk False assms(2,3) hd show ?thesis
      by (auto simp: addIfMissing_def runCmdSilent_def perform_def ignore_eq single_rules_def rule_added_def)
  qed
qed

lemma single_rules_other:
  assumes "single_rules br subnet upstream h" "list_all (\<lambda>(x, _). \<forall>args. x \<noteq> Run (''iptables'' # args)) w"
  shows "single_rules br subnet upstream (h @ w)"
proof -
  have "count_list w (rule_added args) = 0" for args
    using assms(2) by (auto simp: count_list_0_iff list_all_iff rule_added_def)
  with assms(1) show ?thesis by (simp add: single_rules_def)
qed

lemma ensure_rules_single:
  assumes "iptables_checks os" "single_rules br subnet upstream h"
  shows "single_rules br subnet upstream (snd (ensure_rules os br subnet upstream h))"
proof -
  let ?A = "Run (''iptables'' # ''-t'' # ''nat'' # ''-A'' # nat_rule subnet upstream)"
  let ?C = "Run (''iptables'' # ''-t'' # ''nat'' # ''-C'' # nat_rule subnet upstream)"
  have permits: "single_rules br subnet upstream (addIfMissing os (fwd_in br) (addIfMissing os (fwd_out br) g))"
    if "single_rules br subnet upstream g" for g
    using that assms(1) by (simp add: addIfMissing_single)
  have chk: "os h ?C \<longleftrightarrow> (?A, True) \<in> set h"
    using assms(1) by (simp add: iptables_checks_def)
  have "single_rules br subnet upstream (h @ [(?C, os h ?C)])"
    using assms(2) by (simp add: single_rules_def rule_added_def)
  moreover have "single_rules br subnet upstream (h @ [(?C, False), (?A, b)])" if "\<not> os h ?C" for b
  proof -
    have "count_list h (rule_added (''-t'' # ''nat'' # ''-A'' # nat_rule subnet upstream)) = 0"
      using that chk by (simp add: count_list_0_iff rule_added_def)
    with assms(2) show ?thesis by (auto simp: single_rules_def rule_added_def)
  qed
  ultimately show ?thesis
    using permits
    by (cases "os h ?C") (simp_all add: ensure_rules_def runCmdSilent_def perform_def attempt_eq Let_def)
qed

lemma EnsureBridge_single:
  assumes "iptables_checks os" "single_rules br subnet upstream h"
  shows "single_rules br subnet upstream (snd (EnsureBridge os br addr len subnet upstream h))"
proof -
  have ens: "\<exists>w. snd (ensureLink os br ''bridge'' h) = h @ w \<and> list_all (\<lambda>(x, _). \<forall>args. x \<noteq> Run (''iptables'' # args)) w"
    by (simp add: ensureLink_def runCmdSilent_def perform_def attempt_eq return_nil_def)
  obtain e h1 where l: "ensureLink os br ''bridge'' h = (e, h1)" by fastforce
  with ens assms(2) have h1: "single_rules br subnet upstream h1"
    by (auto intro: single_rules_other)
  have more: "single_rules br subnet upstream (h1 @ w)" if "list_all (\<lambda>(x, _). \<forall>args. x \<noteq> Run (''iptables'' # args)) w" for w
    using h1 that by (rule single_rules_other)
  show ?thesis
  proof (cases e)
    case (Some x)
    with l h1 show ?thesis by (simp add: EnsureBridge_def)
  next
    case None
    with l show ?thesis
      using more
      by (cases "upstream = []")
        (simp_all add: EnsureBridge_def attempt_eq ignore_eq Let_def more ensure_rules_single assms(1))
  qed
qed

fun ensure_often :: "nat \<Rightarrow> os \<Rightarrow> string \<Rightarrow> string \<Rightarrow> nat \<Rightarrow> string \<Rightarrow> string \<Rightarrow> host_log \<Rightarrow> host_log" where
  "ensure_often 0 os br addr len subnet upstream h = h"
| "ensure_often (Suc n) os br addr len subnet upstream h =
     ensure_often n os br addr len subnet upstream (snd (EnsureBridge os br addr len subnet upstream h))"

text \<open>
  Restarting the daemon stacks no firewall rules. However often \<open>EnsureBridge\<close> runs on a
  host, and whatever else fails in between, the NAT rule and each of the two forwarding rules
  of the bridge is added at most once, provided \<open>iptables -C\<close> reports the rules that are
  there.
\<close>

theorem ensure_bridge_idempotent:
  assumes "iptables_checks os"
  shows "single_rules br subnet upstream (ensure_often n os br addr len subnet upstream [])"
proof -
  have "single_rules br subnet upstream (ensure_often n os br addr len subnet upstream h)"
    if "single_rules br subnet upstream h" for h
    using that by (induction n arbitrary: h) (simp_all add: EnsureBridge_single assms)
  then show ?thesis by (simp add: single_rules_def)
qed

text \<open>A host on which everything succeeds and \<open>iptables\<close> remembers what was added.\<close>

definition ex_os :: os where
  "ex_os h a =
     (case a of
        Run (x # y # args) \<Rightarrow>
          if x = ''iptables'' \<and> y = ''-C'' then (Run (''iptables'' # ''-A'' # args), True) \<in> set h
          else if x = ''iptables'' \<and> y = ''-t'' \<and> take 2 args = [''nat'', ''-C''] then
            (Run (''iptables'' # ''-t'' # ''nat'' # ''-A'' # drop 2 args), True) \<in> set h
          else True
      | _ \<Rightarrow> True)"

lemma iptables_checks_ex_os: "iptables_checks ex_os"
  by (simp add: iptables_checks_def ex_os_def)

theorem ensure_bridge_idempotent_witness:
  "iptables_checks ex_os \<and>
   single_rules ''fc-br0'' ''172.20.0.0/24'' ''eno1'' (ensure_often 3 ex_os ''fc-br0'' ''172.20.0.1'' 24 ''172.20.0.0/24'' ''eno1'' [])"
  using ensure_bridge_idempotent [OF iptables_checks_ex_os] iptables_checks_ex_os by simp

end
