(* ===== verification/Jailer.thy ===== *)
theory Jailer
  imports Firecracker
begin

text \<open>
  The jailed launch: \<open>control-plane/internal/vm/jailer.go\<close>, which turns a specification into
  the command line of a wrapper script, and the option loop of that script,
  \<open>infra/jailer/jailer.sh\<close>, which reads it back. The output of \<open>getent\<close> is an argument.
\<close>

record jailed_spec =
  js_spec :: launch_spec
  js_JailerBin :: string
  js_JailerUser :: string
  js_JailerUID :: int
  js_JailerGID :: int
  js_VMID :: string
  js_CPUQuotaMicros :: int
  js_MemBytes :: int
  js_SeccompProfile :: string
  js_ChrootBase :: string

datatype jail_error = VMID_required | Lookup_user | Jail_step fc_error

section \<open>Looking up the user\<close>

text \<open>The scan of \<open>splitColon\<close>: the parts so far and the one being read, both reversed.\<close>

fun split_colon_loop :: "string list \<Rightarrow> string \<Rightarrow> string \<Rightarrow> string list" where
  "split_colon_loop out part [] = rev (rev part # out)"
| "split_colon_loop out part (c # s) =
     (if c = CHR '':'' then split_colon_loop (rev part # out) [] s else split_colon_loop out (c # part) s)"

definition splitColon :: "string \<Rightarrow> string list" where
  "splitColon s = split_colon_loop [] [] s"

definition lookupUser :: "(string \<Rightarrow> string option) \<Rightarrow> string \<Rightarrow> (int \<times> int) option" where
  "lookupUser getent nm =
     (case getent nm of
        None \<Rightarrow> None
      | Some out \<Rightarrow>
          (let parts = splitColon out
           in if length parts < 4 then None
              else case Atoi (parts ! 2) of
                     None \<Rightarrow> None
                   | Some uid \<Rightarrow> (case Atoi (parts ! 3) of None \<Rightarrow> None | Some gid \<Rightarrow> Some (uid, gid))))"

section \<open>The launch\<close>

definition or_default :: "string \<Rightarrow> string \<Rightarrow> string" where
  "or_default s d = (if s = [] then d else s)"

definition jail_fill :: "jailed_spec \<Rightarrow> jailed_spec" where
  "jail_fill js =
     js\<lparr>js_JailerBin := or_default (js_JailerBin js) ''/usr/local/libexec/microvm-terminal/jailer.sh'',
        js_ChrootBase := or_default (js_ChrootBase js) ''/srv/jailer'',
        js_CPUQuotaMicros := (if js_CPUQuotaMicros js = 0 then 100000 else js_CPUQuotaMicros js),
        js_MemBytes := (if js_MemBytes js = 0 then 2 ^ 30 else js_MemBytes js),
        js_JailerUser := or_default (js_JailerUser js) ''microvm''\<rparr>"

definition jail_defaults :: "(string \<Rightarrow> string option) \<Rightarrow> jailed_spec \<Rightarrow> jail_error + jailed_spec" where
  "jail_defaults getent js =
     (if js_VMID js = [] then Inl VMID_required
      else
        (let js1 = jail_fill js
         in if js_JailerUID js1 = 0 \<or> js_JailerGID js1 = 0 then
              (case lookupUser getent (js_JailerUser js1) of
                 None \<Rightarrow> Inl Lookup_user
               | Some (uid, gid) \<Rightarrow>
                   Inr (js1\<lparr>js_JailerUID := (if js_JailerUID js1 = 0 then uid else js_JailerUID js1),
                            js_JailerGID := (if js_JailerGID js1 = 0 then gid else js_JailerGID js1)\<rparr>))
            else Inr js1))"

definition jail_flags :: "jailed_spec \<Rightarrow> string list" where
  "jail_flags js =
     (let sp = js_spec js
      in [''--vm-id'', js_VMID js,
          ''--uid'', Itoa (js_JailerUID js),
          ''--gid'', Itoa (js_JailerGID js),
          ''--chroot-base'', js_ChrootBase js,
          ''--cpu-quota-us'', FormatInt (js_CPUQuotaMicros js),
          ''--mem-bytes'', FormatInt (js_MemBytes js),
          ''--kernel'', ls_KernelPath sp,
          ''--rootfs'', ls_RootfsPath sp,
          ''--vm-dir'', ls_VMDir sp,
          ''--firecracker-bin'', ls_BinaryPath sp]
         @ (if js_SeccompProfile js \<noteq> [] then [''--seccomp-profile'', js_SeccompProfile js] else [])
         @ (if ls_VsockUDS sp \<noteq> [] then
              [''--vsock-uds'', ls_VsockUDS sp, ''--vsock-cid'', show_nat (unat (ls_VsockCID sp))]
            else [])
         @ (if ls_TapName sp \<noteq> [] then [''--tap'', ls_TapName sp, ''--guest-mac'', ls_GuestMAC sp] else [])
         @ (if ls_BootArgs sp \<noteq> [] then [''--boot-args'', ls_BootArgs sp] else [])
         @ [''--vcpu'', Itoa (ls_VcpuCount sp), ''--mem-mib'', Itoa (ls_MemMiB sp)])"

record jail_process =
  jp_vmDir :: string
  jp_vmID :: string
  jp_chroot :: string

definition LaunchJailed ::
  "os \<Rightarrow> (string \<Rightarrow> string option) \<Rightarrow> jailed_spec \<Rightarrow> host_log \<Rightarrow> (jail_error + jail_process) \<times> host_log" where
  "LaunchJailed os getent spec h =
     (case jail_defaults getent spec of
        Inl e \<Rightarrow> (Inl e, h)
      | Inr js \<Rightarrow>
          (case attempt os (MkdirAll (ls_VMDir (js_spec js)) mode_755) (Fc_error ''mkdir vm dir'')
                  (attempt os StdinPipe (Fc_error ''stdin pipe'')
                  (attempt os StdoutPipe (Fc_error ''stdout pipe'')
                  (attempt os (Spawn (''/usr/bin/env'' # ''bash'' # js_JailerBin js # jail_flags js)) (Fc_error ''start jailer'')
                     return_nil))) h of
             (Some e, h1) \<Rightarrow> (Inl (Jail_step e), h1)
           | (None, h1) \<Rightarrow>
               (Inr \<lparr>jp_vmDir = ls_VMDir (js_spec js), jp_vmID = js_VMID js,
                     jp_chroot = path_Join [js_ChrootBase js, ''firecracker'', js_VMID js, ''root'']\<rparr>, h1)))"

section \<open>The option loop of the script\<close>

record sh_opts =
  sh_VMID :: string
  sh_UID :: string
  sh_GID :: string
  sh_CHROOT_BASE :: string
  sh_CPU_QUOTA_US :: string
  sh_MEM_BYTES :: string
  sh_KERNEL :: string
  sh_ROOTFS :: string
  sh_VM_DIR :: string
  sh_FIRECRACKER_BIN :: string
  sh_SECCOMP_PROFILE :: string
  sh_VSOCK_UDS :: string
  sh_VSOCK_CID :: string
  sh_TAP :: string
  sh_GUEST_MAC :: string
  sh_BOOT_ARGS :: string
  sh_VCPU :: string
  sh_MEM_MIB :: string

definition sh_defaults :: sh_opts where
  "sh_defaults =
     \<lparr>sh_VMID = [], sh_UID = [], sh_GID = [], sh_CHROOT_BASE = ''/srv/jailer'', sh_CPU_QUOTA_US = ''100000'',
      sh_MEM_BYTES = ''1073741824'', sh_KERNEL = [], sh_ROOTFS = [], sh_VM_DIR = [],
      sh_FIRECRACKER_BIN = ''/usr/local/bin/firecracker'', sh_SECCOMP_PROFILE = [], sh_VSOCK_UDS = [],
      sh_VSOCK_CID = [], sh_TAP = [], sh_GUEST_MAC = [], sh_BOOT_ARGS = [], sh_VCPU = ''1'', sh_MEM_MIB = ''1024''\<rparr>"

definition sh_set :: "string \<Rightarrow> string \<Rightarrow> sh_opts \<Rightarrow> sh_opts option" where
  "sh_set opt v w =
     (if opt = ''--vm-id'' then Some (w\<lparr>sh_VMID := v\<rparr>)
      else if opt = ''--uid'' then Some (w\<lparr>sh_UID := v\<rparr>)
      else if opt = ''--gid'' then Some (w\<lparr>sh_GID := v\<rparr>)
      else if opt = ''--chroot-base'' then Some (w\<lparr>sh_CHROOT_BASE := v\<rparr>)
      else if opt = ''--cpu-quota-us'' then Some (w\<lparr>sh_CPU_QUOTA_US := v\<rparr>)
      else if opt = ''--mem-bytes'' then Some (w\<lparr>sh_MEM_BYTES := v\<rparr>)
      else if opt = ''--kernel'' then Some (w\<lparr>sh_KERNEL := v\<rparr>)
      else if opt = ''--rootfs'' then Some (w\<lparr>sh_ROOTFS := v\<rparr>)
      else if opt = ''--vm-dir'' then Some (w\<lparr>sh_VM_DIR := v\<rparr>)
      else if opt = ''--firecracker-bin'' then Some (w\<lparr>sh_FIRECRACKER_BIN := v\<rparr>)
      else if opt = ''--seccomp-profile'' then Some (w\<lparr>sh_SECCOMP_PROFILE := v\<rparr>)
      else if opt = ''--vsock-uds'' then Some (w\<lparr>sh_VSOCK_UDS := v\<rparr>)
      else if opt = ''--vsock-cid'' then Some (w\<lparr>sh_VSOCK_CID := v\<rparr>)
      else if opt = ''--tap'' then Some (w\<lparr>sh_TAP := v\<rparr>)
      else if opt = ''--guest-mac'' then Some (w\<lparr>sh_GUEST_MAC := v\<rparr>)
      else if opt = ''--boot-args'' then Some (w\<lparr>sh_BOOT_ARGS := v\<rparr>)
      else if opt = ''--vcpu'' then Some (w\<lparr>sh_VCPU := v\<rparr>)
      else if opt = ''--mem-mib'' then Some (w\<lparr>sh_MEM_MIB := v\<rparr>)
      else None)"

text \<open>An option without its value stops the script too, since \<open>$2\<close> is then unset under \<open>set -u\<close>.\<close>

fun sh_parse :: "string list \<Rightarrow> sh_opts \<Rightarrow> sh_opts option" where
  "sh_parse [] w = Some w"
| "sh_parse [opt] w = None"
| "sh_parse (opt # v # rest) w = (case sh_set opt v w of None \<Rightarrow> None | Some w' \<Rightarrow> sh_parse rest w')"

definition sh_required :: "sh_opts \<Rightarrow> bool" where
  "sh_required w \<longleftrightarrow>
     sh_VMID w \<noteq> [] \<and> sh_UID w \<noteq> [] \<and> sh_GID w \<noteq> [] \<and> sh_KERNEL w \<noteq> [] \<and> sh_ROOTFS w \<noteq> [] \<and>
     sh_VM_DIR w \<noteq> [] \<and> sh_FIRECRACKER_BIN w \<noteq> []"

definition sh_options :: "string list \<Rightarrow> sh_opts option" where
  "sh_options args =
     (case sh_parse args sh_defaults of
        None \<Rightarrow> None
      | Some w \<Rightarrow> if sh_required w then Some w else None)"

text \<open>\<open>SAFE_VMID\<close>; \<open>echo\<close> prints nothing for words it takes as options.\<close>

definition safe_char :: "char \<Rightarrow> bool" where
  "safe_char c \<longleftrightarrow>
     (let n = (of_char c :: nat)
      in 48 \<le> n \<and> n \<le> 57 \<or> 65 \<le> n \<and> n \<le> 90 \<or> 97 \<le> n \<and> n \<le> 122 \<or> n = 45)"

definition echo_option :: "string \<Rightarrow> bool" where
  "echo_option v \<longleftrightarrow> v \<noteq> [] \<and> hd v = CHR ''-'' \<and> tl v \<noteq> [] \<and> set (tl v) \<subseteq> {CHR ''n'', CHR ''e'', CHR ''E''}"

definition safe_vmid :: "string \<Rightarrow> string" where
  "safe_vmid v = (if echo_option v then [] else take 64 (map (\<lambda>c. if safe_char c then c else CHR ''_'') v))"

definition chroot_root :: "sh_opts \<Rightarrow> string" where
  "chroot_root w = sh_CHROOT_BASE w @ ''/firecracker/'' @ safe_vmid (sh_VMID w) @ ''/root''"

section \<open>Lemmas\<close>

lemma split_colon_loop_eq:
  "split_colon_loop out part s =
     rev out @ (rev part @ hd (Split (CHR '':'') s)) # tl (Split (CHR '':'') s)"
proof (induction s arbitrary: out part)
  case (Cons c s)
  then show ?case
    by (cases "Split (CHR '':'') s") (auto split: list.splits)
qed simp

lemma splitColon_Split: "splitColon s = Split (CHR '':'') s"
  by (simp add: splitColon_def split_colon_loop_eq)

lemma sh_parse_append:
  "even (length a) \<Longrightarrow> sh_parse (a @ b) w = (case sh_parse a w of None \<Rightarrow> None | Some w' \<Rightarrow> sh_parse b w')"
  by (induction a w rule: sh_parse.induct) (auto split: option.splits)

lemma sh_set_simps [simp]:
  "sh_set ''--vm-id'' v w = Some (w\<lparr>sh_VMID := v\<rparr>)"
  "sh_set ''--uid'' v w = Some (w\<lparr>sh_UID := v\<rparr>)"
  "sh_set ''--gid'' v w = Some (w\<lparr>sh_GID := v\<rparr>)"
  "sh_set ''--chroot-base'' v w = Some (w\<lparr>sh_CHROOT_BASE := v\<rparr>)"
  "sh_set ''--cpu-quota-us'' v w = Some (w\<lparr>sh_CPU_QUOTA_US := v\<rparr>)"
  "sh_set ''--mem-bytes'' v w = Some (w\<lparr>sh_MEM_BYTES := v\<rparr>)"
  "sh_set ''--kernel'' v w = Some (w\<lparr>sh_KERNEL := v\<rparr>)"
  "sh_set ''--rootfs'' v w = Some (w\<lparr>sh_ROOTFS := v\<rparr>)"
  "sh_set ''--vm-dir'' v w = Some (w\<lparr>sh_VM_DIR := v\<rparr>)"
  "sh_set ''--firecracker-bin'' v w = Some (w\<lparr>sh_FIRECRACKER_BIN := v\<rparr>)"
  "sh_set ''--seccomp-profile'' v w = Some (w\<lparr>sh_SECCOMP_PROFILE := v\<rparr>)"
  "sh_set ''--vsock-uds'' v w = Some (w\<lparr>sh_VSOCK_UDS := v\<rparr>)"
  "sh_set ''--vsock-cid'' v w = Some (w\<lparr>sh_VSOCK_CID := v\<rparr>)"
  "sh_set ''--tap'' v w = Some (w\<lparr>sh_TAP := v\<rparr>)"
  "sh_set ''--guest-mac'' v w = Some (w\<lparr>sh_GUEST_MAC := v\<rparr>)"
  "sh_set ''--boot-args'' v w = Some (w\<lparr>sh_BOOT_ARGS := v\<rparr>)"
  "sh_set ''--vcpu'' v w = Some (w\<lparr>sh_VCPU := v\<rparr>)"
  "sh_set ''--mem-mib'' v w = Some (w\<lparr>sh_MEM_MIB := v\<rparr>)"
  by (simp_all add: sh_set_def)

text \<open>What the script should see of a specification.\<close>

definition sh_expected :: "jailed_spec \<Rightarrow> sh_opts" where
  "sh_expected js =
     (let sp = js_spec js
      in \<lparr>sh_VMID = js_VMID js, sh_UID = FormatInt (js_JailerUID js), sh_GID = FormatInt (js_JailerGID js),
          sh_CHROOT_BASE = js_ChrootBase js, sh_CPU_QUOTA_US = FormatInt (js_CPUQuotaMicros js),
          sh_MEM_BYTES = FormatInt (js_MemBytes js), sh_KERNEL = ls_KernelPath sp, sh_ROOTFS = ls_RootfsPath sp,
          sh_VM_DIR = ls_VMDir sp, sh_FIRECRACKER_BIN = ls_BinaryPath sp, sh_SECCOMP_PROFILE = js_SeccompProfile js,
          sh_VSOCK_UDS = ls_VsockUDS sp,
          sh_VSOCK_CID = (if ls_VsockUDS sp = [] then [] else show_nat (unat (ls_VsockCID sp))),
          sh_TAP = ls_TapName sp, sh_GUEST_MAC = (if ls_TapName sp = [] then [] else ls_GuestMAC sp),
          sh_BOOT_ARGS = ls_BootArgs sp, sh_VCPU = FormatInt (ls_VcpuCount sp), sh_MEM_MIB = FormatInt (ls_MemMiB sp)\<rparr>)"

lemma sh_parse_optional:
  "sh_SECCOMP_PROFILE w = [] \<Longrightarrow>
     sh_parse (if v \<noteq> [] then [''--seccomp-profile'', v] else []) w = Some (w\<lparr>sh_SECCOMP_PROFILE := v\<rparr>)"
  "sh_VSOCK_UDS w = [] \<Longrightarrow> sh_VSOCK_CID w = [] \<Longrightarrow>
     sh_parse (if v \<noteq> [] then [''--vsock-uds'', v, ''--vsock-cid'', u] else []) w =
       Some (w\<lparr>sh_VSOCK_UDS := v, sh_VSOCK_CID := (if v = [] then [] else u)\<rparr>)"
  "sh_TAP w = [] \<Longrightarrow> sh_GUEST_MAC w = [] \<Longrightarrow>
     sh_parse (if v \<noteq> [] then [''--tap'', v, ''--guest-mac'', u] else []) w =
       Some (w\<lparr>sh_TAP := v, sh_GUEST_MAC := (if v = [] then [] else u)\<rparr>)"
  "sh_BOOT_ARGS w = [] \<Longrightarrow>
     sh_parse (if v \<noteq> [] then [''--boot-args'', v] else []) w = Some (w\<lparr>sh_BOOT_ARGS := v\<rparr>)"
  by simp_all

lemma sh_parse_flags: "sh_parse (jail_flags js) sh_defaults = Some (sh_expected js)"
proof -
  have even: "even (length (if c then [x, y] else []))" "even (length (if c then [x, y, z, u] else []))"
    for c and x y z u :: string
    by simp_all
  show ?thesis
    unfolding jail_flags_def Let_def sh_expected_def append_Cons append_Nil sh_parse.simps sh_set_simps option.case
    by (simp add: sh_parse_append [OF even(1)] sh_parse_append [OF even(2)] sh_parse_optional sh_defaults_def
        split del: if_split)
qed

lemma FormatInt_nonempty [simp]: "FormatInt i \<noteq> []"
  by (simp add: FormatInt_def)

lemma sh_options_flags:
  assumes "js_VMID js \<noteq> []" "ls_KernelPath (js_spec js) \<noteq> []" "ls_RootfsPath (js_spec js) \<noteq> []"
    "ls_VMDir (js_spec js) \<noteq> []" "ls_BinaryPath (js_spec js) \<noteq> []"
  shows "sh_options (jail_flags js) = Some (sh_expected js)"
  using assms by (simp add: sh_options_def sh_parse_flags sh_required_def sh_expected_def Let_def)

lemma jail_fill_keeps:
  "js_spec (jail_fill js) = js_spec js" "js_VMID (jail_fill js) = js_VMID js"
  "js_CPUQuotaMicros (jail_fill js) \<noteq> 0" "js_MemBytes (jail_fill js) \<noteq> 0"
  by (simp_all add: jail_fill_def)

lemma jail_defaults_keeps:
  assumes "jail_defaults getent spec = Inr js"
  shows "js_spec js = js_spec spec \<and> js_VMID js = js_VMID spec \<and> js_VMID spec \<noteq> [] \<and>
     js_CPUQuotaMicros js \<noteq> 0 \<and> js_MemBytes js \<noteq> 0"
  using assms
  by (auto simp: jail_defaults_def Let_def jail_fill_keeps split: if_splits option.splits prod.splits)

lemma safe_vmid_id:
  assumes "list_all safe_char v" "length v \<le> 64" "\<not> echo_option v"
  shows "safe_vmid v = v"
proof -
  have "map (\<lambda>c. if safe_char c then c else CHR ''_'') v = v"
    using assms(1) by (simp add: list_all_iff map_idI)
  with assms(2,3) show ?thesis by (simp add: safe_vmid_def)
qed

lemma LaunchJailed_spawn:
  assumes "LaunchJailed os getent spec h = (Inr p, h')"
  obtains js g where "jail_defaults getent spec = Inr js"
    "h' = h @ g @ [(Spawn (''/usr/bin/env'' # ''bash'' # js_JailerBin js # jail_flags js), True)]"
    "jp_chroot p = path_Join [js_ChrootBase js, ''firecracker'', js_VMID js, ''root'']"
  using assms
  by (auto simp: LaunchJailed_def attempt_eq return_nil_def split: sum.splits if_splits)

text \<open>
  The jailer script reads back what the control plane asked for. When a jailed launch
  succeeds, the last thing it did was to start the script with a command line whose options
  the script's own loop parses without error to the specification: the identifiers, the limits
  (never zero), the paths, the network, the boot arguments and the machine shape, the last ones
  absent exactly when they were empty; and for a path and an identifier made of safe characters
  the chroot the process handle reports is the one the script builds.
\<close>

theorem jail_args_roundtrip:
  assumes "LaunchJailed os getent spec h = (Inr p, h')"
    and "ls_KernelPath (js_spec spec) \<noteq> []" "ls_RootfsPath (js_spec spec) \<noteq> []"
    and "ls_VMDir (js_spec spec) \<noteq> []" "ls_BinaryPath (js_spec spec) \<noteq> []"
  shows "\<exists>js script flags w. jail_defaults getent spec = Inr js \<and>
     last h' = (Spawn (''/usr/bin/env'' # ''bash'' # script # flags), True) \<and>
     sh_options flags = Some w \<and> w = sh_expected js \<and> js_spec js = js_spec spec \<and> sh_VMID w = js_VMID spec \<and>
     js_CPUQuotaMicros js \<noteq> 0 \<and> js_MemBytes js \<noteq> 0 \<and>
     (\<forall>es. js_ChrootBase js = abs_path es \<longrightarrow> es \<noteq> [] \<longrightarrow> list_all plain_elem es \<longrightarrow>
        list_all safe_char (js_VMID spec) \<longrightarrow> length (js_VMID spec) \<le> 64 \<longrightarrow> \<not> echo_option (js_VMID spec) \<longrightarrow>
        jp_chroot p = chroot_root w)"
proof -
  obtain js g where js: "jail_defaults getent spec = Inr js"
    and h': "h' = h @ g @ [(Spawn (''/usr/bin/env'' # ''bash'' # js_JailerBin js # jail_flags js), True)]"
    and p: "jp_chroot p = path_Join [js_ChrootBase js, ''firecracker'', js_VMID js, ''root'']"
    using LaunchJailed_spawn [OF assms(1)] by blast
  have keep: "js_spec js = js_spec spec" "js_VMID js = js_VMID spec" "js_VMID spec \<noteq> []"
    "js_CPUQuotaMicros js \<noteq> 0" "js_MemBytes js \<noteq> 0"
    using jail_defaults_keeps [OF js] by simp_all
  have opts: "sh_options (jail_flags js) = Some (sh_expected js)"
    using assms(2-5) keep by (intro sh_options_flags) simp_all
  have chroot: "jp_chroot p = chroot_root (sh_expected js)"
    if es: "js_ChrootBase js = abs_path es" "es \<noteq> []" "list_all plain_elem es"
      and v: "list_all safe_char (js_VMID spec)" "length (js_VMID spec) \<le> 64" "\<not> echo_option (js_VMID spec)" for es
  proof -
    have "plain_elem (js_VMID spec)"
      using v(1) keep(3) by (auto simp: plain_elem_def list_all_iff safe_char_def Let_def)
    then have "path_Join (abs_path es # [''firecracker'', js_VMID spec, ''root'']) =
        abs_path (es @ [''firecracker'', js_VMID spec, ''root''])"
      using es by (intro path_Join_abs) (simp_all add: plain_elem_def)
    then show ?thesis
      using p es v keep(2) by (simp add: chroot_root_def sh_expected_def Let_def safe_vmid_id abs_path_append)
  qed
  show ?thesis
    using js h' keep opts chroot by (intro exI conjI) (auto simp: sh_expected_def Let_def)
qed

definition ex_jail :: jailed_spec where
  "ex_jail =
     \<lparr>js_spec =
        \<lparr>ls_BinaryPath = ''/bin/fc'', ls_VMDir = ''/vms/a1'', ls_KernelPath = ''/vmlinux'', ls_RootfsPath = ''/r.ext4'',
         ls_VcpuCount = 2, ls_MemMiB = 2048, ls_TapName = [], ls_GuestMAC = [], ls_BootArgs = ''rw'',
         ls_VsockCID = 3, ls_VsockUDS = []\<rparr>,
      js_JailerBin = ''/jailer.sh'', js_JailerUser = [], js_JailerUID = 990, js_JailerGID = 0,
      js_VMID = ''a1'', js_CPUQuotaMicros = 0, js_MemBytes = 0, js_SeccompProfile = [], js_ChrootBase = ''/srv''\<rparr>"

definition ex_getent :: "string \<Rightarrow> string option" where
  "ex_getent nm = Some ''microvm:x:990:991::/home:/bin/false''"

lemma ex_lookup: "lookupUser ex_getent ''microvm'' = Some (990, 991)"
  by code_simp

theorem jail_args_roundtrip_witness:
  "\<exists>p h' script flags w. LaunchJailed (\<lambda>_ _. True) ex_getent ex_jail [] = (Inr p, h') \<and>
     last h' = (Spawn (''/usr/bin/env'' # ''bash'' # script # flags), True) \<and> sh_options flags = Some w \<and>
     sh_UID w = FormatInt 990 \<and> sh_GID w = FormatInt 991 \<and> sh_BOOT_ARGS w = ''rw''"
proof -
  let ?js = "(jail_fill ex_jail)\<lparr>js_JailerUID := 990, js_JailerGID := 991\<rparr>"
  have js: "jail_defaults ex_getent ex_jail = Inr ?js"
    by (simp add: jail_defaults_def jail_fill_def ex_jail_def or_default_def ex_lookup)
  then obtain p h' where l: "LaunchJailed (\<lambda>_ _. True) ex_getent ex_jail [] = (Inr p, h')"
    by (simp add: LaunchJailed_def attempt_eq return_nil_def)
  have "sh_UID (sh_expected ?js) = FormatInt 990" "sh_GID (sh_expected ?js) = FormatInt 991"
    "sh_BOOT_ARGS (sh_expected ?js) = ''rw''"
    by (simp_all add: sh_expected_def Let_def jail_fill_def ex_jail_def)
  then show ?thesis
    using jail_args_roundtrip [OF l] l js by (fastforce simp: ex_jail_def)
qed

end
