(* ===== verification/Vm_Manager.thy ===== *)
theory Vm_Manager
  imports Guest_Agent Daemon_Config Jailer
begin

text \<open>
  The session manager, \<open>control-plane/internal/session/manager.go\<close>: creation of a VM with
  every clean-up path, destruction, shutdown. Random bytes, the UUID, the clock, the token
  file, the temporary directory and the operating system are the environment of a call.
\<close>

record manager =
  mg_cfg :: config
  mg_alloc :: allocator
  mg_upstream :: string
  mg_sessions :: "string \<rightharpoonup> session"
  mg_log :: host_log

section \<open>Helpers\<close>

definition shortID :: "string \<Rightarrow> string" where
  "shortID sid = (if length sid < 8 then sid else take 8 sid)"

definition readTokenFile :: "string option \<Rightarrow> string option" where
  "readTokenFile file = map_option TrimSpace file"

fun find_dev :: "string list \<Rightarrow> string option" where
  "find_dev (a # b # r) = (if a = ''dev'' then Some b else find_dev (b # r))"
| "find_dev _ = None"

definition detectUpstreamIface :: "string option \<Rightarrow> string option" where
  "detectUpstreamIface out = (case out of None \<Rightarrow> None | Some s \<Rightarrow> find_dev (Fields s))"

definition addr_String :: "ip4 option \<Rightarrow> string" where
  "addr_String a = (case a of None \<Rightarrow> ''invalid IP'' | Some w \<Rightarrow> ip4_string w)"

definition cmdlineTokenKey :: string where
  "cmdlineTokenKey = ''mvt.session_token''"

definition cmdlineVsockKey :: string where
  "cmdlineVsockKey = ''mvt.vsock_port''"

definition boot_args :: "string \<Rightarrow> string" where
  "boot_args sessionToken =
     ''console=ttyS0 reboot=k panic=1 pci=off rw '' @ cmdlineTokenKey @ ''='' @ sessionToken @ '' '' @
     cmdlineVsockKey @ ''='' @ FormatInt (int guestVsockPort)"

section \<open>Creation of the manager\<close>

definition NewManager ::
  "os \<Rightarrow> (string \<Rightarrow> 128 word option) \<Rightarrow> string option \<Rightarrow> config \<Rightarrow> host_log \<Rightarrow> (string + manager) \<times> host_log" where
  "NewManager os parse6 route cfg h =
     (case netalloc_New parse6 (cf_VMCIDR cfg) of
        Inl e \<Rightarrow> (Inl ''netalloc'', h)
      | Inr alloc \<Rightarrow>
          (case ParsePrefix parse6 (cf_VMCIDR cfg) of
             Some (Prefix4 subnet) \<Rightarrow>
               (case detectUpstreamIface route of
                  None \<Rightarrow> (Inl ''detect upstream'', h)
                | Some upstream \<Rightarrow>
                    (case EnsureBridge os (cf_BridgeName cfg) (addr_String (HostAddr alloc)) (PrefixLen alloc)
                            (cidr_string subnet) upstream h of
                       (Some e, h1) \<Rightarrow> (Inl ''ensure bridge'', h1)
                     | (None, h1) \<Rightarrow>
                         (Inr \<lparr>mg_cfg = cfg, mg_alloc = alloc, mg_upstream = upstream, mg_sessions = Map.empty,
                               mg_log = h1\<rparr>, h1)))
           | _ \<Rightarrow> (Inl ''prefix'', h)))"

section \<open>Building one VM\<close>

record create_env =
  ce_os :: os
  ce_getent :: "string \<Rightarrow> string option"
  ce_printable :: "nat \<Rightarrow> bool"
  ce_rand :: "8 word list option"
  ce_uuid :: string
  ce_tokenFile :: "string option"
  ce_mnt :: string
  ce_credsAt :: go_time
  ce_createdAt :: go_time

definition launchVM ::
  "os \<Rightarrow> (string \<Rightarrow> string option) \<Rightarrow> config \<Rightarrow> string \<Rightarrow> launch_spec \<Rightarrow> host_log \<Rightarrow> bool \<times> host_log" where
  "launchVM os getent cfg sid spec h =
     (if jc_Enabled (cf_Jailer cfg) then
        (case LaunchJailed os getent
                \<lparr>js_spec = spec, js_JailerBin = jc_Script (cf_Jailer cfg), js_JailerUser = jc_User (cf_Jailer cfg),
                 js_JailerUID = jc_UID (cf_Jailer cfg), js_JailerGID = jc_GID (cf_Jailer cfg), js_VMID = sid,
                 js_CPUQuotaMicros = JailerCPUQuotaMicros cfg, js_MemBytes = JailerMemBytes cfg,
                 js_SeccompProfile = jc_SeccompProfile (cf_Jailer cfg),
                 js_ChrootBase = jc_ChrootBase (cf_Jailer cfg)\<rparr> h of
           (r, h1) \<Rightarrow> (case r of Inl _ \<Rightarrow> False | Inr _ \<Rightarrow> True, h1))
      else (case Launch os spec h of (r, h1) \<Rightarrow> (case r of Inl _ \<Rightarrow> False | Inr _ \<Rightarrow> True, h1)))"

text \<open>The host side of \<open>cleanup\<close>; the address is released by the caller.\<close>

definition cleanup :: "os \<Rightarrow> string \<Rightarrow> string \<Rightarrow> host_log \<Rightarrow> host_log" where
  "cleanup os vmDir tap h = DeleteTAP os tap (ignore os (RemoveAll vmDir) h)"

definition vm_spec :: "config \<Rightarrow> lease \<Rightarrow> string \<Rightarrow> string \<Rightarrow> launch_spec" where
  "vm_spec cfg l vmDir sessionToken =
     \<lparr>ls_BinaryPath = cf_FirecrackerBin cfg, ls_VMDir = vmDir, ls_KernelPath = cf_KernelPath cfg,
      ls_RootfsPath = path_Join [vmDir, ''rootfs.ext4''], ls_VcpuCount = vc_Vcpu (cf_VM cfg),
      ls_MemMiB = vc_MemMiB (cf_VM cfg), ls_TapName = lease_tap l, ls_GuestMAC = lease_mac l,
      ls_BootArgs = boot_args sessionToken, ls_VsockCID = lease_cid l,
      ls_VsockUDS = path_Join [vmDir, ''fc.vsock'']\<rparr>"

definition new_session :: "create_env \<Rightarrow> lease \<Rightarrow> string \<Rightarrow> string \<Rightarrow> session" where
  "new_session env l vmDir sessionToken =
     zero_session
       \<lparr>ss_ID := ce_uuid env, ss_IP := Some (lease_ip l), ss_MAC := lease_mac l, ss_Tap := lease_tap l,
        ss_Hostname := ''vm-'' @ shortID (ce_uuid env), ss_SessionToken := sessionToken, ss_Process := True,
        ss_VmDir := vmDir, ss_createdAt := ce_createdAt env, ss_mgr := True, ss_done := Some False,
        ss_ready := Some False, ss_Serial := Some (NewSerialTee (256 * 1024))\<rparr>"

text \<open>Everything in \<open>Create\<close> between the allocation of the address and the registration.\<close>

definition provision :: "create_env \<Rightarrow> config \<Rightarrow> nat \<Rightarrow> ip4 option \<Rightarrow> lease \<Rightarrow> host_log \<Rightarrow> (session_error + session) \<times> host_log" where
  "provision env cfg plen gateway l h =
     (let os = ce_os env; tap = lease_tap l
      in case CreateTAP os tap (cf_BridgeName cfg) h of
           (Some e, h1) \<Rightarrow> (Inl (ErrStep ''create tap''), h1)
         | (None, h1) \<Rightarrow>
             (case ce_rand env of
                None \<Rightarrow> (Inl (ErrStep ''rand''), DeleteTAP os tap h1)
              | Some tokBytes \<Rightarrow>
                  (let sessionToken = hex_encode tokBytes; vmDir = path_Join [cf_VMDataDir cfg, ce_uuid env]
                   in case perform os (MkdirAll vmDir mode_755) h1 of
                        (False, h2) \<Rightarrow> (Inl (ErrStep ''mkdir vmdir''), DeleteTAP os tap h2)
                      | (True, h2) \<Rightarrow>
                          (case readTokenFile (ce_tokenFile env) of
                             None \<Rightarrow> (Inl (ErrStep ''read token file''), cleanup os vmDir tap h2)
                           | Some token \<Rightarrow>
                               (case PrepareRootfs os (ce_printable env) (ce_credsAt env) (ce_mnt env)
                                       \<lparr>ra_golden = cf_RootfsPath cfg, ra_dst = path_Join [vmDir, ''rootfs.ext4''],
                                        ra_ip = ip4_string (lease_ip l), ra_prefixLen = plen,
                                        ra_gateway = addr_String gateway,
                                        ra_hostname = ''vm-'' @ shortID (ce_uuid env), ra_token = token\<rparr> h2 of
                                  (Some e, h3) \<Rightarrow> (Inl (ErrStep ''prepare rootfs''), cleanup os vmDir tap h3)
                                | (None, h3) \<Rightarrow>
                                    (case launchVM os (ce_getent env) cfg (ce_uuid env)
                                            (vm_spec cfg l vmDir sessionToken) h3 of
                                       (False, h4) \<Rightarrow> (Inl (ErrStep ''launch''), cleanup os vmDir tap h4)
                                     | (True, h4) \<Rightarrow> (Inr (new_session env l vmDir sessionToken), h4)))))))"

section \<open>The operations\<close>

definition mgr_Count :: "manager \<Rightarrow> nat" where
  "mgr_Count m = card (dom (mg_sessions m))"

definition mgr_full :: "manager \<Rightarrow> bool" where
  "mgr_full m \<longleftrightarrow> int (mgr_Count m) \<ge> cf_MaxConcurrent (mg_cfg m)"

definition mgr_Create :: "create_env \<Rightarrow> manager \<Rightarrow> (session_error + session) \<times> manager" where
  "mgr_Create env m =
     (if mgr_full m then (Inl ErrAtCapacity, m)
      else case Alloc (mg_alloc m) of
             (a, Inl e) \<Rightarrow> (Inl (ErrStep ''alloc net''), m\<lparr>mg_alloc := a\<rparr>)
           | (a, Inr l) \<Rightarrow>
               (case provision env (mg_cfg m) (PrefixLen a) (HostAddr a) l (mg_log m) of
                  (Inl e, h) \<Rightarrow> (Inl e, m\<lparr>mg_alloc := Release (lease_ip l) a, mg_log := h\<rparr>)
                | (Inr s, h) \<Rightarrow>
                    (Inr s, m\<lparr>mg_alloc := a, mg_log := h, mg_sessions := (mg_sessions m)(ss_ID s \<mapsto> s)\<rparr>)))"

definition mgr_Get :: "string \<Rightarrow> manager \<Rightarrow> session option" where
  "mgr_Get sid m = mg_sessions m sid"

text \<open>
  \<open>Destroy\<close>: the part under the lock, and the teardown of the session it removed. The
  session as its other holders see it is returned with its \<open>done\<close> channel closed.
\<close>

definition destroy_remove :: "string \<Rightarrow> manager \<Rightarrow> (session option) \<times> manager" where
  "destroy_remove sid m =
     (case mg_sessions m sid of
        None \<Rightarrow> (None, m)
      | Some s \<Rightarrow> (Some s, m\<lparr>mg_sessions := (mg_sessions m)(sid := None)\<rparr>))"

definition release_IP :: "session \<Rightarrow> allocator \<Rightarrow> allocator" where
  "release_IP s a = (case ss_IP s of Some ip \<Rightarrow> Release ip a | None \<Rightarrow> a)"

definition destroy_teardown :: "os \<Rightarrow> session \<Rightarrow> manager \<Rightarrow> session \<times> manager" where
  "destroy_teardown os s m =
     (CloseDone s,
      m\<lparr>mg_alloc := release_IP s (mg_alloc m),
        mg_log := ignore os (RemoveAll (ss_VmDir s)) (DeleteTAP os (ss_Tap s) (mg_log m))\<rparr>)"

definition mgr_Destroy :: "os \<Rightarrow> string \<Rightarrow> manager \<Rightarrow> session_error option \<times> session option \<times> manager" where
  "mgr_Destroy os sid m =
     (case destroy_remove sid m of
        (None, m1) \<Rightarrow> (Some ErrNotFound, None, m1)
      | (Some s, m1) \<Rightarrow> (case destroy_teardown os s m1 of (s', m2) \<Rightarrow> (None, Some s', m2)))"

text \<open>\<open>Shutdown\<close> on the identifiers it collected, in the order the map gave them.\<close>

definition mgr_Shutdown :: "os \<Rightarrow> string list \<Rightarrow> manager \<Rightarrow> manager" where
  "mgr_Shutdown os ids m = fold (\<lambda>sid m. snd (snd (mgr_Destroy os sid m))) ids m"

section \<open>What a build leaves behind\<close>

lemma new_from_prefix_use [simp]: "alloc_in_use (new_from_prefix p) = {}"
  by (simp add: new_from_prefix_def Let_def)

lemma provision_Inr:
  assumes "provision env cfg plen gw l h = (Inr s, h')"
  obtains tokBytes where "ce_rand env = Some tokBytes"
    "s = new_session env l (path_Join [cf_VMDataDir cfg, ce_uuid env]) (hex_encode tokBytes)"
  using assms
  by (auto simp: provision_def Let_def split: prod.splits option.splits bool.splits)

text \<open>
  Every failure after the TAP device is set up ends with its deletion, and with the removal
  of the VM directory once that has been made: \<open>k\<close> is the history up to the clean-up.
\<close>

definition undone :: "create_env \<Rightarrow> config \<Rightarrow> lease \<Rightarrow> session_error \<Rightarrow> host_log \<Rightarrow> host_log" where
  "undone env cfg l e k =
     (if e = ErrStep ''rand'' \<or> e = ErrStep ''mkdir vmdir'' then DeleteTAP (ce_os env) (lease_tap l) k
      else cleanup (ce_os env) (path_Join [cf_VMDataDir cfg, ce_uuid env]) (lease_tap l) k)"

lemma provision_Inl:
  assumes "provision env cfg plen gw l h = (Inl e, h')" "e \<noteq> ErrStep ''create tap''"
  shows "\<exists>k. h' = undone env cfg l e k"
  using assms
  by (auto simp: provision_def undone_def Let_def split: prod.splits option.splits bool.splits)

lemma new_session_simps [simp]:
  "ss_ID (new_session env l d t) = ce_uuid env" "ss_IP (new_session env l d t) = Some (lease_ip l)"
  "ss_SessionToken (new_session env l d t) = t" "ss_Tap (new_session env l d t) = lease_tap l"
  "ss_VmDir (new_session env l d t) = d" "ss_done (new_session env l d t) = Some False"
  "ss_mgr (new_session env l d t)" "ss_guestConn (new_session env l d t) = None"
  by (simp_all add: new_session_def zero_session_def)

lemma provision_session:
  "provision env cfg plen gw l h = (Inr s, h') \<Longrightarrow> ss_IP s = Some (lease_ip l) \<and> ss_ID s = ce_uuid env"
  by (elim provision_Inr) simp

text \<open>
  A TAP device that is created but cannot be attached to the bridge stays: \<open>Create\<close> only
  releases the address on that path.
\<close>

lemma create_tap_leak:
  assumes "ce_os env h (tap_add (lease_tap l))"
    and "\<not> ce_os env (h @ [(tap_add (lease_tap l), True)])
          (Run [''ip'', ''link'', ''set'', lease_tap l, ''master'', cf_BridgeName cfg])"
  shows "provision env cfg plen gw l h =
     (Inl (ErrStep ''create tap''),
      h @ [(tap_add (lease_tap l), True), (Run [''ip'', ''link'', ''set'', lease_tap l, ''master'', cf_BridgeName cfg], False)])"
  using assms by (simp add: provision_def CreateTAP_def perform_def attempt_eq Let_def)


definition ex_create :: create_env where
  "ex_create =
     \<lparr>ce_os = ex_os, ce_getent = ex_getent, ce_printable = (\<lambda>_. True), ce_rand = None, ce_uuid = ''u-1'',
      ce_tokenFile = Some ''tok'', ce_mnt = ''/tmp/m'', ce_credsAt = 0, ce_createdAt = 0\<rparr>"

definition ex_manager :: manager where
  "ex_manager =
     \<lparr>mg_cfg = Defaults, mg_alloc = new_from_prefix example_net, mg_upstream = ''eno1'', mg_sessions = Map.empty,
      mg_log = []\<rparr>"


section \<open>Concurrent creation and destruction\<close>

text \<open>
  Any number of calls run at once; each is cut where the code takes or drops a lock: the
  capacity check, the allocation, the build, the registration; the removal from the map, the
  teardown. A VM that exits on its own is one more caller of \<open>Destroy\<close>. UUIDs are fresh.
\<close>

record mgr_sys =
  ms_mgr :: manager
  ms_checked :: nat
  ms_leased :: "lease list"
  ms_built :: "session list"
  ms_dying :: "session list"

definition mgr_start :: "mgr_sys \<Rightarrow> bool" where
  "mgr_start y \<longleftrightarrow>
     mg_sessions (ms_mgr y) = Map.empty \<and> alloc_ok (mg_alloc (ms_mgr y)) \<and> alloc_in_use (mg_alloc (ms_mgr y)) = {} \<and>
     ms_checked y = 0 \<and> ms_leased y = [] \<and> ms_built y = [] \<and> ms_dying y = []"

inductive mgr_step :: "mgr_sys \<Rightarrow> mgr_sys \<Rightarrow> bool" where
  check: "\<not> mgr_full (ms_mgr y) \<Longrightarrow> mgr_step y (y\<lparr>ms_checked := Suc (ms_checked y)\<rparr>)"
| alloc: "ms_checked y = Suc n \<Longrightarrow> Alloc (mg_alloc (ms_mgr y)) = (a, Inr l) \<Longrightarrow>
    mgr_step y (y\<lparr>ms_checked := n, ms_mgr := (ms_mgr y)\<lparr>mg_alloc := a\<rparr>, ms_leased := l # ms_leased y\<rparr>)"
| alloc_fail: "ms_checked y = Suc n \<Longrightarrow> Alloc (mg_alloc (ms_mgr y)) = (a, Inl e) \<Longrightarrow>
    mgr_step y (y\<lparr>ms_checked := n, ms_mgr := (ms_mgr y)\<lparr>mg_alloc := a\<rparr>\<rparr>)"
| build: "ms_leased y = ls1 @ l # ls2 \<Longrightarrow>
    provision env (mg_cfg (ms_mgr y)) (PrefixLen (mg_alloc (ms_mgr y))) (HostAddr (mg_alloc (ms_mgr y))) l
      (mg_log (ms_mgr y)) = (Inr s, h) \<Longrightarrow>
    mgr_step y (y\<lparr>ms_leased := ls1 @ ls2, ms_built := s # ms_built y, ms_mgr := (ms_mgr y)\<lparr>mg_log := h\<rparr>\<rparr>)"
| build_fail: "ms_leased y = ls1 @ l # ls2 \<Longrightarrow>
    provision env (mg_cfg (ms_mgr y)) (PrefixLen (mg_alloc (ms_mgr y))) (HostAddr (mg_alloc (ms_mgr y))) l
      (mg_log (ms_mgr y)) = (Inl e, h) \<Longrightarrow>
    mgr_step y (y\<lparr>ms_leased := ls1 @ ls2,
      ms_mgr := (ms_mgr y)\<lparr>mg_log := h, mg_alloc := Release (lease_ip l) (mg_alloc (ms_mgr y))\<rparr>\<rparr>)"
| register: "ms_built y = ss1 @ s # ss2 \<Longrightarrow> ss_ID s \<notin> dom (mg_sessions (ms_mgr y)) \<Longrightarrow>
    mgr_step y (y\<lparr>ms_built := ss1 @ ss2,
      ms_mgr := (ms_mgr y)\<lparr>mg_sessions := (mg_sessions (ms_mgr y))(ss_ID s \<mapsto> s)\<rparr>\<rparr>)"
| remove: "destroy_remove sid (ms_mgr y) = (Some s, m) \<Longrightarrow>
    mgr_step y (y\<lparr>ms_mgr := m, ms_dying := s # ms_dying y\<rparr>)"
| teardown: "ms_dying y = ss1 @ s # ss2 \<Longrightarrow> destroy_teardown os s (ms_mgr y) = (s', m) \<Longrightarrow>
    mgr_step y (y\<lparr>ms_mgr := m, ms_dying := ss1 @ ss2\<rparr>)"

text \<open>The addresses held outside the map: by builds in progress and by teardowns in progress.\<close>

definition transit :: "mgr_sys \<Rightarrow> ip4 option list" where
  "transit y = map (\<lambda>l. Some (lease_ip l)) (ms_leased y) @ map ss_IP (ms_built y) @ map ss_IP (ms_dying y)"

definition mgr_inv :: "mgr_sys \<Rightarrow> bool" where
  "mgr_inv y \<longleftrightarrow>
     alloc_ok (mg_alloc (ms_mgr y)) \<and> distinct (transit y) \<and>
     inj_on (map_option ss_IP \<circ> mg_sessions (ms_mgr y)) (dom (mg_sessions (ms_mgr y))) \<and>
     ss_IP ` ran (mg_sessions (ms_mgr y)) \<inter> set (transit y) = {} \<and>
     Some ` alloc_in_use (mg_alloc (ms_mgr y)) = ss_IP ` ran (mg_sessions (ms_mgr y)) \<union> set (transit y)"

lemma mgr_start_inv: "mgr_start y \<Longrightarrow> mgr_inv y"
  by (simp add: mgr_start_def mgr_inv_def transit_def)

lemma ran_delete_ip:
  assumes "inj_on (map_option ss_IP \<circ> m) (dom m)" "m k = Some s"
  shows "ss_IP ` ran (m(k := None)) = ss_IP ` ran m - {ss_IP s}"
proof (intro equalityI subsetI)
  fix x
  assume "x \<in> ss_IP ` ran (m(k := None))"
  then obtain j t where j: "j \<noteq> k" "m j = Some t" "x = ss_IP t"
    by (auto simp: ran_def split: if_splits)
  then have "x \<noteq> ss_IP s"
    using inj_onD [OF assms(1), of j k] assms(2) by auto
  then show "x \<in> ss_IP ` ran m - {ss_IP s}"
    using j by (auto intro: ranI)
next
  fix x
  assume "x \<in> ss_IP ` ran m - {ss_IP s}"
  then obtain j t where j: "m j = Some t" "x = ss_IP t" "x \<noteq> ss_IP s"
    by (auto simp: ran_def)
  then have "(m(k := None)) j = Some t"
    using assms(2) by auto
  then have "t \<in> ran (m(k := None))"
    by (rule ranI)
  then show "x \<in> ss_IP ` ran (m(k := None))"
    using j by simp
qed

lemma inj_on_upd_ip:
  assumes "inj_on (map_option ss_IP \<circ> m) (dom m)" "ss_IP s \<notin> ss_IP ` ran m"
  shows "inj_on (map_option ss_IP \<circ> m(k \<mapsto> s)) (dom (m(k \<mapsto> s)))"
proof -
  have no: "map_option ss_IP (m j) \<noteq> Some (ss_IP s)" for j
  proof
    assume "map_option ss_IP (m j) = Some (ss_IP s)"
    then obtain t where "m j = Some t" "ss_IP t = ss_IP s" by auto
    then have "ss_IP s \<in> ss_IP ` ran m" by (metis ranI imageI)
    with assms(2) show False ..
  qed
  show ?thesis
  proof (rule inj_onI)
    fix a b
    assume "a \<in> dom (m(k \<mapsto> s))" "b \<in> dom (m(k \<mapsto> s))"
      "(map_option ss_IP \<circ> m(k \<mapsto> s)) a = (map_option ss_IP \<circ> m(k \<mapsto> s)) b"
    then show "a = b"
      using inj_onD [OF assms(1), of a b] no [of a] no [of b]
      by (cases "a = k"; cases "b = k") (auto dest: sym)
  qed
qed

lemma ran_upd_ip: "k \<notin> dom m \<Longrightarrow> ss_IP ` ran (m(k \<mapsto> s)) = insert (ss_IP s) (ss_IP ` ran m)"
  by (simp add: domIff ran_map_upd)

lemma release_IP_use: "ss_IP s = Some ip \<Longrightarrow> release_IP s a = Release ip a"
  by (simp add: release_IP_def)

lemma Some_image_Diff: "Some ` (A - {x}) = Some ` A - {Some x}"
  by auto

lemma mgr_inv_step:
  assumes "mgr_step y z" "mgr_inv y"
  shows "mgr_inv z"
  using assms
proof cases
  case (check)
  with assms(2) show ?thesis by (simp add: mgr_inv_def transit_def)
next
  case (alloc n a l)
  have ok: "alloc_ok (mg_alloc (ms_mgr y))" using assms(2) by (simp add: mgr_inv_def)
  note netpool.alloc_fresh [OF ok alloc(3)] netpool.alloc_live [OF ok alloc(3)] netpool.alloc_ok' [OF ok alloc(3)]
  moreover from this(1) have "Some (lease_ip l) \<notin> Some ` alloc_in_use (mg_alloc (ms_mgr y))"
    by auto
  ultimately show ?thesis
    using assms(2) alloc(1) unfolding mgr_inv_def transit_def by simp
next
  case (alloc_fail n a e)
  have ok: "alloc_ok (mg_alloc (ms_mgr y))" using assms(2) by (simp add: mgr_inv_def)
  show ?thesis
    using assms(2) alloc_fail(1) netpool.alloc_fail [OF ok alloc_fail(3)] netpool.alloc_ok' [OF ok alloc_fail(3)]
    unfolding mgr_inv_def transit_def by simp
next
  case (build ls1 l ls2 env s h)
  then have "ss_IP s = Some (lease_ip l)"
    by (auto dest: provision_session)
  then show ?thesis
    using assms(2) build(1,2) unfolding mgr_inv_def transit_def by auto
next
  case (build_fail ls1 l ls2 env e h)
  show ?thesis
    using assms(2) build_fail(1,2)
    unfolding mgr_inv_def transit_def by (auto simp: netpool.release_live netpool.release_ok Some_image_Diff)
next
  case (register ss1 s ss2)
  let ?m = "mg_sessions (ms_mgr y)"
  have new: "ss_IP s \<notin> ss_IP ` ran ?m"
    using assms(2) register(2) unfolding mgr_inv_def transit_def by auto
  have "inj_on (map_option ss_IP \<circ> ?m(ss_ID s \<mapsto> s)) (dom (?m(ss_ID s \<mapsto> s)))"
    using assms(2) new unfolding mgr_inv_def by (intro inj_on_upd_ip) simp_all
  then show ?thesis
    using assms(2) register(1,2) ran_upd_ip [OF register(3), of s] new
    unfolding mgr_inv_def transit_def by (auto simp del: fun_upd_apply)
next
  case (remove sid s m)
  let ?m = "mg_sessions (ms_mgr y)"
  have s: "?m sid = Some s" and m: "m = (ms_mgr y)\<lparr>mg_sessions := ?m(sid := None)\<rparr>"
    using remove(2) by (auto simp: destroy_remove_def split: option.splits)
  have inj: "inj_on (map_option ss_IP \<circ> ?m) (dom ?m)"
    using assms(2) by (simp add: mgr_inv_def)
  have "inj_on (map_option ss_IP \<circ> ?m(sid := None)) (dom (?m(sid := None)))"
    using inj by (auto simp: inj_on_def)
  moreover have "ss_IP s \<in> ss_IP ` ran ?m"
    using s by (auto intro: ranI)
  ultimately show ?thesis
    using assms(2) remove(1) m ran_delete_ip [OF inj s]
    unfolding mgr_inv_def transit_def by (auto simp del: fun_upd_apply)
next
  case (teardown ss1 s ss2 os s' m)
  have "ss_IP s \<in> Some ` alloc_in_use (mg_alloc (ms_mgr y))"
    using assms(2) teardown(2) by (auto simp: mgr_inv_def transit_def)
  then obtain ip where ip: "ss_IP s = Some ip" by auto
  have m: "mg_sessions m = mg_sessions (ms_mgr y)" "mg_alloc m = Release ip (mg_alloc (ms_mgr y))"
    using teardown(3) by (auto simp: destroy_teardown_def release_IP_use [OF ip])
  show ?thesis
    using assms(2) teardown(1,2) m ip
    unfolding mgr_inv_def transit_def by (auto simp: netpool.release_live netpool.release_ok Some_image_Diff)
qed

interpretation mgr: invariant_system mgr_start mgr_step mgr_inv
  by unfold_locales (auto intro: mgr_start_inv mgr_inv_step)

text \<open>
  C15: Addresses never leak and are never shared, however creations, failures, destructions
  and VMs that exit on their own interleave: at every moment the addresses marked in use are
  exactly those of the registered sessions and of the builds and teardowns in progress, no two
  of these hold the same one, and when nothing is in progress their number is the number of
  sessions.
\<close>

theorem manager_addresses:
  assumes "reach mgr_start mgr_step y"
  shows "Some ` alloc_in_use (mg_alloc (ms_mgr y)) =
       ss_IP ` ran (mg_sessions (ms_mgr y)) \<union> set (transit y) \<and>
     distinct (transit y) \<and> ss_IP ` ran (mg_sessions (ms_mgr y)) \<inter> set (transit y) = {} \<and>
     (\<forall>a b s t. mg_sessions (ms_mgr y) a = Some s \<longrightarrow> mg_sessions (ms_mgr y) b = Some t \<longrightarrow>
        ss_IP s = ss_IP t \<longrightarrow> a = b) \<and>
     (transit y = [] \<longrightarrow> InUseCount (mg_alloc (ms_mgr y)) = mgr_Count (ms_mgr y))"
proof -
  let ?m = "mg_sessions (ms_mgr y)" and ?f = "map_option ss_IP \<circ> mg_sessions (ms_mgr y)"
  have inv: "mgr_inv y" using mgr.reach_inv [OF assms] .
  then have inj: "inj_on ?f (dom ?m)" by (simp add: mgr_inv_def)
  have uniq: "a = b" if "?m a = Some s" "?m b = Some t" "ss_IP s = ss_IP t" for a b s t
    using inj_onD [OF inj, of a b] that by auto
  have cnt: "InUseCount (mg_alloc (ms_mgr y)) = mgr_Count (ms_mgr y)" if "transit y = []"
  proof -
    have "?f ` dom ?m = Some ` ss_IP ` ran ?m"
      by (force simp: ran_def dom_def image_iff)
    then have "card (dom ?m) = card (Some ` ss_IP ` ran ?m)"
      using card_image [OF inj] by simp
    also have "\<dots> = card (Some ` alloc_in_use (mg_alloc (ms_mgr y)))"
      using inv that by (simp add: mgr_inv_def card_image)
    finally show ?thesis
      by (simp add: InUseCount_def mgr_Count_def card_image)
  qed
  have parts: "Some ` alloc_in_use (mg_alloc (ms_mgr y)) = ss_IP ` ran ?m \<union> set (transit y)"
    "distinct (transit y)" "ss_IP ` ran ?m \<inter> set (transit y) = {}"
    using inv unfolding mgr_inv_def by simp_all
  show ?thesis
    by (intro conjI allI impI) (rule parts | erule (2) uniq | erule cnt)+
qed

definition ex_mgr_sys :: mgr_sys where
  "ex_mgr_sys = \<lparr>ms_mgr = ex_manager, ms_checked = 0, ms_leased = [], ms_built = [], ms_dying = []\<rparr>"

theorem manager_addresses_witness:
  "\<exists>y. reach mgr_start mgr_step y \<and> ms_leased y = [nth_lease example_net 0] \<and>
     Some ` alloc_in_use (mg_alloc (ms_mgr y)) = {Some (lease_ip (nth_lease example_net 0))}"
proof -
  have "0 < subnet_size example_net - 2"
    by (simp add: subnet_size_def example_net_def)
  then obtain a where a: "Alloc (mg_alloc ex_manager) = (a, Inr (nth_lease example_net 0))"
    using Alloc_success [OF new_from_prefix_rep, of example_net] by (auto simp: ex_manager_def)
  let ?y1 = "ex_mgr_sys\<lparr>ms_checked := Suc 0\<rparr>"
  let ?y2 = "?y1\<lparr>ms_checked := 0, ms_mgr := ex_manager\<lparr>mg_alloc := a\<rparr>, ms_leased := [nth_lease example_net 0]\<rparr>"
  have "reach mgr_start mgr_step ex_mgr_sys"
    by (rule reach_start) (simp add: mgr_start_def ex_mgr_sys_def ex_manager_def new_from_prefix_ok)
  moreover have "mgr_step ex_mgr_sys ?y1"
    using mgr_step.check [of ex_mgr_sys]
    by (simp add: ex_mgr_sys_def ex_manager_def mgr_full_def mgr_Count_def Defaults_def)
  ultimately have r1: "reach mgr_start mgr_step ?y1" by (rule reach_step)
  have "mgr_step ?y1 ?y2"
    using mgr_step.alloc [of ?y1 0 a "nth_lease example_net 0"] a by (simp add: ex_mgr_sys_def)
  with r1 have r2: "reach mgr_start mgr_step ?y2" by (rule reach_step)
  then show ?thesis
    using manager_addresses [OF r2] by (intro exI [of _ ?y2]) (simp add: transit_def ex_mgr_sys_def ex_manager_def)
qed

section \<open>A VM the manager started is the one that answers\<close>

lemma hex_encode_plain: "list_all plain_char (hex_encode bs)"
  by (auto simp: list_all_iff dest!: hex_encode_chars intro: digit_char_plain)

lemma hex_encode_ascii: "ascii (hex_encode bs)"
  using hex_encode_plain [of bs] by (auto simp: ascii_def list_all_iff plain_char_def)

definition cmdline_words :: "string \<Rightarrow> string list" where
  "cmdline_words tok =
     [''console=ttyS0'', ''reboot=k'', ''panic=1'', ''pci=off'', ''rw'', ''mvt.session_token='' @ tok, ''mvt.vsock_port=5555'']"

lemma digit_char_5: "digit_char 5 = CHR ''5''"
  by code_simp

lemma cmdline_words_nonempty [simp]: "cmdline_words tok \<noteq> []"
  by (simp add: cmdline_words_def)

lemma FormatInt_port: "FormatInt (int guestVsockPort) = ''5555''"
  by (simp add: guestVsockPort_def FormatInt_def show_nat.simps digit_char_5)

lemma boot_args_words: "boot_args tok = Join '' '' (cmdline_words tok)"
  unfolding boot_args_def FormatInt_port
  by (simp add: cmdline_words_def cmdlineTokenKey_def cmdlineVsockKey_def)

lemma Sscanf_port: "Sscanf_uint32 ''5555'' = 5555"
  by (simp add: Sscanf_uint32_def is_digit_def char_digit_def read_nat_def)

text \<open>Words the kernel or the boot loader may add do not speak for the agent.\<close>

definition foreign_word :: "string \<Rightarrow> bool" where
  "foreign_word w \<longleftrightarrow> w \<noteq> [] \<and> list_all plain_char w \<and>
     \<not> HasPrefix w ''mvt.session_token='' \<and> \<not> HasPrefix w ''mvt.vsock_port=''"

lemma fold_foreign: "list_all foreign_word ws \<Longrightarrow> fold cmdline_word ws st = st"
  by (induction ws arbitrary: st) (simp_all add: foreign_word_def cmdline_word_def split: prod.splits)

lemma cmdline_words_read: "fold cmdline_word (cmdline_words tok) st = (tok, 5555)"
  using TrimPrefix_append [of "''mvt.session_token=''" tok] HasPrefix_append [of "''mvt.session_token=''" tok]
  by (cases st) (simp add: cmdline_words_def cmdline_word_def HasPrefix_def TrimPrefix_def Sscanf_port)

lemma readCmdlineParams_boot:
  assumes "list_all foreign_word pre" "list_all foreign_word post" "list_all plain_char tok"
    and "t = [] \<or> t = [CHR 0x0A]"
  shows "readCmdlineParams (Some (Join '' '' (pre @ cmdline_words tok @ post) @ t)) = (tok, 5555)"
proof -
  have "list_all (\<lambda>w. w \<noteq> [] \<and> list_all plain_char w) (pre @ cmdline_words tok @ post)"
    using assms by (auto simp: foreign_word_def list_all_iff cmdline_words_def plain_char_def)
  then show ?thesis
    using assms(1,2,4) by (simp add: readCmdlineParams_def Fields_cmdline fold_foreign cmdline_words_read)
qed

lemma Join_flatten:
  assumes "ws \<noteq> []"
  shows "Join sep (pre @ Join sep ws # post) = Join sep (pre @ ws @ post)"
proof -
  have tail: "Join sep (Join sep ws # post) = Join sep (ws @ post)"
    using assms by (cases "post = []") (simp_all add: Join_Cons Join_append)
  show ?thesis
    using assms tail by (cases "pre = []") (simp_all add: Join_append)
qed

lemma new_session_ready_inv: "ready_inv (new_session env l d t)"
  by (simp add: ready_inv_def new_session_def zero_session_def)


definition ex_create_ok :: create_env where
  "ex_create_ok = ex_create\<lparr>ce_os := \<lambda>_ _. True, ce_rand := Some [0xAB, 0x01]\<rparr>"

definition ex_session :: session where
  "ex_session = new_session ex_create_ok (nth_lease example_net 0) (path_Join [cf_VMDataDir Defaults, ''u-1'']) (hex_encode [0xAB, 0x01])"

lemma ex_provision:
  "\<exists>h'. provision ex_create_ok (Defaults\<lparr>cf_Jailer := (cf_Jailer Defaults)\<lparr>jc_Enabled := False\<rparr>\<rparr>) 24 None (nth_lease example_net 0) [] =
     (Inr ex_session, h')"
  by (simp add: provision_def ex_create_ok_def ex_create_def ex_session_def CreateTAP_def perform_def attempt_eq return_nil_def Let_def
      readTokenFile_def PrepareRootfs_def reflinkCopy_def rootfs_mounted_def rootfs_files_def writeOwnedJSON_def
      launchVM_def Launch_def ignore_eq)


end
