(* ===== verification/Warm_Pool.thy ===== *)
theory Warm_Pool
  imports Vm_Session
begin

text \<open>
  The pool of pre-booted VMs, \<open>control-plane/internal/session/warmpool.go\<close>. The buffered
  channel \<open>replenish\<close> carries no data, so it is the number of tokens in it. A launch is in
  progress between the decision of \<open>loop\<close> to start it and the end of \<open>buildOne\<close>.
\<close>

record warm_pool =
  wp_target :: nat
  wp_ready :: "session list"
  wp_replenish :: nat
  wp_cap :: nat
  wp_stop :: bool

definition NewWarmPool :: "int \<Rightarrow> warm_pool" where
  "NewWarmPool target =
     (let n = nat (if target \<le> 0 then 2 else target)
      in \<lparr>wp_target = n, wp_ready = [], wp_replenish = 0, wp_cap = n * 2, wp_stop = False\<rparr>)"

text \<open>A send that is dropped when the buffer is full.\<close>

definition poke :: "warm_pool \<Rightarrow> warm_pool" where
  "poke p = (if wp_replenish p < wp_cap p then p\<lparr>wp_replenish := Suc (wp_replenish p)\<rparr> else p)"

definition pool_Start :: "warm_pool \<Rightarrow> warm_pool" where
  "pool_Start p = (poke ^^ wp_target p) p"

definition pool_Stop :: "warm_pool \<Rightarrow> warm_pool" where
  "pool_Stop p = p\<lparr>wp_stop := True\<rparr>"

definition AcquireWarm :: "warm_pool \<Rightarrow> session option \<times> warm_pool" where
  "AcquireWarm p =
     (case wp_ready p of
        [] \<Rightarrow> (None, poke p)
      | s # rest \<Rightarrow> (Some s, poke (p\<lparr>wp_ready := rest\<rparr>)))"

definition pool_Size :: "warm_pool \<Rightarrow> nat" where
  "pool_Size p = length (wp_ready p)"

text \<open>
  One iteration of \<open>loop\<close>, when it takes a token: whether a launch is started. When both
  channels are ready the iteration may instead take the stop signal and end.
\<close>

definition loop_token :: "warm_pool \<Rightarrow> (warm_pool \<times> bool) option" where
  "loop_token p =
     (case wp_replenish p of
        0 \<Rightarrow> None
      | Suc n \<Rightarrow> Some (p\<lparr>wp_replenish := n\<rparr>, \<not> length (wp_ready p) \<ge> wp_target p))"

text \<open>The end of \<open>buildOne\<close>: the launched session, or none when the launch failed.\<close>

definition buildOne :: "session option \<Rightarrow> warm_pool \<Rightarrow> warm_pool" where
  "buildOne r p = (case r of None \<Rightarrow> p | Some s \<Rightarrow> p\<lparr>wp_ready := wp_ready p @ [s]\<rparr>)"

section \<open>The pool with its clients\<close>

record pool_sys =
  ps_pool :: warm_pool
  ps_building :: nat
  ps_launched :: "session list"
  ps_given :: "session list"

definition pool_start :: "nat \<Rightarrow> pool_sys \<Rightarrow> bool" where
  "pool_start target y \<longleftrightarrow> 0 < target \<and>
     y = \<lparr>ps_pool = pool_Start (NewWarmPool (int target)), ps_building = 0, ps_launched = [], ps_given = []\<rparr>"

text \<open>The steps the pool takes on its own while every launch succeeds.\<close>

inductive fill_step :: "pool_sys \<Rightarrow> pool_sys \<Rightarrow> bool" where
  take_token: "loop_token (ps_pool y) = Some (p, b) \<Longrightarrow>
    fill_step y (y\<lparr>ps_pool := p, ps_building := ps_building y + (if b then 1 else 0)\<rparr>)"
| built: "ps_building y = Suc n \<Longrightarrow>
    fill_step y (y\<lparr>ps_building := n, ps_pool := buildOne (Some s) (ps_pool y), ps_launched := ps_launched y @ [s]\<rparr>)"

text \<open>All steps: launches may fail, and clients take VMs out.\<close>

inductive pool_step :: "pool_sys \<Rightarrow> pool_sys \<Rightarrow> bool" where
  fill: "fill_step y z \<Longrightarrow> pool_step y z"
| failed: "ps_building y = Suc n \<Longrightarrow>
    pool_step y (y\<lparr>ps_building := n, ps_pool := buildOne None (ps_pool y)\<rparr>)"
| hit: "AcquireWarm (ps_pool y) = (Some s, p) \<Longrightarrow>
    pool_step y (y\<lparr>ps_pool := p, ps_given := ps_given y @ [s]\<rparr>)"
| miss: "AcquireWarm (ps_pool y) = (None, p) \<Longrightarrow> pool_step y (y\<lparr>ps_pool := p\<rparr>)"

inductive_cases fill_stepE: "fill_step y z"

definition pool_inv :: "pool_sys \<Rightarrow> bool" where
  "pool_inv y \<longleftrightarrow> ps_launched y = ps_given y @ wp_ready (ps_pool y) \<and>
     wp_replenish (ps_pool y) \<le> wp_cap (ps_pool y)"

definition fill_inv :: "nat \<Rightarrow> pool_sys \<Rightarrow> bool" where
  "fill_inv target y \<longleftrightarrow> wp_target (ps_pool y) = target \<and>
     wp_replenish (ps_pool y) + ps_building y + length (wp_ready (ps_pool y)) = target"

lemma poke_keeps [simp]:
  "wp_ready (poke p) = wp_ready p" "wp_target (poke p) = wp_target p" "wp_cap (poke p) = wp_cap p"
  by (simp_all add: poke_def)

lemma poke_bound: "wp_replenish p \<le> wp_cap p \<Longrightarrow> wp_replenish (poke p) \<le> wp_cap p"
  by (simp add: poke_def)

lemma pokes:
  "wp_replenish p + n \<le> wp_cap p \<Longrightarrow> (poke ^^ n) p = p\<lparr>wp_replenish := wp_replenish p + n\<rparr>"
  by (induction n) (simp_all add: poke_def)

lemma pool_Start_new:
  "0 < target \<Longrightarrow> pool_Start (NewWarmPool (int target)) =
     \<lparr>wp_target = target, wp_ready = [], wp_replenish = target, wp_cap = 2 * target, wp_stop = False\<rparr>"
  by (simp add: pool_Start_def NewWarmPool_def Let_def pokes)

lemma pool_start_inv: "pool_start target y \<Longrightarrow> pool_inv y"
  by (auto simp: pool_start_def pool_inv_def pool_Start_new)

lemma fill_start_inv: "pool_start target y \<Longrightarrow> fill_inv target y"
  by (auto simp: pool_start_def fill_inv_def pool_Start_new)

lemma fill_step_pool_inv: "fill_step y z \<Longrightarrow> pool_inv y \<Longrightarrow> pool_inv z"
  by (erule fill_stepE) (auto simp: pool_inv_def loop_token_def buildOne_def split: nat.splits)

lemma pool_step_inv:
  assumes "pool_step y z" "pool_inv y"
  shows "pool_inv z"
  using assms
proof cases
  case fill
  with assms(2) show ?thesis by (simp add: fill_step_pool_inv)
qed (auto simp: pool_inv_def AcquireWarm_def buildOne_def poke_def split: list.splits if_splits)

lemma fill_step_inv: "fill_step y z \<Longrightarrow> fill_inv target y \<Longrightarrow> fill_inv target z"
  by (erule fill_stepE) (auto simp: fill_inv_def loop_token_def buildOne_def split: nat.splits)

interpretation pool: invariant_system "pool_start target" pool_step pool_inv for target
  by unfold_locales (auto intro: pool_start_inv pool_step_inv)

interpretation filling: invariant_system "pool_start target" fill_step "fill_inv target" for target
  by unfold_locales (auto intro: fill_start_inv fill_step_inv)

section \<open>Properties\<close>

text \<open>What is left to do while the pool fills: taking a token and building are one unit each.\<close>

definition fill_work :: "pool_sys \<Rightarrow> nat" where
  "fill_work y = 2 * wp_replenish (ps_pool y) + ps_building y"

lemma fill_work_decreases: "fill_step y z \<Longrightarrow> fill_work z < fill_work y"
  by (erule fill_stepE) (auto simp: fill_work_def loop_token_def buildOne_def split: nat.splits)

lemma fill_blocked: "\<nexists>z. fill_step y z \<Longrightarrow> wp_replenish (ps_pool y) = 0 \<and> ps_building y = 0"
proof (rule ccontr)
  assume no: "\<nexists>z. fill_step y z" and "\<not> (wp_replenish (ps_pool y) = 0 \<and> ps_building y = 0)"
  then consider n where "wp_replenish (ps_pool y) = Suc n" | n where "ps_building y = Suc n"
    by (metis not0_implies_Suc)
  then show False
  proof cases
    case 1
    then show False using no fill_step.take_token [of y] by (auto simp: loop_token_def)
  next
    case 2
    then show False using no fill_step.built [OF 2] by blast
  qed
qed

lemma fill_reach_inv: "fill_step\<^sup>*\<^sup>* y z \<Longrightarrow> fill_inv target y \<Longrightarrow> fill_inv target z"
  by (rule filling.rtranclp_inv)


definition pool_one :: "nat \<Rightarrow> nat \<Rightarrow> session list \<Rightarrow> pool_sys" where
  "pool_one r b ss =
     \<lparr>ps_pool = \<lparr>wp_target = 1, wp_ready = ss, wp_replenish = r, wp_cap = 2, wp_stop = False\<rparr>,
      ps_building = b, ps_launched = ss, ps_given = []\<rparr>"

lemma pool_one_start: "pool_start 1 (pool_one 1 0 [])"
  by (simp add: pool_start_def pool_one_def pool_Start_new [of 1, simplified])


text \<open>
  The pool hands out each VM once, oldest first. Whatever clients, launches and failures do,
  the VMs handed out followed by the VMs still ready are the VMs launched, in the order their
  launches ended, and the number of pending refills never exceeds the channel.
\<close>

theorem warm_pool_fifo:
  assumes "reach (pool_start target) pool_step y"
  shows "ps_launched y = ps_given y @ wp_ready (ps_pool y) \<and> wp_replenish (ps_pool y) \<le> wp_cap (ps_pool y)"
  using pool.reach_inv [OF assms] by (simp add: pool_inv_def)

theorem warm_pool_fifo_witness:
  "reach (pool_start 1) pool_step (pool_one 1 0 []) \<and>
   ps_launched (pool_one 1 0 []) = ps_given (pool_one 1 0 []) @ wp_ready (ps_pool (pool_one 1 0 []))"
proof -
  have r: "reach (pool_start 1) pool_step (pool_one 1 0 [])"
    by (rule reach_start) (rule pool_one_start)
  then show ?thesis using warm_pool_fifo [OF r] by blast
qed

text \<open>
  The target does not bound the pool: every miss asks for one more VM while none is ready, so
  enough misses before the first launch ends make it arbitrarily large.
\<close>

lemma pool_builds_pile_up:
  assumes "0 < target"
  shows "\<exists>y. reach (pool_start target) pool_step y \<and> ps_building y = n \<and> wp_ready (ps_pool y) = [] \<and>
     wp_target (ps_pool y) = target \<and> wp_cap (ps_pool y) = 2 * target"
proof (induction n)
  case 0
  show ?case
    using assms
    by (intro exI [of _ "\<lparr>ps_pool = pool_Start (NewWarmPool (int target)), ps_building = 0, ps_launched = [], ps_given = []\<rparr>"])
      (auto simp: pool_Start_new pool_start_def intro: reach_start)
next
  case (Suc n)
  then obtain y where y: "reach (pool_start target) pool_step y" "ps_building y = n" "wp_ready (ps_pool y) = []"
    "wp_target (ps_pool y) = target" "wp_cap (ps_pool y) = 2 * target" by blast
  define x where "x = y\<lparr>ps_pool := poke (ps_pool y)\<rparr>"
  have "pool_step y x"
    unfolding x_def using y(3) by (intro pool_step.miss) (simp add: AcquireWarm_def)
  with y(1) have x: "reach (pool_start target) pool_step x" by (rule reach_step)
  obtain k where k: "wp_replenish (ps_pool x) = Suc k"
    using y(5) assms by (cases "wp_replenish (ps_pool x)") (auto simp: x_def poke_def split: if_splits)
  define z where "z = x\<lparr>ps_pool := (ps_pool x)\<lparr>wp_replenish := k\<rparr>, ps_building := ps_building x + 1\<rparr>"
  have "fill_step x z"
    using fill_step.take_token [of x "(ps_pool x)\<lparr>wp_replenish := k\<rparr>" True] k y assms
    by (simp add: z_def loop_token_def) (simp add: x_def)
  with x have "reach (pool_start target) pool_step z" by (meson pool_step.fill reach_step)
  then show ?case
    using y by (intro exI [of _ z]) (simp add: z_def x_def)
qed

lemma pool_overshoot:
  assumes "0 < target"
  shows "\<exists>y. reach (pool_start target) pool_step y \<and> wp_target (ps_pool y) = target \<and> pool_Size (ps_pool y) = n"
proof -
  have "\<exists>y. reach (pool_start target) pool_step y \<and> ps_building y = n - k \<and> length (wp_ready (ps_pool y)) = k \<and>
      wp_target (ps_pool y) = target" if "k \<le> n" for k
    using that
  proof (induction k)
    case 0
    then show ?case using pool_builds_pile_up [OF assms, of n] by auto
  next
    case (Suc k)
    then obtain y where y: "reach (pool_start target) pool_step y" "ps_building y = Suc (n - Suc k)"
      "length (wp_ready (ps_pool y)) = k" "wp_target (ps_pool y) = target" by (auto simp: Suc_diff_Suc)
    let ?z = "y\<lparr>ps_building := n - Suc k, ps_pool := buildOne (Some zero_session) (ps_pool y),
      ps_launched := ps_launched y @ [zero_session]\<rparr>"
    have "reach (pool_start target) pool_step ?z"
      by (rule reach_step [OF y(1) pool_step.fill [OF fill_step.built [OF y(2)]]])
    then show ?case
      using y(3,4) by (intro exI [of _ ?z]) (simp add: buildOne_def)
  qed
  from this [of n] show ?thesis by (auto simp: pool_Size_def)
qed

end
