(* ===== verification/Vm_Host.thy ===== *)
theory Vm_Host
  imports Vm_Manager Warm_Pool
begin

text \<open>
  The host, \<open>control-plane/internal/session/host.go\<close>, and the launcher that adapts the
  manager to it (\<open>launcher.go\<close>, \<open>managerLauncher\<close> in \<open>main.go\<close>). Sessions are shared
  objects, compared by identity, so the live map holds references into a store.
\<close>

type_synonym sref = nat

record host =
  ho_maxLive :: int
  ho_sessions :: "string \<rightharpoonup> sref"
  ho_onGone :: bool

definition NewHost :: "int \<Rightarrow> host" where
  "NewHost maxLive = \<lparr>ho_maxLive = (if maxLive \<le> 0 then 3 else maxLive), ho_sessions = Map.empty, ho_onGone = False\<rparr>"

text \<open>The host with what it works on; \<open>w_gone\<close> lists the calls of the \<open>onGone\<close> function.\<close>

record world =
  w_store :: "sref \<Rightarrow> session"
  w_next :: sref
  w_host :: host
  w_pool :: "warm_pool option"
  w_mgr :: manager
  w_watch :: "sref list"
  w_gone :: "sref list"

abbreviation w_live :: "world \<Rightarrow> string \<rightharpoonup> sref" where
  "w_live w \<equiv> ho_sessions (w_host w)"

definition OnGone :: "host \<Rightarrow> host" where
  "OnGone h = h\<lparr>ho_onGone := True\<rparr>"

definition upd_session :: "sref \<Rightarrow> (session \<Rightarrow> session) \<Rightarrow> world \<Rightarrow> world" where
  "upd_session r f w = w\<lparr>w_store := (w_store w)(r := f (w_store w r))\<rparr>"

definition new_ref :: "session \<Rightarrow> world \<Rightarrow> sref \<times> world" where
  "new_ref s w = (w_next w, w\<lparr>w_store := (w_store w)(w_next w := s), w_next := Suc (w_next w)\<rparr>)"

section \<open>Creation\<close>

definition host_Count :: "world \<Rightarrow> nat" where
  "host_Count w = card (dom (w_live w))"

definition host_full :: "world \<Rightarrow> bool" where
  "host_full w \<longleftrightarrow> int (host_Count w) \<ge> ho_maxLive (w_host w)"

definition host_watch :: "sref \<Rightarrow> world \<Rightarrow> world" where
  "host_watch r w = (if ss_done (w_store w r) = None then w else w\<lparr>w_watch := r # w_watch w\<rparr>)"

text \<open>The part of \<open>Create\<close> after the launch: identifier, registration, watcher.\<close>

definition host_register :: "string \<Rightarrow> sref \<Rightarrow> world \<Rightarrow> world" where
  "host_register uuid r w =
     (let w1 = (if ss_ID (w_store w r) = [] then upd_session r (\<lambda>s. s\<lparr>ss_ID := uuid\<rparr>) w else w)
      in host_watch r (w1\<lparr>w_host := (w_host w1)\<lparr>ho_sessions := (w_live w1)(ss_ID (w_store w1 r) \<mapsto> r)\<rparr>\<rparr>))"

type_synonym launcher = "world \<Rightarrow> (session_error + session) \<times> world"

definition host_Create :: "launcher \<Rightarrow> string \<Rightarrow> world \<Rightarrow> (session_error + sref) \<times> world" where
  "host_Create launch uuid w =
     (if host_full w then (Inl ErrAtCapacity, w)
      else case launch w of
             (Inl e, w1) \<Rightarrow> (Inl e, w1)
           | (Inr s, w1) \<Rightarrow> (case new_ref s w1 of (r, w2) \<Rightarrow> (Inr r, host_register uuid r w2)))"

definition host_CreateWarm :: "launcher \<Rightarrow> string \<Rightarrow> world \<Rightarrow> (session_error + sref) \<times> world" where
  "host_CreateWarm launch uuid w =
     (case w_pool w of
        None \<Rightarrow> host_Create launch uuid w
      | Some p \<Rightarrow>
          (case AcquireWarm p of
             (None, p') \<Rightarrow> host_Create launch uuid (w\<lparr>w_pool := Some p'\<rparr>)
           | (Some s, p') \<Rightarrow>
               (let w1 = w\<lparr>w_pool := Some p'\<rparr>
                in if host_full w1 then (Inl ErrAtCapacity, w1)
                   else case new_ref (s\<lparr>ss_Warm := True\<rparr>) w1 of (r, w2) \<Rightarrow> (Inr r, host_register uuid r w2))))"

text \<open>
  The launcher of the real host: the manager's \<open>Create\<close>, then the wait for the handshake.
  \<open>wait\<close> gives the session at the end of the wait and the result of \<open>WaitReady\<close>.
\<close>

definition managerLauncher :: "create_env \<Rightarrow> (session \<Rightarrow> session \<times> session_error option) \<Rightarrow> launcher" where
  "managerLauncher env wait w =
     (case mgr_Create env (w_mgr w) of
        (Inl e, m) \<Rightarrow> (Inl e, w\<lparr>w_mgr := m\<rparr>)
      | (Inr s, m) \<Rightarrow>
          (case wait s of
             (s', None) \<Rightarrow> (Inr s', w\<lparr>w_mgr := m\<rparr>)
           | (s', Some e) \<Rightarrow>
               (Inl ErrBootTimeout, w\<lparr>w_mgr := snd (snd (mgr_Destroy (ce_os env) (ss_ID s) m))\<rparr>)))"

definition mockLauncher :: "go_time \<Rightarrow> go_time \<Rightarrow> launcher" where
  "mockLauncher t0 t1 w = (Inr (NewInMemorySession t0 t1 []), w)"

section \<open>Lookup and destruction\<close>

definition host_Get :: "string \<Rightarrow> world \<Rightarrow> sref option" where
  "host_Get sid w = w_live w sid"

text \<open>\<open>List\<close> returns the live references in some order.\<close>

definition host_List :: "world \<Rightarrow> sref list \<Rightarrow> bool" where
  "host_List w rs \<longleftrightarrow> set rs = ran (w_live w) \<and> distinct rs"

definition host_remove :: "string \<Rightarrow> world \<Rightarrow> sref option \<times> world" where
  "host_remove sid w =
     (case w_live w sid of
        None \<Rightarrow> (None, w)
      | Some r \<Rightarrow> (Some r, w\<lparr>w_host := (w_host w)\<lparr>ho_sessions := (w_live w)(sid := None)\<rparr>\<rparr>))"

definition call_onGone :: "sref \<Rightarrow> world \<Rightarrow> world" where
  "call_onGone r w = (if ho_onGone (w_host w) then w\<lparr>w_gone := w_gone w @ [r]\<rparr> else w)"

text \<open>\<open>Destroy\<close> after the lock: teardown through the manager, then the deferred callback.\<close>

definition host_teardown :: "os \<Rightarrow> sref \<Rightarrow> world \<Rightarrow> session_error option \<times> world" where
  "host_teardown os r w =
     (let (err, w1) =
        (if ss_mgr (w_store w r) then
           (case mgr_Destroy os (ss_ID (w_store w r)) (w_mgr w) of (e, _, m) \<Rightarrow> (e, w\<lparr>w_mgr := m\<rparr>))
         else (None, w))
      in (if err \<noteq> None \<and> err \<noteq> Some ErrNotFound then err else None,
          call_onGone r (upd_session r CloseDone w1)))"

definition host_Destroy :: "os \<Rightarrow> string \<Rightarrow> world \<Rightarrow> session_error option \<times> world" where
  "host_Destroy os sid w =
     (case host_remove sid w of
        (None, w1) \<Rightarrow> (Some ErrNotFound, w1)
      | (Some r, w1) \<Rightarrow> host_teardown os r w1)"

text \<open>The watcher of a session, once its \<open>done\<close> channel is closed: the part under the lock.\<close>

definition watch_drop :: "sref \<Rightarrow> world \<Rightarrow> bool \<times> world" where
  "watch_drop r w =
     (let sid = ss_ID (w_store w r); w0 = w\<lparr>w_watch := remove1 r (w_watch w)\<rparr>
      in if w_live w sid = Some r then (True, w0\<lparr>w_host := (w_host w)\<lparr>ho_sessions := (w_live w)(sid := None)\<rparr>\<rparr>)
         else (False, w0))"

definition WarmPoolSize :: "world \<Rightarrow> nat" where
  "WarmPoolSize w = (case w_pool w of None \<Rightarrow> 0 | Some p \<Rightarrow> pool_Size p)"

section \<open>The idle reaper\<close>

definition idle_long :: "go_time \<Rightarrow> duration \<Rightarrow> session \<Rightarrow> bool" where
  "idle_long now timeout s \<longleftrightarrow>
     (case IdleSince s of None \<Rightarrow> False | Some since \<Rightarrow> \<not> time_sub now since < timeout)"

definition reap_one :: "os \<Rightarrow> go_time \<Rightarrow> duration \<Rightarrow> sref \<Rightarrow> world \<times> string list \<Rightarrow> world \<times> string list" where
  "reap_one os now timeout r st =
     (case st of
        (w, reaped) \<Rightarrow>
          if \<not> idle_long now timeout (w_store w r) then (w, reaped)
          else
            (case host_Destroy os (ss_ID (w_store w r)) w of
               (err, w1) \<Rightarrow>
                 if err \<noteq> None \<and> err \<noteq> Some ErrNotFound then (w1, reaped)
                 else (w1, reaped @ [ss_ID (w_store w r)])))"

text \<open>\<open>order\<close> is the order in which \<open>List\<close> returned the sessions.\<close>

definition ReapIdle :: "os \<Rightarrow> sref list \<Rightarrow> go_time \<Rightarrow> duration \<Rightarrow> world \<Rightarrow> world \<times> string list" where
  "ReapIdle os order now timeout w =
     (if timeout \<le> 0 then (w, []) else fold (reap_one os now timeout) order (w, []))"

text \<open>\<open>RunIdleReaper\<close> over a finite number of ticks, each with the moment and the order of \<open>List\<close>.\<close>

fun RunIdleReaper :: "os \<Rightarrow> duration \<Rightarrow> (go_time \<times> (world \<Rightarrow> sref list)) list \<Rightarrow> world \<Rightarrow> world" where
  "RunIdleReaper os timeout [] w = w"
| "RunIdleReaper os timeout ((now, order) # ticks) w =
     (if timeout \<le> 0 then w
      else RunIdleReaper os timeout ticks (fst (ReapIdle os (order w) now timeout w)))"

section \<open>Effect of a destruction\<close>

definition host_wf :: "world \<Rightarrow> bool" where
  "host_wf w \<longleftrightarrow> (\<forall>k r. w_live w k = Some r \<longrightarrow> ss_ID (w_store w r) = k)"

lemma host_wf_inj: "host_wf w \<Longrightarrow> w_live w a = Some r \<Longrightarrow> w_live w b = Some r \<Longrightarrow> a = b"
  unfolding host_wf_def by metis

lemma mgr_Destroy_error: "mgr_Destroy os sid m = (e, s, m') \<Longrightarrow> e = None \<or> e = Some ErrNotFound"
  by (auto simp: mgr_Destroy_def split: prod.splits option.splits)

lemma upd_session_simps [simp]:
  "w_store (upd_session r f w) = (w_store w)(r := f (w_store w r))" "w_host (upd_session r f w) = w_host w"
  "w_gone (upd_session r f w) = w_gone w" "w_next (upd_session r f w) = w_next w"
  "w_watch (upd_session r f w) = w_watch w" "w_mgr (upd_session r f w) = w_mgr w" "w_pool (upd_session r f w) = w_pool w"
  by (simp_all add: upd_session_def)

lemma host_teardown_effect:
  assumes "host_teardown os r w = (e, w')"
  shows "e = None" "w_host w' = w_host w" "w_store w' = (w_store w)(r := CloseDone (w_store w r))"
    "w_gone w' = (if ho_onGone (w_host w) then w_gone w @ [r] else w_gone w)" "w_next w' = w_next w" "w_watch w' = w_watch w"
  using assms
  by (auto simp: host_teardown_def Let_def call_onGone_def split: prod.splits if_splits dest: mgr_Destroy_error)

lemma host_Destroy_live:
  assumes "w_live w sid = Some r" "host_Destroy os sid w = (e, w')"
  shows "e = None" "w_live w' = (w_live w)(sid := None)" "w_store w' = (w_store w)(r := CloseDone (w_store w r))"
    "w_gone w' = (if ho_onGone (w_host w) then w_gone w @ [r] else w_gone w)"
    "ho_onGone (w_host w') = ho_onGone (w_host w)"
proof -
  let ?w = "w\<lparr>w_host := (w_host w)\<lparr>ho_sessions := (w_live w)(sid := None)\<rparr>\<rparr>"
  have t: "host_teardown os r ?w = (e, w')"
    using assms by (simp add: host_Destroy_def host_remove_def)
  show "e = None" "w_live w' = (w_live w)(sid := None)" "w_store w' = (w_store w)(r := CloseDone (w_store w r))"
    "w_gone w' = (if ho_onGone (w_host w) then w_gone w @ [r] else w_gone w)"
    "ho_onGone (w_host w') = ho_onGone (w_host w)"
    using host_teardown_effect [OF t] by simp_all
qed

lemma host_Destroy_absent: "w_live w sid = None \<Longrightarrow> host_Destroy os sid w = (Some ErrNotFound, w)"
  by (simp add: host_Destroy_def host_remove_def)

text \<open>The live map without the references in a set.\<close>

definition without :: "sref set \<Rightarrow> (string \<rightharpoonup> sref) \<Rightarrow> string \<rightharpoonup> sref" where
  "without R m k = (case m k of Some r \<Rightarrow> if r \<in> R then None else Some r | None \<Rightarrow> None)"

lemma without_simps [simp]: "without {} m = m"
  by (auto simp: without_def split: option.splits)

definition reapable :: "go_time \<Rightarrow> duration \<Rightarrow> world \<Rightarrow> sref list \<Rightarrow> sref list" where
  "reapable now timeout w rs = filter (\<lambda>r. idle_long now timeout (w_store w r)) rs"

text \<open>Destroying one of several live sessions leaves the others as they were.\<close>

lemma destroy_among:
  assumes "host_wf w" "distinct (r # rs)" "set (r # rs) \<subseteq> ran (w_live w)"
    and "host_Destroy os (ss_ID (w_store w r)) w = (e, w1)"
  shows "e = None" "host_wf w1" "set rs \<subseteq> ran (w_live w1)" "\<And>t. t \<in> set rs \<Longrightarrow> w_store w1 t = w_store w t"
    "without X (w_live w1) = without (insert r X) (w_live w)"
    "w_gone w1 = (if ho_onGone (w_host w) then w_gone w @ [r] else w_gone w)"
    "ho_onGone (w_host w1) = ho_onGone (w_host w)"
proof -
  let ?k = "ss_ID (w_store w r)"
  obtain k where "w_live w k = Some r" using assms(3) by (auto simp: ran_def)
  with assms(1) have k: "w_live w ?k = Some r" by (auto simp: host_wf_def)
  note w1 = host_Destroy_live [OF k assms(4)]
  have only: "w_live w a = Some r \<longleftrightarrow> a = ?k" for a
    using host_wf_inj [OF assms(1) _ k] k by blast
  show "e = None" "ho_onGone (w_host w1) = ho_onGone (w_host w)"
    "w_gone w1 = (if ho_onGone (w_host w) then w_gone w @ [r] else w_gone w)"
    by (fact w1)+
  show "w_store w1 t = w_store w t" if "t \<in> set rs" for t
    using that assms(2) by (auto simp: w1(3))
  show "host_wf w1"
    unfolding host_wf_def w1(2,3)
  proof (intro allI impI)
    fix a t
    assume "((w_live w)(?k := None)) a = Some t"
    then have a: "a \<noteq> ?k" "w_live w a = Some t" by (simp_all split: if_splits)
    then have "t \<noteq> r" using only [of a] by simp
    then show "ss_ID (((w_store w)(r := CloseDone (w_store w r))) t) = a"
      using a(2) assms(1) by (simp add: host_wf_def)
  qed
  show "without X (w_live w1) = without (insert r X) (w_live w)"
  proof
    fix a
    show "without X (w_live w1) a = without (insert r X) (w_live w) a"
      using only [of a] by (cases "a = ?k") (auto simp: without_def w1(2) split: option.splits)
  qed
  show "set rs \<subseteq> ran (w_live w1)"
  proof
    fix t
    assume t: "t \<in> set rs"
    with assms(3) obtain a where a: "w_live w a = Some t" by (auto simp: ran_def)
    with t assms(2) k have "a \<noteq> ?k" by auto
    with a show "t \<in> ran (w_live w1)" by (auto simp: w1(2) intro: ranI)
  qed
qed

lemma reapable_cong:
  "(\<And>t. t \<in> set rs \<Longrightarrow> w_store w1 t = w_store w t) \<Longrightarrow> reapable now timeout w1 rs = reapable now timeout w rs"
  unfolding reapable_def by (intro filter_cong) simp_all

lemma reap_fold:
  "host_wf w \<Longrightarrow> distinct rs \<Longrightarrow> set rs \<subseteq> ran (w_live w) \<Longrightarrow> ho_onGone (w_host w) \<Longrightarrow>
   \<exists>w'. fold (reap_one os now timeout) rs (w, ids) =
       (w', ids @ map (\<lambda>r. ss_ID (w_store w r)) (reapable now timeout w rs)) \<and>
     w_live w' = without (set (reapable now timeout w rs)) (w_live w) \<and> w_gone w' = w_gone w @ reapable now timeout w rs"
proof (induction rs arbitrary: w ids)
  case Nil
  then show ?case by (simp add: reapable_def)
next
  case (Cons r rs)
  show ?case
  proof (cases "idle_long now timeout (w_store w r)")
    case False
    then have "reap_one os now timeout r (w, ids) = (w, ids)" "reapable now timeout w (r # rs) = reapable now timeout w rs"
      by (simp_all add: reap_one_def reapable_def)
    with Cons.IH [of w ids] Cons.prems show ?thesis by simp
  next
    case True
    let ?k = "ss_ID (w_store w r)" and ?R = "reapable now timeout w rs"
    obtain e w1 where d: "host_Destroy os ?k w = (e, w1)" by fastforce
    note w1 = destroy_among [OF Cons.prems(1-3) d]
    have R: "reapable now timeout w1 rs = ?R" "reapable now timeout w (r # rs) = r # ?R"
      by (rule reapable_cong, rule w1(4), assumption) (simp add: reapable_def True)
    have ids: "map (\<lambda>t. ss_ID (w_store w1 t)) ?R = map (\<lambda>t. ss_ID (w_store w t)) ?R"
      by (rule map_cong) (auto simp: reapable_def w1(4))
    have one: "reap_one os now timeout r (w, ids) = (w1, ids @ [?k])"
      using True d w1(1) by (simp add: reap_one_def)
    have "ho_onGone (w_host w1)" "distinct rs" using w1(7) Cons.prems by simp_all
    then obtain w2 where "fold (reap_one os now timeout) rs (w1, ids @ [?k]) =
        (w2, (ids @ [?k]) @ map (\<lambda>t. ss_ID (w_store w1 t)) ?R)"
        "w_live w2 = without (set ?R) (w_live w1)" "w_gone w2 = w_gone w1 @ ?R"
      using Cons.IH [of w1 "ids @ [?k]"] w1(2,3) R(1) by auto
    then show ?thesis
      using one w1(5) [of "set ?R"] w1(6) Cons.prems(4) R(2) ids by simp
  qed
qed

text \<open>
  C19: The reaper destroys exactly the sessions that have been idle for the timeout. Of the
  sessions live when it runs, those with an attached client, and those idle for less, stay; the
  others are gone from the live map, their identifiers are returned, and the \<open>onGone\<close> function
  has been called once for each of them and for nothing else.
\<close>

theorem reap_exact:
  assumes "host_wf w" "host_List w order" "ho_onGone (w_host w)" "0 < timeout"
  shows "\<exists>w'. ReapIdle os order now timeout w = (w', map (\<lambda>r. ss_ID (w_store w r)) (reapable now timeout w order)) \<and>
     (\<forall>k. w_live w' k =
        (case w_live w k of
           None \<Rightarrow> None
         | Some r \<Rightarrow> (case IdleSince (w_store w r) of
                        None \<Rightarrow> Some r
                      | Some since \<Rightarrow> if time_sub now since < timeout then Some r else None))) \<and>
     w_gone w' = w_gone w @ reapable now timeout w order"
proof -
  have "distinct order" "set order \<subseteq> ran (w_live w)"
    using assms(2) by (simp_all add: host_List_def)
  then obtain w' where w': "fold (reap_one os now timeout) order (w, []) =
      (w', map (\<lambda>r. ss_ID (w_store w r)) (reapable now timeout w order))"
      "w_live w' = without (set (reapable now timeout w order)) (w_live w)" "w_gone w' = w_gone w @ reapable now timeout w order"
    using reap_fold [of w order os now timeout "[]"] assms(1,3) by auto
  have "w_live w' k =
      (case w_live w k of
         None \<Rightarrow> None
       | Some r \<Rightarrow> (case IdleSince (w_store w r) of
                      None \<Rightarrow> Some r
                    | Some since \<Rightarrow> if time_sub now since < timeout then Some r else None))" for k
    using assms(2)
    by (auto simp: w'(2) without_def reapable_def idle_long_def host_List_def split: option.splits intro: ranI)
  then show ?thesis
    using w' assms(4) by (simp add: ReapIdle_def)
qed

definition ex_idle :: session where
  "ex_idle = zero_session\<lparr>ss_ID := ''a'', ss_readyAt := 10\<rparr>"

definition ex_busy :: session where
  "ex_busy = zero_session\<lparr>ss_ID := ''b'', ss_readyAt := 10, ss_attached := 1\<rparr>"

definition ex_world :: world where
  "ex_world =
     \<lparr>w_store = (\<lambda>r. if r = 0 then ex_idle else ex_busy), w_next = 2,
      w_host = \<lparr>ho_maxLive = 3, ho_sessions = [''a'' \<mapsto> 0, ''b'' \<mapsto> 1], ho_onGone = True\<rparr>,
      w_pool = None, w_mgr = ex_manager, w_watch = [], w_gone = []\<rparr>"

lemma ex_sessions [simp]:
  "ss_ID ex_idle = ''a''" "ss_ID ex_busy = ''b''" "IdleSince ex_idle = Some 10" "IdleSince ex_busy = None"
  by (simp_all add: ex_idle_def ex_busy_def zero_session_def IdleSince_def ReadyAt_def)

lemma ex_world_simps [simp]:
  "w_store ex_world = (\<lambda>r. if r = 0 then ex_idle else ex_busy)"
  "w_live ex_world = [''a'' \<mapsto> 0, ''b'' \<mapsto> 1]" "ho_onGone (w_host ex_world)" "w_gone ex_world = []"
  by (simp_all add: ex_world_def)

lemma ex_world_wf: "host_wf ex_world"
  unfolding host_wf_def
proof (intro allI impI)
  fix k r
  assume "w_live ex_world k = Some r"
  then have "k = ''b'' \<and> r = 1 \<or> k = ''a'' \<and> r = 0"
    by (simp split: if_splits)
  then show "ss_ID (w_store ex_world r) = k" by auto
qed

lemma ex_world_List: "host_List ex_world [1, 0]"
proof -
  have "ran [''a'' \<mapsto> 0 :: nat, ''b'' \<mapsto> 1] = {1, 0}"
    by (simp add: ran_map_upd)
  then show ?thesis by (simp add: host_List_def)
qed

theorem reap_exact_witness:
  "\<exists>w'. ReapIdle (\<lambda>_ _. True) [1, 0] 1000 300 ex_world = (w', [''a'']) \<and> w_live w' ''a'' = None \<and>
     w_live w' ''b'' = Some 1 \<and> w_gone w' = [0]"
proof -
  have sub: "time_sub 1000 10 = 990"
    by (simp add: time_sub_def max_duration_def min_duration_def)
  have idle: "reapable 1000 300 ex_world [1, 0] = [0]"
    by (simp add: reapable_def idle_long_def sub)
  show ?thesis
    using reap_exact [OF ex_world_wf ex_world_List, of 300 "\<lambda>_ _. True" 1000] unfolding idle
    by (auto simp: sub)
qed

section \<open>Concurrent use\<close>

text \<open>
  Calls of \<open>Create\<close>, \<open>CreateWarm\<close> and \<open>Destroy\<close>, watchers and VM exits, cut where the code
  holds or drops the lock. \<open>hs_reg\<close> lists the sessions ever registered, \<open>hs_peak\<close> the
  largest number of cold creations in flight so far.
\<close>

record host_sys =
  hs_w :: world
  hs_checked :: nat
  hs_launched :: "sref list"
  hs_dying :: "sref list"
  hs_calling :: "sref list"
  hs_reg :: "sref list"
  hs_peak :: nat

definition hs_flight :: "host_sys \<Rightarrow> nat" where
  "hs_flight y = hs_checked y + length (hs_launched y)"

definition hs_start :: "host_sys \<Rightarrow> bool" where
  "hs_start y \<longleftrightarrow> w_live (hs_w y) = Map.empty \<and> ho_onGone (w_host (hs_w y)) \<and> w_gone (hs_w y) = [] \<and>
     0 < ho_maxLive (w_host (hs_w y)) \<and>
     hs_checked y = 0 \<and> hs_launched y = [] \<and> hs_dying y = [] \<and> hs_calling y = [] \<and> hs_reg y = [] \<and> hs_peak y = 0"

inductive hs_step :: "host_sys \<Rightarrow> host_sys \<Rightarrow> bool" where
  check: "\<not> host_full (hs_w y) \<Longrightarrow>
    hs_step y (y\<lparr>hs_checked := Suc (hs_checked y), hs_peak := max (hs_peak y) (Suc (hs_flight y))\<rparr>)"
| launch_fail: "hs_checked y = Suc n \<Longrightarrow> hs_step y (y\<lparr>hs_checked := n\<rparr>)"
| launch: "hs_checked y = Suc n \<Longrightarrow> new_ref s (hs_w y) = (r, w) \<Longrightarrow>
    hs_step y (y\<lparr>hs_checked := n, hs_w := w, hs_launched := r # hs_launched y\<rparr>)"
| register: "hs_launched y = rs1 @ r # rs2 \<Longrightarrow> w = host_register uuid r (hs_w y) \<Longrightarrow>
    ss_ID (w_store w r) \<notin> dom (w_live (hs_w y)) \<Longrightarrow>
    hs_step y (y\<lparr>hs_launched := rs1 @ rs2, hs_w := w, hs_reg := r # hs_reg y\<rparr>)"
| warm: "\<not> host_full (hs_w y) \<Longrightarrow> new_ref (s\<lparr>ss_Warm := True\<rparr>) (hs_w y) = (r, w1) \<Longrightarrow>
    w = host_register uuid r w1 \<Longrightarrow> ss_ID (w_store w r) \<notin> dom (w_live (hs_w y)) \<Longrightarrow>
    hs_step y (y\<lparr>hs_w := w, hs_reg := r # hs_reg y\<rparr>)"
| destroy: "host_remove sid (hs_w y) = (Some r, w) \<Longrightarrow> hs_step y (y\<lparr>hs_w := w, hs_dying := r # hs_dying y\<rparr>)"
| teardown: "hs_dying y = rs1 @ r # rs2 \<Longrightarrow> host_teardown os r (hs_w y) = (e, w) \<Longrightarrow>
    hs_step y (y\<lparr>hs_w := w, hs_dying := rs1 @ rs2\<rparr>)"
| vm_exit: "hs_step y (y\<lparr>hs_w := upd_session r CloseDone (hs_w y)\<rparr>)"
| client: "hs_step y (y\<lparr>hs_w := upd_session r (sess_apply wr op) (hs_w y)\<rparr>)"
| watch: "r \<in> set (w_watch (hs_w y)) \<Longrightarrow> ss_done (w_store (hs_w y) r) = Some True \<Longrightarrow>
    watch_drop r (hs_w y) = (removed, w) \<Longrightarrow>
    hs_step y (y\<lparr>hs_w := w, hs_calling := (if removed then r # hs_calling y else hs_calling y)\<rparr>)"
| call: "hs_calling y = rs1 @ r # rs2 \<Longrightarrow>
    hs_step y (y\<lparr>hs_w := call_onGone r (hs_w y), hs_calling := rs1 @ rs2\<rparr>)"

definition hs_left :: "host_sys \<Rightarrow> sref list" where
  "hs_left y = hs_dying y @ hs_calling y @ w_gone (hs_w y)"

definition hs_inv :: "host_sys \<Rightarrow> bool" where
  "hs_inv y \<longleftrightarrow>
     host_wf (hs_w y) \<and> ho_onGone (w_host (hs_w y)) \<and>
     distinct (hs_launched y @ hs_reg y) \<and> (\<forall>r \<in> set (hs_launched y @ hs_reg y). r < w_next (hs_w y)) \<and>
     distinct (hs_left y) \<and> ran (w_live (hs_w y)) \<inter> set (hs_left y) = {} \<and>
     ran (w_live (hs_w y)) \<union> set (hs_left y) = set (hs_reg y)"

lemma host_register_effect:
  assumes "w' = host_register uuid r w"
  shows "w_live w' = (w_live w)(ss_ID (w_store w' r) \<mapsto> r)" "w_gone w' = w_gone w" "w_next w' = w_next w"
    "ho_onGone (w_host w') = ho_onGone (w_host w)" "ho_maxLive (w_host w') = ho_maxLive (w_host w)"
    "\<And>t. t \<noteq> r \<Longrightarrow> w_store w' t = w_store w t"
  using assms by (auto simp: host_register_def host_watch_def Let_def)

lemma sess_apply_ID [simp]: "ss_ID (sess_apply wr op s) = ss_ID s"
  by (cases op) (simp_all add: sess_Attach_def sess_detach_def Let_def fst_Resize SetGuestConn_def)

lemma host_wf_upd:
  assumes "host_wf w" "ss_ID (f (w_store w r)) = ss_ID (w_store w r)"
  shows "host_wf (upd_session r f w)"
  using assms by (simp add: host_wf_def)

lemma ran_delete_ref:
  assumes "host_wf w" "w_live w sid = Some r"
  shows "ran ((w_live w)(sid := None)) = ran (w_live w) - {r}"
proof (intro equalityI subsetI)
  fix t
  assume "t \<in> ran ((w_live w)(sid := None))"
  then obtain a where a: "a \<noteq> sid" "w_live w a = Some t" by (auto simp: ran_def split: if_splits)
  then show "t \<in> ran (w_live w) - {r}"
    using host_wf_inj [OF assms(1) _ assms(2), of a] by (auto intro: ranI)
next
  fix t
  assume "t \<in> ran (w_live w) - {r}"
  then obtain a where "w_live w a = Some t" "t \<noteq> r" by (auto simp: ran_def)
  then have "((w_live w)(sid := None)) a = Some t" using assms(2) by auto
  then show "t \<in> ran ((w_live w)(sid := None))" by (rule ranI)
qed

lemma host_wf_delete: "host_wf w \<Longrightarrow> w_live w' = (w_live w)(sid := None) \<Longrightarrow> w_store w' = w_store w \<Longrightarrow> host_wf w'"
  by (simp add: host_wf_def)

lemma host_wf_register:
  assumes "host_wf w" "r \<notin> ran (w_live w)" "w' = host_register uuid r w"
  shows "host_wf w'"
  unfolding host_wf_def host_register_effect(1) [OF assms(3)]
proof (intro allI impI)
  fix a t
  assume a: "((w_live w)(ss_ID (w_store w' r) \<mapsto> r)) a = Some t"
  show "ss_ID (w_store w' t) = a"
  proof (cases "a = ss_ID (w_store w' r)")
    case True
    with a show ?thesis by simp
  next
    case False
    with a have "w_live w a = Some t" by simp
    moreover from this assms(2) have "t \<noteq> r" by (auto intro: ranI)
    ultimately show ?thesis
      using assms(1) host_register_effect(6) [OF assms(3)] by (simp add: host_wf_def)
  qed
qed

lemma hs_start_inv: "hs_start y \<Longrightarrow> hs_inv y"
  by (simp add: hs_start_def hs_inv_def hs_left_def host_wf_def)

lemma hs_inv_live_reg: "hs_inv y \<Longrightarrow> ran (w_live (hs_w y)) \<subseteq> set (hs_reg y)"
  by (auto simp: hs_inv_def)

lemma hs_invI:
  assumes "host_wf (hs_w y)" "ho_onGone (w_host (hs_w y))" "distinct (hs_launched y @ hs_reg y)"
    and "\<forall>r \<in> set (hs_launched y @ hs_reg y). r < w_next (hs_w y)" "distinct (hs_left y)"
    and "ran (w_live (hs_w y)) \<inter> set (hs_left y) = {}" "ran (w_live (hs_w y)) \<union> set (hs_left y) = set (hs_reg y)"
  shows "hs_inv y"
  using assms unfolding hs_inv_def by blast

text \<open>Registration of a reference that was never registered before.\<close>

lemma hs_inv_register:
  assumes "hs_inv y" "host_wf w1" "w_live w1 = w_live (hs_w y)" "w_gone w1 = w_gone (hs_w y)"
    and "ho_onGone (w_host w1)" "w_next (hs_w y) \<le> w_next w1"
    and "w = host_register uuid r w1" "ss_ID (w_store w r) \<notin> dom (w_live (hs_w y))"
    and "r \<notin> set (hs_reg y)" "r < w_next w1" "set rs \<subseteq> set (hs_launched y)" "distinct (r # rs)"
  shows "hs_inv (y\<lparr>hs_launched := rs, hs_w := w, hs_reg := r # hs_reg y\<rparr>)"
proof -
  note w = host_register_effect [OF assms(7)]
  have ran: "ran (w_live w) = insert r (ran (w_live (hs_w y)))"
    using assms(8) by (simp add: w(1) assms(3) domIff ran_map_upd)
  have new: "r \<notin> ran (w_live w1)"
    using assms(1,3,9) hs_inv_live_reg by auto
  have wf: "host_wf w"
    by (rule host_wf_register [OF assms(2) new assms(7)])
  have lt: "\<forall>t \<in> set (rs @ r # hs_reg y). t < w_next w"
    using assms(1,6,10,11) w(3) unfolding hs_inv_def by (auto intro: less_le_trans)
  have dist: "distinct (rs @ r # hs_reg y)" "distinct (hs_left y)"
    using assms(1,9,11,12) unfolding hs_inv_def by auto
  have dis: "ran (w_live w) \<inter> set (hs_left y) = {}"
    using assms(1,9) ran unfolding hs_inv_def by auto
  have reg: "set (r # hs_reg y) = ran (w_live w) \<union> set (hs_left y)"
    using assms(1) ran unfolding hs_inv_def by auto
  have gone: "ho_onGone (w_host w)"
    using assms(5) w by simp
  let ?z = "y\<lparr>hs_launched := rs, hs_w := w, hs_reg := r # hs_reg y\<rparr>"
  have left: "hs_left ?z = hs_left y"
    using assms(4) w by (simp add: hs_left_def)
  show ?thesis
  proof (rule hs_invI)
    show "host_wf (hs_w ?z)" using wf by simp
    show "ho_onGone (w_host (hs_w ?z))" using gone by simp
    show "distinct (hs_launched ?z @ hs_reg ?z)" using dist(1) by simp
    show "\<forall>t \<in> set (hs_launched ?z @ hs_reg ?z). t < w_next (hs_w ?z)" using lt by simp
    show "distinct (hs_left ?z)" unfolding left by (rule dist)
    show "ran (w_live (hs_w ?z)) \<inter> set (hs_left ?z) = {}" unfolding left using dis by simp
    show "ran (w_live (hs_w ?z)) \<union> set (hs_left ?z) = set (hs_reg ?z)" unfolding left using reg by simp
  qed
qed

text \<open>A new reference is none of those in use.\<close>

lemma hs_new_ref:
  assumes "hs_inv y" "new_ref s (hs_w y) = (r, w)"
  shows "r = w_next (hs_w y)" "w_live w = w_live (hs_w y)" "w_next w = Suc r" "w_gone w = w_gone (hs_w y)"
    "w_host w = w_host (hs_w y)" "w_store w = (w_store (hs_w y))(r := s)"
    and "r \<notin> ran (w_live (hs_w y))" "r \<notin> set (hs_launched y)" "r \<notin> set (hs_reg y)" "host_wf w"
proof -
  show w: "r = w_next (hs_w y)" "w_live w = w_live (hs_w y)" "w_next w = Suc r" "w_gone w = w_gone (hs_w y)"
    "w_host w = w_host (hs_w y)" "w_store w = (w_store (hs_w y))(r := s)"
    using assms(2) by (auto simp: new_ref_def)
  show r: "r \<notin> ran (w_live (hs_w y))" "r \<notin> set (hs_launched y)" "r \<notin> set (hs_reg y)"
    using assms(1) w(1) hs_inv_live_reg [OF assms(1)] by (auto simp: hs_inv_def)
  show "host_wf w"
    using assms(1) r(1) unfolding host_wf_def hs_inv_def w by (auto intro: ranI)
qed

text \<open>A session leaves the live ones, to be torn down or to be reported.\<close>

lemma hs_inv_leave:
  assumes "hs_inv y" "w_live (hs_w y) sid = Some r"
    and "w_live (hs_w z) = (w_live (hs_w y))(sid := None)" "w_store (hs_w z) = w_store (hs_w y)"
    and "w_next (hs_w z) = w_next (hs_w y)" "ho_onGone (w_host (hs_w z)) = ho_onGone (w_host (hs_w y))"
    and "hs_launched z = hs_launched y" "hs_reg z = hs_reg y"
    and "set (hs_left z) = insert r (set (hs_left y))" "distinct (hs_left z) \<longleftrightarrow> distinct (r # hs_left y)"
  shows "hs_inv z"
proof -
  have wf: "host_wf (hs_w y)" using assms(1) by (simp add: hs_inv_def)
  have "host_wf (hs_w z)" by (rule host_wf_delete [OF wf assms(3,4)])
  moreover have "r \<in> ran (w_live (hs_w y))" using assms(2) by (rule ranI)
  ultimately show ?thesis
    using assms(1,3,5-10) ran_delete_ref [OF wf assms(2)] unfolding hs_inv_def by auto
qed

lemma hs_inv_step:
  assumes "hs_step y z" "hs_inv y"
  shows "hs_inv z"
  using assms(1)
proof cases
  case check
  with assms(2) show ?thesis by (simp add: hs_inv_def hs_left_def)
next
  case launch_fail
  with assms(2) show ?thesis by (simp add: hs_inv_def hs_left_def)
next
  case (launch n s r w)
  note w = hs_new_ref(1-6) [OF assms(2) launch(3)] and r = hs_new_ref(7-9) [OF assms(2) launch(3)]
  have "host_wf w" by (rule hs_new_ref(10) [OF assms(2) launch(3)])
  then show ?thesis
    using assms(2) launch(1) w r unfolding hs_inv_def hs_left_def by (auto intro: less_SucI)
next
  case (register rs1 r rs2 w uuid)
  then show ?thesis
    using assms(2) unfolding register(1)
    by (intro hs_inv_register [where ?w1.0 = "hs_w y"]) (auto simp: hs_inv_def)
next
  case (warm s r w1 w uuid)
  note w = hs_new_ref(1-6) [OF assms(2) warm(3)] and r = hs_new_ref(7-9) [OF assms(2) warm(3)]
  have "host_wf w1" by (rule hs_new_ref(10) [OF assms(2) warm(3)])
  then have "hs_inv (y\<lparr>hs_launched := hs_launched y, hs_w := w, hs_reg := r # hs_reg y\<rparr>)"
    using assms(2) warm w r by (intro hs_inv_register [where ?w1.0 = w1]) (auto simp: hs_inv_def)
  then show ?thesis using warm(1) by simp
next
  case (destroy sid r w)
  have live: "w_live (hs_w y) sid = Some r"
    and w: "w = (hs_w y)\<lparr>w_host := (w_host (hs_w y))\<lparr>ho_sessions := (w_live (hs_w y))(sid := None)\<rparr>\<rparr>"
    using destroy(2) by (auto simp: host_remove_def split: option.splits)
  show ?thesis
    unfolding destroy(1) by (rule hs_inv_leave [OF assms(2) live]) (auto simp: w hs_left_def)
next
  case (teardown rs1 r rs2 os e w)
  note w = host_teardown_effect [OF teardown(3)]
  have "host_wf w"
    using assms(2) by (simp add: hs_inv_def host_wf_def w)
  then show ?thesis
    using assms(2) teardown(1,2) w unfolding hs_inv_def hs_left_def by auto
next
  case (vm_exit r)
  then show ?thesis
    using assms(2) unfolding hs_inv_def hs_left_def by (simp add: host_wf_upd)
next
  case (client r wr op)
  then show ?thesis
    using assms(2) unfolding hs_inv_def hs_left_def by (simp add: host_wf_upd)
next
  case (watch r removed w)
  show ?thesis
  proof (cases removed)
    case True
    let ?sid = "ss_ID (w_store (hs_w y) r)"
    have live: "w_live (hs_w y) ?sid = Some r"
      and w: "w_live w = (w_live (hs_w y))(?sid := None)" "w_store w = w_store (hs_w y)" "w_gone w = w_gone (hs_w y)"
        "w_next w = w_next (hs_w y)" "ho_onGone (w_host w) = ho_onGone (w_host (hs_w y))"
      using watch(4) True by (auto simp: watch_drop_def Let_def split: if_splits)
    show ?thesis
      unfolding watch(1) by (rule hs_inv_leave [OF assms(2) live]) (auto simp: w True hs_left_def)
  next
    case False
    then have "w = (hs_w y)\<lparr>w_watch := remove1 r (w_watch (hs_w y))\<rparr>"
      using watch(4) by (auto simp: watch_drop_def Let_def split: if_splits)
    with False show ?thesis
      using assms(2) watch(1) unfolding hs_inv_def hs_left_def by (simp add: host_wf_def)
  qed
next
  case (call rs1 r rs2)
  have "host_wf (call_onGone r (hs_w y))"
    using assms(2) by (simp add: hs_inv_def host_wf_def call_onGone_def)
  then show ?thesis
    using assms(2) call unfolding hs_inv_def hs_left_def by (auto simp: call_onGone_def)
qed

interpretation hosting: invariant_system hs_start hs_step hs_inv
  by unfold_locales (auto intro: hs_start_inv hs_inv_step)

text \<open>
  C7: The \<open>onGone\<close> function is called exactly once for every session that leaves the live
  map, whatever the reason: whether it was destroyed, reaped, or its VM exited, and however
  these race, no session is reported twice or while it is live, and a session that was
  registered is live, or its report is on the way, or it has been reported.
\<close>

theorem gone_exactly_once:
  assumes "reach hs_start hs_step y"
  shows "distinct (w_gone (hs_w y)) \<and> set (w_gone (hs_w y)) \<inter> ran (w_live (hs_w y)) = {} \<and>
     set (hs_reg y) =
       ran (w_live (hs_w y)) \<union> set (hs_dying y) \<union> set (hs_calling y) \<union> set (w_gone (hs_w y))"
  using hosting.reach_inv [OF assms] unfolding hs_inv_def hs_left_def by auto

section \<open>Capacity\<close>

definition hs_cap :: "int \<Rightarrow> host_sys \<Rightarrow> bool" where
  "hs_cap M y \<longleftrightarrow> ho_maxLive (w_host (hs_w y)) = M \<and> finite (dom (w_live (hs_w y))) \<and> hs_flight y \<le> hs_peak y \<and>
     int (host_Count (hs_w y) + hs_flight y) \<le> M + int (hs_peak y)"

definition hs_start_max :: "int \<Rightarrow> host_sys \<Rightarrow> bool" where
  "hs_start_max M y \<longleftrightarrow> hs_start y \<and> ho_maxLive (w_host (hs_w y)) = M"

lemma hs_cap_start: "hs_start_max M y \<Longrightarrow> hs_cap M y"
  by (auto simp: hs_start_max_def hs_start_def hs_cap_def hs_flight_def host_Count_def)

lemma host_Count_register:
  assumes "w' = host_register uuid r w" "ss_ID (w_store w' r) \<notin> dom (w_live w)" "finite (dom (w_live w))"
  shows "host_Count w' = Suc (host_Count w)" "finite (dom (w_live w'))"
  using assms(2,3) by (simp_all add: host_Count_def host_register_effect(1) [OF assms(1)] card_insert_if)

lemma host_Count_delete:
  assumes "w_live w' = (w_live w)(sid := None)" "finite (dom (w_live w))"
  shows "host_Count w' \<le> host_Count w" "finite (dom (w_live w'))"
  using assms by (simp_all add: host_Count_def card_Diff1_le)

lemma host_Count_cong: "w_live w' = w_live w \<Longrightarrow> host_Count w' = host_Count w"
  by (simp add: host_Count_def)

lemma hs_cap_step:
  assumes "hs_step y z" "hs_cap M y"
  shows "hs_cap M z"
  using assms(1)
proof cases
  case check
  then show ?thesis
    using assms(2) by (auto simp: hs_cap_def hs_flight_def host_full_def max_def)
next
  case launch_fail
  then show ?thesis using assms(2) by (simp add: hs_cap_def hs_flight_def)
next
  case (launch n s r w)
  then have "w_host w = w_host (hs_w y)" by (auto simp: new_ref_def)
  then show ?thesis
    using assms(2) launch by (simp add: hs_cap_def hs_flight_def host_Count_def)
next
  case (register rs1 r rs2 w uuid)
  have fin: "finite (dom (w_live (hs_w y)))" using assms(2) by (simp add: hs_cap_def)
  show ?thesis
    using assms(2) register(1,2) host_Count_register [OF register(3,4) fin] host_register_effect(5) [OF register(3)]
    by (simp add: hs_cap_def hs_flight_def)
next
  case (warm s r w1 w uuid)
  have w1: "w_host w1 = w_host (hs_w y)" using warm(3) by (auto simp: new_ref_def)
  have fin: "finite (dom (w_live w1))" using assms(2) by (simp add: hs_cap_def w1)
  have "ss_ID (w_store w r) \<notin> dom (w_live w1)" using warm(5) w1 by simp
  from host_Count_register [OF warm(4) this fin] show ?thesis
    using assms(2) warm(1,2) host_register_effect(5) [OF warm(4)] w1 host_Count_cong [of w1 "hs_w y"]
    by (simp add: hs_cap_def hs_flight_def host_full_def)
next
  case (destroy sid r w)
  then have w: "w_live w = (w_live (hs_w y))(sid := None)" "ho_maxLive (w_host w) = ho_maxLive (w_host (hs_w y))"
    by (auto simp: host_remove_def split: option.splits)
  show ?thesis
    using assms(2) destroy(1) host_Count_delete [OF w(1)] w(2) by (simp add: hs_cap_def hs_flight_def)
next
  case (teardown rs1 r rs2 os e w)
  then show ?thesis
    using assms(2) host_teardown_effect(2) [OF teardown(3)] by (simp add: hs_cap_def hs_flight_def host_Count_def)
next
  case (vm_exit r)
  then show ?thesis using assms(2) by (simp add: hs_cap_def hs_flight_def host_Count_def)
next
  case (client r wr op)
  then show ?thesis using assms(2) by (simp add: hs_cap_def hs_flight_def host_Count_def)
next
  case (watch r removed w)
  then have "w_live w = w_live (hs_w y) \<or> (\<exists>sid. w_live w = (w_live (hs_w y))(sid := None))"
    "ho_maxLive (w_host w) = ho_maxLive (w_host (hs_w y))"
    by (auto simp: watch_drop_def Let_def split: if_splits)
  moreover from this(1) have "host_Count w \<le> host_Count (hs_w y) \<and> finite (dom (w_live w))"
    using assms(2) host_Count_delete [of w "hs_w y"] host_Count_cong [of w "hs_w y"] by (auto simp: hs_cap_def)
  ultimately show ?thesis
    using assms(2) watch(1) by (simp add: hs_cap_def hs_flight_def)
next
  case (call rs1 r rs2)
  then show ?thesis
    using assms(2) by (simp add: hs_cap_def hs_flight_def host_Count_def call_onGone_def)
qed

interpretation capacity: invariant_system "hs_start_max M" hs_step "hs_cap M" for M
  by unfold_locales (auto intro: hs_cap_start hs_cap_step)


text \<open>Two creations that check before either registers: one VM more than the maximum.\<close>

definition ex_hs :: "(sref \<Rightarrow> session) \<Rightarrow> sref \<Rightarrow> (string \<rightharpoonup> sref) \<Rightarrow> sref list \<Rightarrow> nat \<Rightarrow> sref list \<Rightarrow> sref list \<Rightarrow> sref list \<Rightarrow> nat \<Rightarrow> host_sys" where
  "ex_hs st nx live gone c ls dy rg pk =
     \<lparr>hs_w = \<lparr>w_store = st, w_next = nx, w_host = \<lparr>ho_maxLive = 1, ho_sessions = live, ho_onGone = True\<rparr>,
              w_pool = None, w_mgr = ex_manager, w_watch = [], w_gone = gone\<rparr>,
      hs_checked = c, hs_launched = ls, hs_dying = dy, hs_calling = [], hs_reg = rg, hs_peak = pk\<rparr>"

abbreviation ex_store :: "nat \<Rightarrow> sref \<Rightarrow> session" where
  "ex_store n \<equiv> \<lambda>r. if r = 0 \<and> 0 < n then ex_idle else if r = 1 \<and> 1 < n then ex_busy else zero_session"

lemma ex_done [simp]: "ss_done ex_idle = None" "ss_done ex_busy = None" "\<not> ss_mgr ex_idle"
  by (simp_all add: ex_idle_def ex_busy_def zero_session_def)

lemma ex_hs_start: "hs_start_max 1 (ex_hs (ex_store 0) 0 Map.empty [] 0 [] [] [] 0)"
  by (simp add: hs_start_max_def hs_start_def ex_hs_def)

lemma ex_hs_steps:
  "hs_step (ex_hs (ex_store 0) 0 Map.empty [] 0 [] [] [] 0) (ex_hs (ex_store 0) 0 Map.empty [] 1 [] [] [] 1)"
  "hs_step (ex_hs (ex_store 0) 0 Map.empty [] 1 [] [] [] 1) (ex_hs (ex_store 0) 0 Map.empty [] 2 [] [] [] 2)"
  "hs_step (ex_hs (ex_store 0) 0 Map.empty [] 2 [] [] [] 2) (ex_hs (ex_store 1) 1 Map.empty [] 1 [0] [] [] 2)"
  "hs_step (ex_hs (ex_store 1) 1 Map.empty [] 1 [0] [] [] 2) (ex_hs (ex_store 2) 2 Map.empty [] 0 [1, 0] [] [] 2)"
  "hs_step (ex_hs (ex_store 2) 2 Map.empty [] 0 [1, 0] [] [] 2) (ex_hs (ex_store 2) 2 [''b'' \<mapsto> 1] [] 0 [0] [] [1] 2)"
  "hs_step (ex_hs (ex_store 2) 2 [''b'' \<mapsto> 1] [] 0 [0] [] [1] 2) (ex_hs (ex_store 2) 2 [''b'' \<mapsto> 1, ''a'' \<mapsto> 0] [] 0 [] [] [0, 1] 2)"
  "hs_step (ex_hs (ex_store 2) 2 [''b'' \<mapsto> 1, ''a'' \<mapsto> 0] [] 0 [] [] [0, 1] 2) (ex_hs (ex_store 2) 2 [''b'' \<mapsto> 1] [] 0 [] [0] [0, 1] 2)"
proof -
  let ?y = "ex_hs (ex_store 0) 0 Map.empty []"
  show "hs_step (?y 0 [] [] [] 0) (?y 1 [] [] [] 1)" "hs_step (?y 1 [] [] [] 1) (?y 2 [] [] [] 2)"
    using hs_step.check [of "?y 0 [] [] [] 0"] hs_step.check [of "?y 1 [] [] [] 1"]
    by (simp_all add: ex_hs_def host_full_def host_Count_def hs_flight_def numeral_2_eq_2)
  show "hs_step (?y 2 [] [] [] 2) (ex_hs (ex_store 1) 1 Map.empty [] 1 [0] [] [] 2)"
    using hs_step.launch [of "?y 2 [] [] [] 2" 1 ex_idle 0 "hs_w (ex_hs (ex_store 1) 1 Map.empty [] 1 [0] [] [] 2)"]
    by (simp add: ex_hs_def new_ref_def fun_eq_iff numeral_2_eq_2)
  show "hs_step (ex_hs (ex_store 1) 1 Map.empty [] 1 [0] [] [] 2) (ex_hs (ex_store 2) 2 Map.empty [] 0 [1, 0] [] [] 2)"
    using hs_step.launch [of "ex_hs (ex_store 1) 1 Map.empty [] 1 [0] [] [] 2" 0 ex_busy 1
        "hs_w (ex_hs (ex_store 2) 2 Map.empty [] 0 [1, 0] [] [] 2)"]
    by (simp add: ex_hs_def new_ref_def fun_eq_iff numeral_2_eq_2)
  show "hs_step (ex_hs (ex_store 2) 2 Map.empty [] 0 [1, 0] [] [] 2) (ex_hs (ex_store 2) 2 [''b'' \<mapsto> 1] [] 0 [0] [] [1] 2)"
    using hs_step.register [of "ex_hs (ex_store 2) 2 Map.empty [] 0 [1, 0] [] [] 2" "[]" 1 "[0]", OF _ refl, of "[]"]
    by (simp add: ex_hs_def host_register_def host_watch_def Let_def)
  show "hs_step (ex_hs (ex_store 2) 2 [''b'' \<mapsto> 1] [] 0 [0] [] [1] 2) (ex_hs (ex_store 2) 2 [''b'' \<mapsto> 1, ''a'' \<mapsto> 0] [] 0 [] [] [0, 1] 2)"
    using hs_step.register [of "ex_hs (ex_store 2) 2 [''b'' \<mapsto> 1] [] 0 [0] [] [1] 2" "[]" 0 "[]", OF _ refl, of "[]"]
    by (simp add: ex_hs_def host_register_def host_watch_def Let_def)
  show "hs_step (ex_hs (ex_store 2) 2 [''b'' \<mapsto> 1, ''a'' \<mapsto> 0] [] 0 [] [] [0, 1] 2) (ex_hs (ex_store 2) 2 [''b'' \<mapsto> 1] [] 0 [] [0] [0, 1] 2)"
    using hs_step.destroy [of "''a''" "ex_hs (ex_store 2) 2 [''b'' \<mapsto> 1, ''a'' \<mapsto> 0] [] 0 [] [] [0, 1] 2"]
    by (simp add: ex_hs_def host_remove_def fun_upd_idem_iff)
qed

lemma ex_hs_teardown:
  "hs_step (ex_hs (ex_store 2) 2 [''b'' \<mapsto> 1] [] 0 [] [0] [0, 1] 2) (ex_hs (ex_store 2) 2 [''b'' \<mapsto> 1] [0] 0 [] [] [0, 1] 2)"
proof -
  have c: "CloseDone ex_idle = ex_idle" by (simp add: CloseDone_def)
  have "host_teardown (\<lambda>_ _. True) 0 (hs_w (ex_hs (ex_store 2) 2 [''b'' \<mapsto> 1] [] 0 [] [0] [0, 1] 2)) =
      (None, hs_w (ex_hs (ex_store 2) 2 [''b'' \<mapsto> 1] [0] 0 [] [] [0, 1] 2))"
    by (simp add: ex_hs_def host_teardown_def call_onGone_def upd_session_def c fun_upd_idem_iff)
  from hs_step.teardown [OF _ this, of "[]" "[]"] show ?thesis by (simp add: ex_hs_def)
qed

lemma ex_hs_reach:
  assumes "start (ex_hs (ex_store 0) 0 Map.empty [] 0 [] [] [] 0)"
  shows "reach start hs_step (ex_hs (ex_store 2) 2 [''b'' \<mapsto> 1, ''a'' \<mapsto> 0] [] 0 [] [] [0, 1] 2)"
    and "reach start hs_step (ex_hs (ex_store 2) 2 [''b'' \<mapsto> 1] [0] 0 [] [] [0, 1] 2)"
proof -
  have "reach start hs_step (ex_hs (ex_store 0) 0 Map.empty [] 0 [] [] [] 0)"
    by (rule reach_start) (rule assms)
  note reach_step [where start = start and step = hs_step, OF this ex_hs_steps(1)]
  note reach_step [where start = start and step = hs_step, OF this ex_hs_steps(2)]
  note reach_step [where start = start and step = hs_step, OF this ex_hs_steps(3)]
  note reach_step [where start = start and step = hs_step, OF this ex_hs_steps(4)]
  note reach_step [where start = start and step = hs_step, OF this ex_hs_steps(5)]
  note both = reach_step [where start = start and step = hs_step, OF this ex_hs_steps(6)]
  show "reach start hs_step (ex_hs (ex_store 2) 2 [''b'' \<mapsto> 1, ''a'' \<mapsto> 0] [] 0 [] [] [0, 1] 2)"
    by (fact both)
  note reach_step [where start = start and step = hs_step, OF both ex_hs_steps(7)]
  note reach_step [where start = start and step = hs_step, OF this ex_hs_teardown]
  then show "reach start hs_step (ex_hs (ex_store 2) 2 [''b'' \<mapsto> 1] [0] 0 [] [] [0, 1] 2)" .
qed

lemma host_overshoot:
  "\<exists>y. reach (hs_start_max 1) hs_step y \<and> ho_maxLive (w_host (hs_w y)) = 1 \<and> host_Count (hs_w y) = 2"
  using ex_hs_reach(1) [where start = "hs_start_max 1", OF ex_hs_start]
  by (intro exI conjI, assumption) (simp_all add: ex_hs_def host_Count_def)

theorem gone_exactly_once_witness:
  "\<exists>y. reach hs_start hs_step y \<and> w_gone (hs_w y) = [0] \<and> set (hs_reg y) = {0, 1} \<and>
     set (w_gone (hs_w y)) \<inter> ran (w_live (hs_w y)) = {}"
proof -
  let ?y = "ex_hs (ex_store 2) 2 [''b'' \<mapsto> 1] [0] 0 [] [] [0, 1] 2"
  have start: "hs_start (ex_hs (ex_store 0) 0 Map.empty [] 0 [] [] [] 0)"
    using ex_hs_start by (simp add: hs_start_max_def)
  have r: "reach hs_start hs_step ?y" by (rule ex_hs_reach(2) [where start = hs_start, OF start])
  have "w_gone (hs_w ?y) = [0]" "set (hs_reg ?y) = {0, 1}" by (simp_all add: ex_hs_def)
  then show ?thesis using gone_exactly_once [OF r] r by blast
qed


text \<open>
  A warm VM is lost when the host is full: it has left the pool, is registered nowhere, and
  nothing will stop it.
\<close>

lemma warm_vm_lost:
  assumes "w_pool w = Some p" "wp_ready p = s # rest" "host_full w"
  shows "\<exists>w'. host_CreateWarm launch uuid w = (Inl ErrAtCapacity, w') \<and> w_live w' = w_live w \<and>
     w_pool w' = Some (poke (p\<lparr>wp_ready := rest\<rparr>))"
  using assms by (simp add: host_CreateWarm_def AcquireWarm_def host_full_def host_Count_def Let_def)

end
