(* ===== verification/Launchers.thy ===== *)
theory Launchers
  imports Vm_Host
begin

text \<open>
  The interface \<open>Launcher\<close> of \<open>session/launcher.go\<close> as a contract: a launch may work on the
  manager, but leaves the host, its sessions and the pool alone. Creating a session through any
  launcher that keeps to it registers exactly one new session; both launchers of
  \<open>cmd/microvm-terminal/main.go\<close> do.
\<close>

definition host_untouched :: "world \<Rightarrow> world \<Rightarrow> bool" where
  "host_untouched w w' \<longleftrightarrow>
     w_store w' = w_store w \<and> w_next w' = w_next w \<and> w_host w' = w_host w \<and> w_pool w' = w_pool w \<and>
     w_watch w' = w_watch w \<and> w_gone w' = w_gone w"

text \<open>One new session, under its identifier, and nothing else.\<close>

definition booted :: "world \<Rightarrow> sref \<Rightarrow> world \<Rightarrow> bool" where
  "booted w ref w' \<longleftrightarrow>
     ref = w_next w \<and> w_next w' = Suc (w_next w) \<and> w_live w' = (w_live w)(ss_ID (w_store w' ref) \<mapsto> ref) \<and>
     (\<forall>t. t \<noteq> ref \<longrightarrow> w_store w' t = w_store w t) \<and> w_gone w' = w_gone w \<and>
     ho_onGone (w_host w') = ho_onGone (w_host w)"

locale vm_launcher =
  fixes launch :: launcher
  assumes launch_untouched: "launch w = (res, w') \<Longrightarrow> host_untouched w w'"
begin

lemma register_booted:
  assumes "host_untouched w w1" "new_ref s w1 = (ref, w2)" "w' = host_register uuid ref w2"
  shows "booted w ref w'"
proof -
  have w2: "ref = w_next w" "w_store w2 = (w_store w)(ref := s)" "w_next w2 = Suc (w_next w)" "w_host w2 = w_host w"
    "w_gone w2 = w_gone w"
    using assms(1,2) by (auto simp: new_ref_def host_untouched_def)
  show ?thesis
    unfolding booted_def using host_register_effect [OF assms(3)] w2 by simp
qed

lemma Create_booted:
  assumes "host_Create launch uuid w = (res, w')"
  shows "case res of Inl e \<Rightarrow> host_untouched w w' | Inr ref \<Rightarrow> booted w ref w'"
proof (cases "host_full w")
  case True
  with assms show ?thesis by (auto simp: host_Create_def host_untouched_def)
next
  case False
  obtain res1 w1 where l: "launch w = (res1, w1)" by fastforce
  show ?thesis
  proof (cases res1)
    case (Inl e)
    with assms False l launch_untouched [OF l] show ?thesis by (auto simp: host_Create_def)
  next
    case (Inr s)
    obtain ref w2 where n: "new_ref s w1 = (ref, w2)" by fastforce
    with assms False l Inr have "res = Inr ref" "w' = host_register uuid ref w2" by (auto simp: host_Create_def)
    with register_booted [OF launch_untouched [OF l] n] show ?thesis by simp
  qed
qed

lemma CreateWarm_booted:
  assumes "host_CreateWarm launch uuid w = (Inr ref, w')"
  shows "booted w ref w'"
proof (cases "w_pool w")
  case None
  with assms Create_booted [of uuid w] show ?thesis by (auto simp: host_CreateWarm_def)
next
  case (Some p)
  obtain got p' where a: "AcquireWarm p = (got, p')" by fastforce
  let ?w = "w\<lparr>w_pool := Some p'\<rparr>"
  have same: "booted ?w ref w' = booted w ref w'" by (simp add: booted_def)
  show ?thesis
  proof (cases got)
    case None
    with assms Some a Create_booted [of uuid ?w] same show ?thesis by (auto simp: host_CreateWarm_def)
  next
    case (Some s)
    have full: "\<not> host_full ?w"
      using assms Some \<open>w_pool w = Some p\<close> a by (auto simp: host_CreateWarm_def Let_def split: if_splits)
    obtain r w2 where n: "new_ref (s\<lparr>ss_Warm := True\<rparr>) ?w = (r, w2)" by fastforce
    have "ref = r" "w' = host_register uuid r w2"
      using assms Some \<open>w_pool w = Some p\<close> a full n by (auto simp: host_CreateWarm_def Let_def)
    with register_booted [of ?w ?w, OF _ n] same show ?thesis by (auto simp: host_untouched_def)
  qed
qed

lemma boot_booted:
  "(if warm then host_CreateWarm launch uuid w else host_Create launch uuid w) = (Inr ref, w') \<Longrightarrow> booted w ref w'"
  using Create_booted [of uuid w "Inr ref" w'] by (auto intro: CreateWarm_booted split: if_splits)

lemma boot_failed:
  assumes "(if warm then host_CreateWarm launch uuid w else host_Create launch uuid w) = (Inl e, w')"
  shows "w_live w' = w_live w \<and> w_store w' = w_store w \<and> w_gone w' = w_gone w \<and> ho_onGone (w_host w') = ho_onGone (w_host w) \<and>
    w_next w' = w_next w"
proof (cases warm)
  case False
  with assms Create_booted [of uuid w] show ?thesis by (auto simp: host_untouched_def)
next
  case True
  then have c: "host_CreateWarm launch uuid w = (Inl e, w')" using assms by simp
  show ?thesis
  proof (cases "w_pool w")
    case None
    with c Create_booted [of uuid w] show ?thesis by (auto simp: host_CreateWarm_def host_untouched_def)
  next
    case (Some p)
    obtain got p' where a: "AcquireWarm p = (got, p')" by fastforce
    show ?thesis
    proof (cases got)
      case None
      with c Some a Create_booted [of uuid "w\<lparr>w_pool := Some p'\<rparr>" "Inl e" w'] show ?thesis
        by (auto simp: host_CreateWarm_def host_untouched_def)
    next
      case (Some s)
      with c \<open>w_pool w = Some p\<close> a show ?thesis
        by (auto simp: host_CreateWarm_def Let_def split: if_splits prod.splits)
    qed
  qed
qed

end

interpretation mock: vm_launcher "mockLauncher t0 t1" for t0 t1
  by unfold_locales (auto simp: mockLauncher_def host_untouched_def)

interpretation real_vms: vm_launcher "managerLauncher env wait" for env wait
  by unfold_locales (auto simp: managerLauncher_def host_untouched_def split: prod.splits sum.splits option.splits)

end
