(* ===== verification/Session_Store.thy ===== *)
theory Session_Store
  imports Netalloc "HOL-Library.List_Lexorder" "HOL-Library.Char_ord"
begin

text \<open>
  The database layer of the control plane, \<open>control-plane/internal/db/db.go\<close>: the migration
  runner and the sessions table. A SQL statement has its meaning over the table declared in
  \<open>migrations/001_sessions.sql\<close>; whether it is carried out, and whether its success is
  reported, is a \<open>db_result\<close>. Of PostgreSQL, executing the text of a migration and the
  normalisation of addresses by \<open>host(inet)\<close> are arguments, as is the IPv6 half of
  \<open>net.ParseIP\<close>. A UUID is its canonical text.
\<close>

type_synonym uuid = string

datatype db_error = DB_NotFound | DB_exec

datatype db_result = DB_done | DB_failed | DB_lost

text \<open>One row of the table.\<close>

record db_session =
  ds_ID :: uuid
  ds_Owner :: string
  ds_VMIP :: "string option"
  ds_Warm :: bool
  ds_CreatedAt :: go_time
  ds_ReadyAt :: "go_time option"
  ds_ReapedAt :: "go_time option"
  ds_LastAttachedAt :: "go_time option"

type_synonym sessions_table = "uuid \<rightharpoonup> db_session"

section \<open>The sessions table\<close>

text \<open>\<open>Pool.Exec\<close>: a lost answer is an error although the statement took effect.\<close>

definition pool_Exec :: "db_result \<Rightarrow> ('t \<Rightarrow> 't) \<Rightarrow> 't \<Rightarrow> db_error option \<times> 't" where
  "pool_Exec res f t =
     (case res of DB_done \<Rightarrow> (None, f t) | DB_failed \<Rightarrow> (Some DB_exec, t) | DB_lost \<Rightarrow> (Some DB_exec, f t))"

definition ParseIP :: "(string \<Rightarrow> bool) \<Rightarrow> string \<Rightarrow> bool" where
  "ParseIP ip6 s =
     (case find (\<lambda>c. c = CHR ''.'' \<or> c = CHR '':'') s of
        None \<Rightarrow> False
      | Some c \<Rightarrow> if c = CHR ''.'' then parse_ipv4 s \<noteq> None else ip6 s)"

definition new_row :: "(string \<Rightarrow> bool) \<Rightarrow> go_time \<Rightarrow> db_session \<Rightarrow> db_session" where
  "new_row ip6 now sess =
     \<lparr>ds_ID = ds_ID sess, ds_Owner = ds_Owner sess,
      ds_VMIP = (case ds_VMIP sess of
                   Some s \<Rightarrow> if s \<noteq> [] \<and> ParseIP ip6 s then Some s else None
                 | None \<Rightarrow> None),
      ds_Warm = ds_Warm sess, ds_CreatedAt = now, ds_ReadyAt = Some now, ds_ReapedAt = None,
      ds_LastAttachedAt = None\<rparr>"

definition InsertSession ::
  "(string \<Rightarrow> bool) \<Rightarrow> db_result \<Rightarrow> go_time \<Rightarrow> db_session \<Rightarrow> sessions_table \<Rightarrow> db_error option \<times> sessions_table" where
  "InsertSession ip6 res now sess t =
     (if t (ds_ID sess) \<noteq> None then (Some DB_exec, t)
      else pool_Exec res (\<lambda>t. t(ds_ID sess \<mapsto> new_row ip6 now sess)) t)"

definition GetSession ::
  "(string \<Rightarrow> string) \<Rightarrow> db_result \<Rightarrow> uuid \<Rightarrow> sessions_table \<Rightarrow> db_error + db_session" where
  "GetSession host_inet res sid t =
     (if res \<noteq> DB_done then Inl DB_exec
      else case t sid of
             None \<Rightarrow> Inl DB_NotFound
           | Some row \<Rightarrow> Inr (row\<lparr>ds_VMIP := map_option host_inet (ds_VMIP row)\<rparr>))"

text \<open>An \<open>update ... where id = $1\<close> with a further condition on the row.\<close>

definition update_where ::
  "uuid \<Rightarrow> (db_session \<Rightarrow> bool) \<Rightarrow> (db_session \<Rightarrow> db_session) \<Rightarrow> sessions_table \<Rightarrow> sessions_table" where
  "update_where sid P f t =
     (case t sid of None \<Rightarrow> t | Some row \<Rightarrow> if P row then t(sid \<mapsto> f row) else t)"

definition MarkSessionReaped ::
  "db_result \<Rightarrow> go_time \<Rightarrow> uuid \<Rightarrow> sessions_table \<Rightarrow> db_error option \<times> sessions_table" where
  "MarkSessionReaped res now sid =
     pool_Exec res (update_where sid (\<lambda>row. ds_ReapedAt row = None) (\<lambda>row. row\<lparr>ds_ReapedAt := Some now\<rparr>))"

definition TouchSessionAttached ::
  "db_result \<Rightarrow> go_time \<Rightarrow> uuid \<Rightarrow> sessions_table \<Rightarrow> db_error option \<times> sessions_table" where
  "TouchSessionAttached res now sid =
     pool_Exec res (update_where sid (\<lambda>_. True) (\<lambda>row. row\<lparr>ds_LastAttachedAt := Some now\<rparr>))"

section \<open>Migrations\<close>

text \<open>\<open>extractGooseUp\<close>: the loop over the lines, with the flag \<open>inUp\<close>.\<close>

fun goose_lines :: "bool \<Rightarrow> string list \<Rightarrow> string list" where
  "goose_lines inUp [] = []"
| "goose_lines inUp (line # rest) =
     (let trim = TrimSpace line
      in if HasPrefix trim ''-- +goose Up'' then goose_lines True rest
         else if HasPrefix trim ''-- +goose Down'' then goose_lines False rest
         else if \<not> inUp then goose_lines inUp rest
         else if HasPrefix trim ''-- +goose StatementBegin'' \<or> HasPrefix trim ''-- +goose StatementEnd''
           then goose_lines inUp rest
         else line # goose_lines inUp rest)"

definition extractGooseUp :: "string \<Rightarrow> string" where
  "extractGooseUp src = Join [CHR 0x0A] (goose_lines False (Split (CHR 0x0A) src))"

text \<open>The embedded directory, and the database: the recorded migrations, oldest first, and the rest.\<close>

record mig_file =
  mf_name :: string
  mf_isDir :: bool
  mf_raw :: string

record 'd pg =
  pg_migrations :: "string list option"
  pg_data :: 'd

text \<open>What goes wrong with one migration; \<open>F_commit_lost\<close> is a commit whose answer is lost.\<close>

datatype mig_fault = F_none | F_check | F_begin | F_record | F_commit | F_commit_lost

definition pg_applied :: "'d pg \<Rightarrow> string list" where
  "pg_applied db = (case pg_migrations db of None \<Rightarrow> [] | Some ids \<Rightarrow> ids)"

definition mig_names :: "mig_file list \<Rightarrow> string list" where
  "mig_names entries = sort (map mf_name (filter (\<lambda>e. \<not> mf_isDir e \<and> HasSuffix (mf_name e) ''.sql'') entries))"

definition mig_up :: "mig_file list \<Rightarrow> string \<Rightarrow> string" where
  "mig_up entries name =
     (case map_of (map (\<lambda>e. (mf_name e, mf_raw e)) entries) name of None \<Rightarrow> [] | Some raw \<Rightarrow> extractGooseUp raw)"

text \<open>One migration in its transaction: whether it returns without error, and the database.\<close>

definition migrate_one ::
  "(string \<Rightarrow> 'd \<Rightarrow> 'd option) \<Rightarrow> mig_fault \<Rightarrow> string \<Rightarrow> string \<Rightarrow> 'd pg \<Rightarrow> bool \<times> 'd pg" where
  "migrate_one exec flt name up db =
     (if flt = F_check then (False, db)
      else if name \<in> set (pg_applied db) then (True, db)
      else if TrimSpace up = [] \<or> flt = F_begin then (False, db)
      else case exec up (pg_data db) of
             None \<Rightarrow> (False, db)
           | Some d \<Rightarrow>
               if flt = F_record \<or> flt = F_commit then (False, db)
               else (flt \<noteq> F_commit_lost, db\<lparr>pg_migrations := Some (pg_applied db @ [name]), pg_data := d\<rparr>))"

fun migrate_names ::
  "(string \<Rightarrow> 'd \<Rightarrow> 'd option) \<Rightarrow> (string \<Rightarrow> mig_fault) \<Rightarrow> mig_file list \<Rightarrow> string list \<Rightarrow> 'd pg \<Rightarrow> bool \<times> 'd pg" where
  "migrate_names exec flt entries [] db = (True, db)"
| "migrate_names exec flt entries (name # names) db =
     (case migrate_one exec (flt name) name (mig_up entries name) db of
        (True, db1) \<Rightarrow> migrate_names exec flt entries names db1
      | (False, db1) \<Rightarrow> (False, db1))"

definition Migrate ::
  "(string \<Rightarrow> 'd \<Rightarrow> 'd option) \<Rightarrow> bool \<Rightarrow> (string \<Rightarrow> mig_fault) \<Rightarrow> mig_file list \<Rightarrow> 'd pg \<Rightarrow> bool \<times> 'd pg" where
  "Migrate exec create_ok flt entries db =
     (if \<not> create_ok then (False, db)
      else migrate_names exec flt entries (mig_names entries)
             (db\<lparr>pg_migrations := Some (pg_applied db)\<rparr>))"

section \<open>Migrations run once\<close>

fun exec_all :: "(string \<Rightarrow> 'd \<Rightarrow> 'd option) \<Rightarrow> string list \<Rightarrow> 'd \<Rightarrow> 'd option" where
  "exec_all exec [] d = Some d"
| "exec_all exec (u # us) d = (case exec u d of None \<Rightarrow> None | Some d1 \<Rightarrow> exec_all exec us d1)"

lemma exec_all_append:
  "exec_all exec (us @ vs) d = (case exec_all exec us d of None \<Rightarrow> None | Some d1 \<Rightarrow> exec_all exec vs d1)"
  by (induction us arbitrary: d) (auto split: option.splits)

text \<open>The database is the one obtained by executing the first migrations, and records exactly these.\<close>

definition migrated :: "(string \<Rightarrow> 'd \<Rightarrow> 'd option) \<Rightarrow> mig_file list \<Rightarrow> 'd \<Rightarrow> string list \<Rightarrow> 'd pg \<Rightarrow> bool" where
  "migrated exec entries d0 done db \<longleftrightarrow>
     pg_applied db = done \<and> exec_all exec (map (mig_up entries) done) d0 = Some (pg_data db)"

lemma pg_applied_upd [simp]: "pg_applied (db\<lparr>pg_migrations := Some ids, pg_data := d\<rparr>) = ids"
  "pg_applied (db\<lparr>pg_migrations := Some ids\<rparr>) = ids"
  by (simp_all add: pg_applied_def)

lemma migrate_one_cases:
  assumes "migrate_one exec flt name (mig_up entries name) db = (ok, db')" "migrated exec entries d0 done db"
  shows "db' = db \<and> (ok \<longrightarrow> name \<in> set done) \<or> name \<notin> set done \<and> migrated exec entries d0 (done @ [name]) db'"
  using assms by (auto simp: migrate_one_def migrated_def exec_all_append split: if_splits option.splits)

lemma migrate_names_prefix:
  assumes "distinct (done @ names)"
  shows "migrate_names exec flt entries names db = (ok, db') \<Longrightarrow> migrated exec entries d0 done db \<Longrightarrow>
    \<exists>n. migrated exec entries d0 (done @ take n names) db' \<and> (ok \<longrightarrow> n = length names)"
  using assms
proof (induction names arbitrary: db "done")
  case Nil
  then show ?case by auto
next
  case (Cons name names)
  obtain ok1 db1 where one: "migrate_one exec (flt name) name (mig_up entries name) db = (ok1, db1)" by fastforce
  have new: "name \<notin> set done" using Cons.prems(3) by simp
  consider "db1 = db" "\<not> ok1" | "migrated exec entries d0 (done @ [name]) db1"
    using migrate_one_cases [OF one Cons.prems(2)] new by blast
  then show ?case
  proof cases
    case 1
    then have "db' = db" "\<not> ok" using Cons.prems(1) one by auto
    with Cons.prems(2) show ?thesis by (intro exI [of _ 0]) simp
  next
    case 2
    show ?thesis
    proof (cases ok1)
      case True
      then obtain n where "migrated exec entries d0 ((done @ [name]) @ take n names) db'" "ok \<longrightarrow> n = length names"
        using Cons.IH [OF _ 2] Cons.prems(1,3) one by auto
      then show ?thesis by (intro exI [of _ "Suc n"]) simp
    next
      case False
      then have "db' = db1" "\<not> ok" using Cons.prems(1) one by auto
      with 2 show ?thesis by (intro exI [of _ 1]) simp
    qed
  qed
qed

lemma migrate_names_skip:
  assumes "migrated exec entries d0 done db" "set xs \<subseteq> set done"
  shows "migrate_names exec flt entries (xs @ ys) db =
    (if \<exists>x \<in> set xs. flt x = F_check then (False, db) else migrate_names exec flt entries ys db)"
  using assms(2)
proof (induction xs)
  case (Cons x xs)
  then have "x \<in> set (pg_applied db)" using assms(1) by (simp add: migrated_def)
  with Cons show ?case by (auto simp: migrate_one_def)
qed simp

lemma Migrate_prefix:
  assumes "Migrate exec create_ok flt entries db = (ok, db')" "distinct (mig_names entries)"
    and "migrated exec entries d0 (take n (mig_names entries)) db"
  shows "\<exists>m \<ge> n. migrated exec entries d0 (take m (mig_names entries)) db' \<and> (ok \<longrightarrow> m \<ge> length (mig_names entries))"
proof (cases create_ok)
  case False
  with assms show ?thesis by (auto simp: Migrate_def)
next
  case True
  let ?names = "mig_names entries" and ?db = "db\<lparr>pg_migrations := Some (pg_applied db)\<rparr>"
  have db: "migrated exec entries d0 (take n ?names) ?db"
    using assms(3) by (simp add: migrated_def)
  have "migrate_names exec flt entries (take n ?names @ drop n ?names) ?db = (ok, db')"
    using assms(1) True by (simp add: Migrate_def)
  then have eq: "(if \<exists>x \<in> set (take n ?names). flt x = F_check then (False, ?db)
      else migrate_names exec flt entries (drop n ?names) ?db) = (ok, db')"
    unfolding migrate_names_skip [OF db subset_refl] .
  show ?thesis
  proof (cases "\<exists>x \<in> set (take n ?names). flt x = F_check")
    case True
    with eq have "\<not> ok" "db' = ?db" unfolding if_P [OF True] by simp_all
    with db show ?thesis by blast
  next
    case False
    have 2: "migrate_names exec flt entries (drop n ?names) ?db = (ok, db')"
      using eq unfolding if_not_P [OF False] .
    have "distinct (take n ?names @ drop n ?names)" using assms(2) by simp
    from migrate_names_prefix [OF this 2 db]
    obtain k where k: "migrated exec entries d0 (take n ?names @ take k (drop n ?names)) db'"
      "ok \<longrightarrow> k = length (drop n ?names)" by blast
    have "take n ?names @ take k (drop n ?names) = take (n + k) ?names"
      by (simp add: take_add)
    with k show ?thesis by (intro exI [of _ "n + k"]) auto
  qed
qed

text \<open>Start after start, each with its own faults.\<close>

fun migrate_starts ::
  "(string \<Rightarrow> 'd \<Rightarrow> 'd option) \<Rightarrow> mig_file list \<Rightarrow> (bool \<times> (string \<Rightarrow> mig_fault)) list \<Rightarrow> 'd pg \<Rightarrow> bool list \<times> 'd pg" where
  "migrate_starts exec entries [] db = ([], db)"
| "migrate_starts exec entries ((create_ok, flt) # as) db =
     (case Migrate exec create_ok flt entries db of
        (ok, db1) \<Rightarrow> (case migrate_starts exec entries as db1 of (oks, db2) \<Rightarrow> (ok # oks, db2)))"

lemma migrate_starts_prefix:
  "migrate_starts exec entries as db = (oks, db') \<Longrightarrow> distinct (mig_names entries) \<Longrightarrow>
   migrated exec entries d0 (take n (mig_names entries)) db \<Longrightarrow>
   \<exists>m \<ge> n. migrated exec entries d0 (take m (mig_names entries)) db' \<and>
     (True \<in> set oks \<longrightarrow> m \<ge> length (mig_names entries))"
proof (induction as arbitrary: db n oks)
  case Nil
  then show ?case by auto
next
  case (Cons a as)
  obtain create_ok flt where a: "a = (create_ok, flt)" by fastforce
  obtain ok db1 oks1 where r: "Migrate exec create_ok flt entries db = (ok, db1)"
    "migrate_starts exec entries as db1 = (oks1, db')" "oks = ok # oks1"
    using Cons.prems(1) by (auto simp: a split: prod.splits)
  from Migrate_prefix [OF r(1) Cons.prems(2,3)] obtain m where m: "m \<ge> n"
    "migrated exec entries d0 (take m (mig_names entries)) db1" "ok \<longrightarrow> m \<ge> length (mig_names entries)" by blast
  from Cons.IH [OF r(2) Cons.prems(2) m(2)] obtain k where "k \<ge> m"
    "migrated exec entries d0 (take k (mig_names entries)) db'" "True \<in> set oks1 \<longrightarrow> k \<ge> length (mig_names entries)" by blast
  with m show ?case by (intro exI [of _ k]) (auto simp: r(3))
qed

text \<open>
  C34: Every migration is applied exactly once, in the order of the names. However often the
  daemon starts, and wherever a start fails (also when the database commits but the answer is
  lost), the database is what executing the Up blocks of the first few migrations, one after the
  other and each once, makes of the empty one, and records exactly these; once a start has
  succeeded these are all of them, and later starts change nothing.
\<close>

theorem migrate_exactly_once:
  assumes "distinct (map mf_name entries)"
    and "migrate_starts exec entries starts \<lparr>pg_migrations = None, pg_data = d0\<rparr> = (oks, db)"
  shows "\<exists>n. pg_applied db = take n (mig_names entries) \<and>
     exec_all exec (map (mig_up entries) (take n (mig_names entries))) d0 = Some (pg_data db) \<and>
     (True \<in> set oks \<longrightarrow> pg_applied db = mig_names entries \<and>
        pg_data (snd (Migrate exec create_ok flt entries db)) = pg_data db)"
proof -
  have d: "distinct (mig_names entries)"
    using assms(1) unfolding mig_names_def distinct_sort by (simp add: distinct_map inj_on_def)
  have "migrated exec entries d0 (take 0 (mig_names entries)) \<lparr>pg_migrations = None, pg_data = d0\<rparr>"
    by (simp add: migrated_def pg_applied_def)
  from migrate_starts_prefix [OF assms(2) d this] obtain m where m:
    "migrated exec entries d0 (take m (mig_names entries)) db" "True \<in> set oks \<longrightarrow> m \<ge> length (mig_names entries)"
    by blast
  obtain ok db' where next_start: "Migrate exec create_ok flt entries db = (ok, db')" by fastforce
  from Migrate_prefix [OF this d m(1)] obtain k where "k \<ge> m" "migrated exec entries d0 (take k (mig_names entries)) db'"
    by blast
  with m show ?thesis
    unfolding migrated_def next_start by (intro exI [of _ m]) auto
qed

definition ex_entries :: "mig_file list" where
  "ex_entries =
     [\<lparr>mf_name = ''2.sql'', mf_isDir = False, mf_raw = ''-- +goose Up'' @ [CHR 0x0A] @ ''b''\<rparr>,
      \<lparr>mf_name = ''1.sql'', mf_isDir = False, mf_raw = ''-- +goose Up'' @ [CHR 0x0A] @ ''a''\<rparr>]"

theorem migrate_exactly_once_witness:
  "\<exists>db. migrate_starts (\<lambda>u d. Some (d @ [u])) ex_entries
       [(True, (\<lambda>n. if n = ''2.sql'' then F_commit_lost else F_none)), (True, \<lambda>_. F_none)]
       \<lparr>pg_migrations = None, pg_data = []\<rparr> = ([False, True], db) \<and>
     pg_applied db = [''1.sql'', ''2.sql''] \<and> pg_data db = [''a'', ''b'']"
proof -
  let ?f = "\<lambda>n. if n = ''2.sql'' then F_commit_lost else F_none"
  let ?r = "migrate_starts (\<lambda>u d. Some (d @ [u])) ex_entries [(True, ?f), (True, \<lambda>_. F_none)] \<lparr>pg_migrations = None, pg_data = []\<rparr>"
  have r: "fst ?r = [False, True]" "mig_names ex_entries = [''1.sql'', ''2.sql'']"
    "distinct (map mf_name ex_entries)" "map (mig_up ex_entries) [''1.sql'', ''2.sql''] = [''a'', ''b'']"
    subgoal by code_simp
    subgoal by code_simp
    subgoal by code_simp
    subgoal by code_simp
    done
  from r(1) obtain db where db: "?r = ([False, True], db)" by (metis prod.collapse)
  from migrate_exactly_once [OF r(3) db, of True "\<lambda>_. F_none"]
  obtain n where n: "pg_applied db = take n (mig_names ex_entries)" "pg_applied db = mig_names ex_entries"
    "exec_all (\<lambda>u d. Some (d @ [u])) (map (mig_up ex_entries) (take n (mig_names ex_entries))) [] = Some (pg_data db)"
    using list.set_intros(1) [of True "[]", THEN list.set_intros(2), of False] by blast
  have t: "take n (mig_names ex_entries) = [''1.sql'', ''2.sql'']" using n(1,2) r(2) by simp
  have "exec_all (\<lambda>u d. Some (d @ [u])) [''a'', ''b''] [] = Some (pg_data db)"
    using n(3) unfolding t r(4) .
  with db n(2) r(2) show ?thesis by (intro exI [of _ db]) simp
qed

section \<open>The history of a session\<close>

datatype store_op = Op_insert db_session | Op_mark uuid | Op_touch uuid

fun store_apply :: "(string \<Rightarrow> bool) \<Rightarrow> db_result \<times> go_time \<times> store_op \<Rightarrow> sessions_table \<Rightarrow> sessions_table" where
  "store_apply ip6 (res, now, Op_insert sess) t = snd (InsertSession ip6 res now sess t)"
| "store_apply ip6 (res, now, Op_mark sid) t = snd (MarkSessionReaped res now sid t)"
| "store_apply ip6 (res, now, Op_touch sid) t = snd (TouchSessionAttached res now sid t)"

text \<open>The moments at which statements on a session took effect.\<close>

fun mark_times :: "uuid \<Rightarrow> (db_result \<times> go_time \<times> store_op) list \<Rightarrow> go_time list" where
  "mark_times sid [] = []"
| "mark_times sid ((res, now, Op_mark i) # ops) =
     (if i = sid \<and> res \<noteq> DB_failed then [now] else []) @ mark_times sid ops"
| "mark_times sid (_ # ops) = mark_times sid ops"

fun touch_times :: "uuid \<Rightarrow> (db_result \<times> go_time \<times> store_op) list \<Rightarrow> go_time list" where
  "touch_times sid [] = []"
| "touch_times sid ((res, now, Op_touch i) # ops) =
     (if i = sid \<and> res \<noteq> DB_failed then [now] else []) @ touch_times sid ops"
| "touch_times sid (_ # ops) = touch_times sid ops"

text \<open>The row of a session, read off the list of operations.\<close>

fun row_history :: "(string \<Rightarrow> bool) \<Rightarrow> uuid \<Rightarrow> (db_result \<times> go_time \<times> store_op) list \<Rightarrow> db_session option" where
  "row_history ip6 sid [] = None"
| "row_history ip6 sid ((res, now, Op_insert sess) # ops) =
     (if ds_ID sess = sid \<and> res \<noteq> DB_failed then
        Some ((new_row ip6 now sess)
          \<lparr>ds_ReapedAt := (case mark_times sid ops of [] \<Rightarrow> None | t # _ \<Rightarrow> Some t),
           ds_LastAttachedAt := (case rev (touch_times sid ops) of [] \<Rightarrow> None | t # _ \<Rightarrow> Some t)\<rparr>)
      else row_history ip6 sid ops)"
| "row_history ip6 sid (_ # ops) = row_history ip6 sid ops"

lemma row_kept:
  "t sid = Some row \<Longrightarrow>
   fold (store_apply ip6) ops t sid =
     Some (row\<lparr>ds_ReapedAt := (case ds_ReapedAt row of
                  Some x \<Rightarrow> Some x | None \<Rightarrow> (case mark_times sid ops of [] \<Rightarrow> None | x # _ \<Rightarrow> Some x)),
               ds_LastAttachedAt := (case rev (touch_times sid ops) of [] \<Rightarrow> ds_LastAttachedAt row | x # _ \<Rightarrow> Some x)\<rparr>)"
proof (induction ops arbitrary: t row)
  case Nil
  then show ?case by (cases "ds_ReapedAt row") simp_all
next
  case (Cons o' ops)
  obtain res now op where o': "o' = (res, now, op)" by (metis prod_cases3)
  show ?case
  proof (cases op)
    case (Op_insert sess)
    have "store_apply ip6 o' t sid = Some row"
      using Cons.prems by (cases res) (auto simp: o' Op_insert InsertSession_def pool_Exec_def)
    from Cons.IH [of "store_apply ip6 o' t", OF this] show ?thesis
      by (cases "ds_ReapedAt row") (simp_all add: o' Op_insert)
  next
    case (Op_mark i)
    show ?thesis
    proof (cases "i = sid \<and> res \<noteq> DB_failed")
      case True
      then have "store_apply ip6 o' t sid =
          Some (row\<lparr>ds_ReapedAt := (case ds_ReapedAt row of None \<Rightarrow> Some now | Some x \<Rightarrow> Some x)\<rparr>)"
        using Cons.prems by (cases res; cases "ds_ReapedAt row")
          (auto simp: o' Op_mark MarkSessionReaped_def pool_Exec_def update_where_def)
      from Cons.IH [of "store_apply ip6 o' t", OF this] True show ?thesis
        by (cases "ds_ReapedAt row"; cases "rev (touch_times sid ops)") (simp_all add: o' Op_mark)
    next
      case False
      then have "store_apply ip6 o' t sid = Some row"
        using Cons.prems by (cases res)
          (auto simp: o' Op_mark MarkSessionReaped_def pool_Exec_def update_where_def split: option.splits)
      from Cons.IH [of "store_apply ip6 o' t", OF this] False show ?thesis
        by (cases "ds_ReapedAt row") (auto simp: o' Op_mark)
    qed
  next
    case (Op_touch i)
    show ?thesis
    proof (cases "i = sid \<and> res \<noteq> DB_failed")
      case True
      then have "store_apply ip6 o' t sid = Some (row\<lparr>ds_LastAttachedAt := Some now\<rparr>)"
        using Cons.prems by (cases res)
          (auto simp: o' Op_touch TouchSessionAttached_def pool_Exec_def update_where_def)
      from Cons.IH [of "store_apply ip6 o' t", OF this] True show ?thesis
        by (cases "ds_ReapedAt row"; cases "rev (touch_times sid ops)") (simp_all add: o' Op_touch)
    next
      case False
      then have "store_apply ip6 o' t sid = Some row"
        using Cons.prems by (cases res)
          (auto simp: o' Op_touch TouchSessionAttached_def pool_Exec_def update_where_def split: option.splits)
      from Cons.IH [of "store_apply ip6 o' t", OF this] False show ?thesis
        by (cases "ds_ReapedAt row") (auto simp: o' Op_touch)
    qed
  qed
qed

lemma row_created:
  "t sid = None \<Longrightarrow> fold (store_apply ip6) ops t sid = row_history ip6 sid ops"
proof (induction ops arbitrary: t)
  case (Cons o' ops)
  obtain res now op where o': "o' = (res, now, op)" by (metis prod_cases3)
  show ?case
  proof (cases "\<exists>sess. op = Op_insert sess \<and> ds_ID sess = sid \<and> res \<noteq> DB_failed")
    case True
    then obtain sess where op: "op = Op_insert sess" "ds_ID sess = sid" "res \<noteq> DB_failed" by blast
    then have "store_apply ip6 o' t sid = Some (new_row ip6 now sess)"
      using Cons.prems by (cases res) (auto simp: o' InsertSession_def pool_Exec_def)
    from row_kept [of "store_apply ip6 o' t", OF this] show ?thesis
      using op by (cases "rev (touch_times sid ops)") (simp_all add: o' new_row_def)
  next
    case False
    then have "store_apply ip6 o' t sid = None"
      using Cons.prems
      by (cases op; cases res)
        (auto simp: o' InsertSession_def MarkSessionReaped_def TouchSessionAttached_def pool_Exec_def update_where_def
          split: option.splits)
    from Cons.IH [of "store_apply ip6 o' t", OF this] False show ?thesis by (cases op) (auto simp: o')
  qed
qed simp

text \<open>
  C35: The table is a faithful history. After any sequence of inserts, marks and touches, some of
  which fail and some of which succeed without the caller being told, the row of a session holds
  what its first effective insert stored, the moment of the first effective mark after it, however
  many follow, and the moment of the last effective touch; there is no row exactly when there was
  no such insert.
\<close>

theorem store_history:
  "fold (store_apply ip6) ops Map.empty sid = row_history ip6 sid ops"
  by (rule row_created) simp

end
