(* ===== verification/Float64.thy ===== *)
theory Float64
  imports Complex_Main Json_Number
begin

text \<open>
  Arithmetic on \<open>float64\<close> as the program uses it: a rational number rounded to 53 significant
  bits, ties to even. The exponent is not limited; the numbers the program computes with lie
  between \<open>10^-10\<close> and \<open>10^11\<close>, far inside the normal range.
\<close>

definition pow2 :: "int \<Rightarrow> rat" where
  "pow2 k = (if 0 \<le> k then 2 ^ nat k else 1 / 2 ^ nat (- k))"

definition round_even :: "rat \<Rightarrow> int" where
  "round_even x =
     (let f = \<lfloor>x\<rfloor>; d = x - of_int f
      in if d < 1 / 2 then f else if d > 1 / 2 then f + 1 else if even f then f else f + 1)"

function ilog2 :: "int \<Rightarrow> int" where
  "ilog2 n = (if n < 2 then 0 else 1 + ilog2 (n div 2))"
  by pat_completeness auto

termination ilog2
  by (relation "measure nat") auto

declare ilog2.simps [simp del]

text \<open>The exponent of a positive number: \<open>pow2 (binade x) \<le> x < pow2 (binade x + 1)\<close>.\<close>

definition binade :: "rat \<Rightarrow> int" where
  "binade x =
     (let (p, q) = quotient_of x; k = ilog2 p - ilog2 q
      in if pow2 k \<le> x then k else k - 1)"

definition fl64 :: "rat \<Rightarrow> rat" where
  "fl64 x =
     (if x = 0 then 0
      else (let u = pow2 (binade \<bar>x\<bar> - 52) in of_int (round_even (x / u)) * u))"

section \<open>The rounding error\<close>

lemma pow2_powi: "pow2 k = 2 powi k"
  by (simp add: pow2_def power_int_def field_simps)

lemma pow2_pos [simp]: "0 < pow2 k"
  by (simp add: pow2_def)

lemma pow2_add: "pow2 (a + b) = pow2 a * pow2 b"
  by (simp add: pow2_powi power_int_add)

lemma round_even_error: "\<bar>of_int (round_even x) - x\<bar> \<le> 1 / 2"
proof -
  have "of_int \<lfloor>x\<rfloor> \<le> x" "x < of_int \<lfloor>x\<rfloor> + 1" by linarith+
  then show ?thesis
    unfolding round_even_def Let_def by auto
qed

lemma ilog2_bounds: "0 < n \<Longrightarrow> 0 \<le> ilog2 n \<and> 2 ^ nat (ilog2 n) \<le> n \<and> n < 2 ^ Suc (nat (ilog2 n))"
proof (induction n rule: ilog2.induct)
  case (1 n)
  show ?case
  proof (cases "n < 2")
    case True
    with 1 show ?thesis by (simp add: ilog2.simps [of n])
  next
    case False
    then have "0 < n div 2" by linarith
    with 1 False have m: "0 \<le> ilog2 (n div 2)" "2 ^ nat (ilog2 (n div 2)) \<le> n div 2"
      "n div 2 < 2 ^ Suc (nat (ilog2 (n div 2)))" by simp_all
    moreover have "n = 2 * (n div 2) + n mod 2" "0 \<le> n mod 2" "n mod 2 < 2" by simp_all
    ultimately have "2 * 2 ^ nat (ilog2 (n div 2)) \<le> n" "n < 4 * 2 ^ nat (ilog2 (n div 2))"
      unfolding power_Suc by linarith+
    with False m(1) show ?thesis by (simp add: ilog2.simps [of n] nat_add_distrib)
  qed
qed

lemma binade_le:
  assumes "0 < x"
  shows "pow2 (binade x) \<le> x"
proof -
  obtain p q where pq: "quotient_of x = (p, q)" by fastforce
  then have q: "0 < q" and x: "x = of_int p / of_int q"
    by (simp_all add: quotient_of_denom_pos quotient_of_div)
  with assms have p: "0 < p" by (simp add: zero_less_divide_iff)
  define a b where "a = nat (ilog2 p)" and "b = nat (ilog2 q)"
  have k: "ilog2 p = int a" "ilog2 q = int b" "(2::int) ^ a \<le> p" "q < 2 ^ Suc b"
    using ilog2_bounds [OF p] ilog2_bounds [OF q] by (simp_all add: a_def b_def)
  then have ab: "(2::rat) ^ a \<le> of_int p" "of_int q < (2::rat) ^ Suc b"
    by (metis of_int_le_iff of_int_numeral of_int_power, metis of_int_less_iff of_int_numeral of_int_power)
  have "pow2 (int a - int b - 1) = 2 ^ a / 2 ^ Suc b"
    by (simp add: pow2_powi power_int_diff)
  also have "\<dots> \<le> x"
    unfolding x using ab p q by (intro frac_le) simp_all
  finally show ?thesis
    by (simp add: binade_def pq Let_def k)
qed

lemma fl64_error: "\<bar>fl64 x - x\<bar> \<le> \<bar>x\<bar> / 2 ^ 53"
proof (cases "x = 0")
  case False
  define u where "u = pow2 (binade \<bar>x\<bar> - 52)"
  have u: "0 < u" "u = pow2 (binade \<bar>x\<bar>) / 2 ^ 52"
    using pow2_add [of "binade \<bar>x\<bar>" "- 52"] by (simp_all add: u_def) (simp add: pow2_def)
  have "\<bar>fl64 x - x\<bar> = \<bar>of_int (round_even (x / u)) - x / u\<bar> * u"
    using False u(1) by (simp add: fl64_def Let_def abs_mult_pos left_diff_distrib flip: u_def)
  also have "\<dots> \<le> 1 / 2 * u"
    using u(1) round_even_error by (intro mult_right_mono) simp_all
  also have "\<dots> \<le> \<bar>x\<bar> / 2 ^ 53"
    using binade_le [of "\<bar>x\<bar>"] False by (simp add: u(2))
  finally show ?thesis .
qed (simp add: fl64_def)

text \<open>For nonnegative numbers, with \<open>ulp\<close> the relative error.\<close>

definition ulp :: rat where
  "ulp = 1 / 2 ^ 53"

lemma fl64_upper: "0 \<le> x \<Longrightarrow> fl64 x \<le> (1 + ulp) * x"
  using fl64_error [of x] abs_ge_self [of "fl64 x - x"] by (simp add: ulp_def algebra_simps)

lemma fl64_nonneg:
  assumes "0 \<le> x"
  shows "0 \<le> fl64 x"
proof -
  have "x / 2 ^ 53 \<le> x" using assms by simp
  then show ?thesis using fl64_error [of x] assms by linarith
qed

end
