(* ===== verification/Http.thy ===== *)
theory Http
  imports Streaming
begin

text \<open>
  The parts of \<open>net/http\<close> that the proxy and the control plane share: header maps (an
  association list, since the iteration order of a Go map is arbitrary), requests, and a
  response writer over the client connection of \<open>Streaming\<close>.
\<close>

type_synonym header = "(string \<times> string list) list"

fun aupdate :: "string \<Rightarrow> 'a \<Rightarrow> (string \<times> 'a) list \<Rightarrow> (string \<times> 'a) list" where
  "aupdate k v [] = [(k, v)]"
| "aupdate k v ((k', v') # h) = (if k = k' then (k, v) # h else (k', v') # aupdate k v h)"

definition header_values :: "header \<Rightarrow> string \<Rightarrow> string list" where
  "header_values h k = (case map_of h (CanonicalHeaderKey k) of None \<Rightarrow> [] | Some vs \<Rightarrow> vs)"

definition header_Get :: "header \<Rightarrow> string \<Rightarrow> string" where
  "header_Get h k = (case header_values h k of [] \<Rightarrow> [] | v # _ \<Rightarrow> v)"

definition header_Set :: "string \<Rightarrow> string \<Rightarrow> header \<Rightarrow> header" where
  "header_Set k v h = aupdate (CanonicalHeaderKey k) [v] h"

definition header_Add :: "string \<Rightarrow> string \<Rightarrow> header \<Rightarrow> header" where
  "header_Add k v h = aupdate (CanonicalHeaderKey k) (header_values h k @ [v]) h"

definition header_Del :: "string \<Rightarrow> header \<Rightarrow> header" where
  "header_Del k h = filter (\<lambda>(k', _). k' \<noteq> CanonicalHeaderKey k) h"

text \<open>The loop \<open>for k, vv := range src { for _, v := range vv { dst.Add(k, v) } }\<close>.\<close>

definition add_values :: "string \<Rightarrow> string list \<Rightarrow> header \<Rightarrow> header" where
  "add_values k vs h = foldl (\<lambda>h v. header_Add k v h) h vs"

definition add_headers :: "header \<Rightarrow> header \<Rightarrow> header" where
  "add_headers src dst = foldl (\<lambda>h (k, vs). add_values k vs h) dst src"

record http_request =
  rq_Method :: string
  rq_Path :: string
  rq_Header :: header
  rq_Body :: "body_reader option"

text \<open>A status of 0 means that \<open>WriteHeader\<close> was not called yet.\<close>

record response_writer =
  rs_header :: header
  rs_status :: int
  rs_client :: client_writer

definition new_response :: "client_writer \<Rightarrow> response_writer" where
  "new_response c = \<lparr>rs_header = [], rs_status = 0, rs_client = c\<rparr>"

definition set_header :: "string \<Rightarrow> string \<Rightarrow> response_writer \<Rightarrow> response_writer" where
  "set_header k v w = w\<lparr>rs_header := header_Set k v (rs_header w)\<rparr>"

definition WriteHeader :: "int \<Rightarrow> response_writer \<Rightarrow> response_writer" where
  "WriteHeader st w = (if rs_status w = 0 then w\<lparr>rs_status := st\<rparr> else w)"

definition rs_write :: "string \<Rightarrow> response_writer \<Rightarrow> response_writer" where
  "rs_write p w =
     (let w' = WriteHeader 200 w in w'\<lparr>rs_client := fst (cw_write p (rs_client w'))\<rparr>)"

text \<open>\<open>http.Error\<close>.\<close>

definition http_Error :: "string \<Rightarrow> int \<Rightarrow> response_writer \<Rightarrow> response_writer" where
  "http_Error msg code w =
     rs_write (msg @ [CHR 0x0A])
       (WriteHeader code
         (set_header ''X-Content-Type-Options'' ''nosniff''
           (set_header ''Content-Type'' ''text/plain; charset=utf-8''
             (w\<lparr>rs_header := header_Del ''Content-Length'' (rs_header w)\<rparr>))))"

text \<open>\<open>io.Copy(&buf, io.LimitReader(body, n))\<close>: the bytes copied and the read error met.\<close>

definition read_limited :: "nat \<Rightarrow> body_reader \<Rightarrow> string \<times> string option" where
  "read_limited n b =
     (if n \<le> length (br_bytes b) then (take n (br_bytes b), None) else (br_bytes b, br_err b))"

section \<open>Lemmas\<close>

lemma map_of_aupdate [simp]: "map_of (aupdate k v h) = (map_of h)(k \<mapsto> v)"
  by (induction k v h rule: aupdate.induct) auto

lemma aupdate_keys [simp]: "fst ` set (aupdate k v h) = insert k (fst ` set h)"
  by (induction k v h rule: aupdate.induct) auto

lemma aupdate_distinct: "distinct (map fst h) \<Longrightarrow> distinct (map fst (aupdate k v h))"
proof (induction k v h rule: aupdate.induct)
  case (2 k v k' v' h)
  have "set (map fst (aupdate k v h)) = insert k (set (map fst h))"
    by simp
  then show ?case
    using 2 by auto
qed simp

lemma header_Set_values:
  "header_values (header_Set k v h) k' =
     (if CanonicalHeaderKey k = CanonicalHeaderKey k' then [v] else header_values h k')"
  by (simp add: header_values_def header_Set_def)

lemma header_Add_values:
  "header_values (header_Add k v h) k' =
     (if CanonicalHeaderKey k = CanonicalHeaderKey k' then header_values h k' @ [v] else header_values h k')"
  by (simp add: header_values_def header_Add_def)

lemma add_values_values:
  "header_values (add_values k vs h) k' =
     (if CanonicalHeaderKey k = CanonicalHeaderKey k' then header_values h k' @ vs else header_values h k')"
  unfolding add_values_def by (induction vs arbitrary: h) (simp_all add: header_Add_values)

lemma add_headers_values:
  "header_values (add_headers src dst) k =
     header_values dst k @ concat (map snd (filter (\<lambda>(k', _). CanonicalHeaderKey k' = CanonicalHeaderKey k) src))"
  unfolding add_headers_def
  by (induction src arbitrary: dst) (auto simp: add_values_values)

lemma header_Get_Set:
  "header_Get (header_Set k v h) k' = (if CanonicalHeaderKey k = CanonicalHeaderKey k' then v else header_Get h k')"
  by (simp add: header_Get_def header_Set_values)

lemma rs_simps [simp]:
  "rs_status (set_header k v w) = rs_status w" "rs_client (set_header k v w) = rs_client w"
  "rs_header (WriteHeader st w) = rs_header w" "rs_client (WriteHeader st w) = rs_client w"
  "rs_header (rs_write p w) = rs_header w"
  "rs_header (set_header k v w) = header_Set k v (rs_header w)"
  by (simp_all add: set_header_def WriteHeader_def rs_write_def Let_def)

lemma rs_status_simps [simp]:
  "rs_status (WriteHeader st w) = (if rs_status w = 0 then st else rs_status w)"
  "rs_status w \<noteq> 0 \<Longrightarrow> rs_status (rs_write p w) = rs_status w"
  by (simp_all add: WriteHeader_def rs_write_def Let_def)

lemma http_Error_status [simp]: "rs_status w = 0 \<Longrightarrow> code \<noteq> 0 \<Longrightarrow> rs_status (http_Error msg code w) = code"
  by (simp add: http_Error_def)

end
