(* ===== verification/Web.thy ===== *)
theory Web
  imports Http
begin

text \<open>
  Requests and responses as the handlers of the control plane see them. A request carries what
  \<open>net/http\<close> and the router have parsed (cookies, form, path parameter) and the two context
  values of the program, the request identifier and the owner. A response keeps the header map
  apart from what was sent: \<open>WriteHeader\<close> takes a snapshot, and later changes of the map have
  no effect. Cookies are kept as values, not as the text of \<open>Set-Cookie\<close> lines.
\<close>

record cookie =
  ck_Name :: string
  ck_Value :: string
  ck_Path :: string
  ck_Secure :: bool
  ck_HttpOnly :: bool
  ck_SameSiteLax :: bool
  ck_MaxAge :: int
  ck_Domain :: string

record web_request =
  wr_method :: string
  wr_path :: string
  wr_header :: header
  wr_cookies :: "(string \<times> string) list"
  wr_remote :: string
  wr_length :: int
  wr_body :: string
  wr_form :: "(string \<times> string) list option"
  wr_param :: string
  wr_requestID :: "string option"
  wr_owner :: "string option"

definition FormValue :: "web_request \<Rightarrow> string \<Rightarrow> string" where
  "FormValue r k =
     (case wr_form r of None \<Rightarrow> [] | Some f \<Rightarrow> (case map_of f k of None \<Rightarrow> [] | Some v \<Rightarrow> v))"

record web_writer =
  ww_header :: header
  ww_cookies :: "cookie list"
  ww_sent :: "(int \<times> header \<times> cookie list) option"
  ww_body :: string

definition new_writer :: web_writer where
  "new_writer = \<lparr>ww_header = [], ww_cookies = [], ww_sent = None, ww_body = []\<rparr>"

definition ww_Set :: "string \<Rightarrow> string \<Rightarrow> web_writer \<Rightarrow> web_writer" where
  "ww_Set k v w = w\<lparr>ww_header := header_Set k v (ww_header w)\<rparr>"

definition ww_WriteHeader :: "int \<Rightarrow> web_writer \<Rightarrow> web_writer" where
  "ww_WriteHeader st w =
     (if ww_sent w = None then w\<lparr>ww_sent := Some (st, ww_header w, ww_cookies w)\<rparr> else w)"

definition ww_Write :: "string \<Rightarrow> web_writer \<Rightarrow> web_writer" where
  "ww_Write p w = (let w' = ww_WriteHeader 200 w in w'\<lparr>ww_body := ww_body w' @ p\<rparr>)"

definition SetCookie :: "cookie \<Rightarrow> web_writer \<Rightarrow> web_writer" where
  "SetCookie c w = w\<lparr>ww_cookies := ww_cookies w @ [c]\<rparr>"

text \<open>\<open>http.Redirect\<close> to a clean absolute path, with status 303.\<close>

definition SeeOther :: "web_request \<Rightarrow> string \<Rightarrow> web_writer \<Rightarrow> web_writer" where
  "SeeOther r url w =
     (let hadCT = (map_of (ww_header w) ''Content-Type'' \<noteq> None);
          w1 = ww_Set ''Location'' url w;
          w2 = (if \<not> hadCT \<and> (wr_method r = ''GET'' \<or> wr_method r = ''HEAD'')
                then ww_Set ''Content-Type'' ''text/html; charset=utf-8'' w1 else w1);
          w3 = ww_WriteHeader 303 w2
      in if \<not> hadCT \<and> wr_method r = ''GET'' then
           ww_Write (''<a href='' @ [CHR 0x22] @ url @ [CHR 0x22] @ ''>See Other</a>.'' @ [CHR 0x0A, CHR 0x0A]) w3
         else w3)"

text \<open>\<open>http.Error\<close>.\<close>

definition ww_Error :: "string \<Rightarrow> int \<Rightarrow> web_writer \<Rightarrow> web_writer" where
  "ww_Error msg code w =
     ww_Write (msg @ [CHR 0x0A])
       (ww_WriteHeader code
         (ww_Set ''X-Content-Type-Options'' ''nosniff''
           (ww_Set ''Content-Type'' ''text/plain; charset=utf-8''
             (w\<lparr>ww_header := header_Del ''Content-Length'' (ww_header w)\<rparr>))))"

section \<open>Lemmas\<close>

definition ww_status :: "web_writer \<Rightarrow> int" where
  "ww_status w = (case ww_sent w of None \<Rightarrow> 0 | Some (st, _) \<Rightarrow> st)"

definition sent_cookies :: "web_writer \<Rightarrow> cookie list" where
  "sent_cookies w = (case ww_sent w of None \<Rightarrow> [] | Some (_, _, cs) \<Rightarrow> cs)"

definition sent_header :: "web_writer \<Rightarrow> string \<Rightarrow> string" where
  "sent_header w k = (case ww_sent w of None \<Rightarrow> [] | Some (_, h, _) \<Rightarrow> header_Get h k)"

lemma ww_simps [simp]:
  "ww_sent (ww_Set k v w) = ww_sent w" "ww_body (ww_Set k v w) = ww_body w"
  "ww_cookies (ww_Set k v w) = ww_cookies w" "ww_header (ww_Set k v w) = header_Set k v (ww_header w)"
  "ww_header (ww_WriteHeader st w) = ww_header w" "ww_body (ww_WriteHeader st w) = ww_body w"
  "ww_cookies (ww_WriteHeader st w) = ww_cookies w"
  "ww_sent (ww_WriteHeader st w) =
     (if ww_sent w = None then Some (st, ww_header w, ww_cookies w) else ww_sent w)"
  "ww_header (ww_Write p w) = ww_header w" "ww_body (ww_Write p w) = ww_body w @ p"
  "ww_cookies (ww_Write p w) = ww_cookies w"
  "ww_sent (ww_Write p w) =
     (if ww_sent w = None then Some (200, ww_header w, ww_cookies w) else ww_sent w)"
  "ww_sent (SetCookie c w) = ww_sent w" "ww_body (SetCookie c w) = ww_body w"
  "ww_cookies (SetCookie c w) = ww_cookies w @ [c]" "ww_header (SetCookie c w) = ww_header w"
  by (simp_all add: ww_Set_def ww_WriteHeader_def ww_Write_def SetCookie_def Let_def)

lemma ww_WriteHeader_simps [simp]:
  "ww_sent w = None \<Longrightarrow> ww_status (ww_WriteHeader st w) = st"
  "ww_sent w = None \<Longrightarrow> sent_cookies (ww_WriteHeader st w) = ww_cookies w"
  by (simp_all add: ww_status_def sent_cookies_def)

lemma SeeOther_simps [simp]:
  "ww_sent w = None \<Longrightarrow> ww_status (SeeOther r url w) = 303"
  "ww_sent w = None \<Longrightarrow> sent_cookies (SeeOther r url w) = ww_cookies w"
  "ww_sent w = None \<Longrightarrow> sent_header (SeeOther r url w) ''Location'' = url"
proof -
  have neq: "CanonicalHeaderKey ''Content-Type'' \<noteq> CanonicalHeaderKey ''Location''"
    by code_simp
  assume "ww_sent w = None"
  then show "ww_status (SeeOther r url w) = 303" "sent_cookies (SeeOther r url w) = ww_cookies w"
    "sent_header (SeeOther r url w) ''Location'' = url"
    by (simp_all add: SeeOther_def Let_def ww_status_def sent_cookies_def sent_header_def header_Get_Set neq)
qed

lemma ww_Error_simps [simp]:
  "ww_sent w = None \<Longrightarrow> ww_status (ww_Error msg code w) = code"
  "ww_sent w = None \<Longrightarrow> sent_cookies (ww_Error msg code w) = ww_cookies w"
  by (simp_all add: ww_Error_def ww_status_def sent_cookies_def)

end
