(* ===== verification/Login_Gate.thy ===== *)
theory Login_Gate
  imports Float64 Web Host_Actions
begin

text \<open>
  The shared-password gate of the control plane, \<open>control-plane/internal/auth/auth.go\<close>: the
  secrets, the normalisation of names, the login rate limit, the signed cookie and the
  middleware. The keyed hash (HMAC-SHA256) is an argument \<open>hmac\<close>, any function of key and
  message.
\<close>

type_synonym bytes = "8 word list"

definition CookieName :: string where
  "CookieName = ''mvt_auth''"

definition CookieMaxAge :: duration where
  "CookieMaxAge = 30 * 24 * 60 * Minute"

definition MaxNameLen :: nat where
  "MaxNameLen = 32"

record gate_options =
  op_Secure :: bool
  op_Domain :: string

record rl_state =
  rl_tokens :: rat
  rl_last :: go_time

record gate =
  gt_password :: string
  gt_cookieSecret :: bytes
  gt_opts :: gate_options
  gt_rlTokens :: "string \<rightharpoonup> rl_state"

datatype auth_error = ErrCookieInvalid | Err_read_password | Err_short_password | Err_decode_secret
  | Err_generate_secret | Err_write_secret

section \<open>Secrets\<close>

text \<open>The secret file as read, random bytes, and the operating system for the write.\<close>

definition loadOrCreateSecret ::
  "os \<Rightarrow> string option \<Rightarrow> bytes option \<Rightarrow> string \<Rightarrow> host_log \<Rightarrow> (auth_error + bytes) \<times> host_log" where
  "loadOrCreateSecret os file rnd path h =
     (let create =
        (case rnd of
           None \<Rightarrow> (Inl Err_generate_secret, h)
         | Some secret \<Rightarrow>
             (case perform os (WriteFile path (hex_encode secret @ [CHR 0x0A]) 384) h of
                (True, h1) \<Rightarrow> (Inr secret, h1)
              | (False, h1) \<Rightarrow> (Inl Err_write_secret, h1)))
      in case file of
           None \<Rightarrow> create
         | Some b \<Rightarrow>
             if length (TrimSpace b) \<ge> 64 then
               (case hex_decode (TrimSpace b) of
                  None \<Rightarrow> (Inl Err_decode_secret, h)
                | Some decoded \<Rightarrow> (Inr decoded, h))
             else create)"

definition NewGateFromSecrets :: "string \<Rightarrow> bytes \<Rightarrow> gate_options \<Rightarrow> gate" where
  "NewGateFromSecrets password cookieSecret opts =
     \<lparr>gt_password = password, gt_cookieSecret = cookieSecret, gt_opts = opts, gt_rlTokens = Map.empty\<rparr>"

definition NewGate ::
  "os \<Rightarrow> string option \<Rightarrow> string option \<Rightarrow> bytes option \<Rightarrow> string \<Rightarrow> gate_options \<Rightarrow> host_log \<Rightarrow> (auth_error + gate) \<times> host_log" where
  "NewGate os pwFile secretFile rnd secretPath opts h =
     (case pwFile of
        None \<Rightarrow> (Inl Err_read_password, h)
      | Some pw \<Rightarrow>
          if length (TrimSpace pw) < 8 then (Inl Err_short_password, h)
          else
            (case loadOrCreateSecret os secretFile rnd secretPath h of
               (Inl e, h1) \<Rightarrow> (Inl e, h1)
             | (Inr secret, h1) \<Rightarrow>
                 (Inr \<lparr>gt_password = TrimSpace pw, gt_cookieSecret = secret, gt_opts = opts, gt_rlTokens = Map.empty\<rparr>, h1)))"

section \<open>Names\<close>

definition slug_char :: "char \<Rightarrow> bool" where
  "slug_char c \<longleftrightarrow>
     (let n = (of_char c :: nat) in 97 \<le> n \<and> n \<le> 122 \<or> 48 \<le> n \<and> n \<le> 57)"

text \<open>\<open>slugRE.ReplaceAllString(s, "-")\<close>: every maximal run of other bytes becomes one dash.\<close>

fun slug_replace :: "bool \<Rightarrow> string \<Rightarrow> string" where
  "slug_replace inrun [] = []"
| "slug_replace inrun (c # cs) =
     (if slug_char c then c # slug_replace False cs
      else (if inrun then [] else ''-'') @ slug_replace True cs)"

definition Slugify :: "string \<Rightarrow> string" where
  "Slugify nm =
     (let s = Trim (CHR ''-'') (slug_replace False (ToLower (TrimSpace nm)))
      in if length s > MaxNameLen then Trim (CHR ''-'') (take MaxNameLen s) else s)"

section \<open>Passwords and the rate limit\<close>

definition CheckPassword :: "string \<Rightarrow> gate \<Rightarrow> bool" where
  "CheckPassword candidate g \<longleftrightarrow> candidate = gt_password g"

text \<open>\<open>Duration.Seconds\<close>: whole seconds and the fraction, each converted to \<open>float64\<close>.\<close>

definition Seconds :: "duration \<Rightarrow> rat" where
  "Seconds d =
     (let a = abs d; q = of_int (sgn d * (a div Second)); r = of_int (sgn d * (a mod Second))
      in fl64 (fl64 q + fl64 (fl64 r / 1000000000)))"

definition Allow :: "string \<Rightarrow> go_time \<Rightarrow> gate \<Rightarrow> bool \<times> gate" where
  "Allow ip now g =
     (let st = (case gt_rlTokens g ip of Some st \<Rightarrow> st | None \<Rightarrow> \<lparr>rl_tokens = 5, rl_last = now\<rparr>);
          elapsed = Seconds (time_sub now (rl_last st));
          tokens = min 5 (fl64 (rl_tokens st + fl64 (elapsed * fl64 (5 / 60))))
      in if tokens < 1 then (False, g\<lparr>gt_rlTokens := (gt_rlTokens g)(ip \<mapsto> \<lparr>rl_tokens = tokens, rl_last = now\<rparr>)\<rparr>)
         else (True, g\<lparr>gt_rlTokens := (gt_rlTokens g)(ip \<mapsto> \<lparr>rl_tokens = fl64 (tokens - 1), rl_last = now\<rparr>)\<rparr>))"

section \<open>Cookies\<close>

definition unix_seconds :: "go_time \<Rightarrow> int" where
  "unix_seconds t = t div Second"

definition Cookie :: "(bytes \<Rightarrow> string \<Rightarrow> bytes) \<Rightarrow> string \<Rightarrow> go_time \<Rightarrow> gate \<Rightarrow> cookie" where
  "Cookie hmac owner now g =
     (let expiry = unix_seconds (now + CookieMaxAge); payload = owner @ ''|'' @ FormatInt expiry
      in \<lparr>ck_Name = CookieName, ck_Value = payload @ ''|'' @ hex_encode (hmac (gt_cookieSecret g) payload),
          ck_Path = ''/'', ck_Secure = op_Secure (gt_opts g), ck_HttpOnly = True, ck_SameSiteLax = True,
          ck_MaxAge = CookieMaxAge div Second, ck_Domain = op_Domain (gt_opts g)\<rparr>)"

definition ClearCookie :: "(bytes \<Rightarrow> string \<Rightarrow> bytes) \<Rightarrow> go_time \<Rightarrow> gate \<Rightarrow> cookie" where
  "ClearCookie hmac now g = (Cookie hmac [] now g)\<lparr>ck_Value := [], ck_MaxAge := -1\<rparr>"

definition Verify :: "(bytes \<Rightarrow> string \<Rightarrow> bytes) \<Rightarrow> string \<Rightarrow> go_time \<Rightarrow> gate \<Rightarrow> auth_error + string" where
  "Verify hmac v now g =
     (case SplitN 3 (CHR ''|'') v of
        [owner, expStr, sigHex] \<Rightarrow>
          (case hex_decode sigHex of
             None \<Rightarrow> Inl ErrCookieInvalid
           | Some sig \<Rightarrow>
               if sig \<noteq> hmac (gt_cookieSecret g) (owner @ ''|'' @ expStr) then Inl ErrCookieInvalid
               else
                 (case ParseInt expStr of
                    None \<Rightarrow> Inl ErrCookieInvalid
                  | Some expiry \<Rightarrow>
                      if unix_seconds now > expiry then Inl ErrCookieInvalid
                      else if owner = [] \<or> Slugify owner \<noteq> owner then Inl ErrCookieInvalid
                      else Inr owner))
      | _ \<Rightarrow> Inl ErrCookieInvalid)"

section \<open>Requests\<close>

definition OwnerFromRequest :: "(bytes \<Rightarrow> string \<Rightarrow> bytes) \<Rightarrow> web_request \<Rightarrow> go_time \<Rightarrow> gate \<Rightarrow> string option" where
  "OwnerFromRequest hmac r now g =
     (case map_of (wr_cookies r) CookieName of
        None \<Rightarrow> None
      | Some v \<Rightarrow> (case Verify hmac v now g of Inl _ \<Rightarrow> None | Inr owner \<Rightarrow> Some owner))"

text \<open>A handler works on the response and on a state; the middleware runs it with the owner set.\<close>

type_synonym 'st handler = "web_request \<Rightarrow> web_writer \<times> 'st \<Rightarrow> web_writer \<times> 'st"

definition auth_reject :: "web_writer \<Rightarrow> web_writer" where
  "auth_reject w =
     ww_Write (print_json (JObj [(''code'', JStr ''auth_required''), (''message'', JStr ''log in first'')]))
       (ww_WriteHeader 401 (ww_Set ''Content-Type'' ''application/json'' w))"

definition Middleware ::
  "(bytes \<Rightarrow> string \<Rightarrow> bytes) \<Rightarrow> go_time \<Rightarrow> gate \<Rightarrow> 'st handler \<Rightarrow> 'st handler" where
  "Middleware hmac now g next r ws =
     (case OwnerFromRequest hmac r now g of
        None \<Rightarrow> (auth_reject (fst ws), snd ws)
      | Some owner \<Rightarrow> next (r\<lparr>wr_owner := Some owner\<rparr>) ws)"

definition OwnerFromContext :: "web_request \<Rightarrow> string \<times> bool" where
  "OwnerFromContext r = (case wr_owner r of Some v \<Rightarrow> (v, v \<noteq> []) | None \<Rightarrow> ([], False))"

definition ClientIP :: "web_request \<Rightarrow> string" where
  "ClientIP r =
     (let v = header_Get (wr_header r) ''X-Forwarded-For''
      in if v \<noteq> [] then
           (let i = IndexByte v (CHR '','') in if i > 0 then TrimSpace (take (nat i) v) else TrimSpace v)
         else wr_remote r)"

section \<open>Normal names\<close>

fun no_double :: "string \<Rightarrow> bool" where
  "no_double (a # b # s) \<longleftrightarrow> \<not> (a = CHR ''-'' \<and> b = CHR ''-'') \<and> no_double (b # s)"
| "no_double _ \<longleftrightarrow> True"

text \<open>Letters, digits and single dashes between them, at most \<open>MaxNameLen\<close> bytes.\<close>

definition slug_ok :: "string \<Rightarrow> bool" where
  "slug_ok s \<longleftrightarrow>
     list_all (\<lambda>c. slug_char c \<or> c = CHR ''-'') s \<and> length s \<le> MaxNameLen \<and>
     (s = [] \<or> hd s \<noteq> CHR ''-'' \<and> last s \<noteq> CHR ''-'') \<and> no_double s"

lemma slug_char_dash [simp]: "\<not> slug_char CHR ''-''"
  by (simp add: slug_char_def)

lemma no_double_append: "no_double (a @ b) \<Longrightarrow> no_double a \<and> no_double b"
  by (induction a rule: no_double.induct) (auto, metis no_double.elims(3) no_double.simps(1))

lemma slug_replace_ok:
  "list_all (\<lambda>c. slug_char c \<or> c = CHR ''-'') (slug_replace b s) \<and> no_double (slug_replace b s) \<and>
   (b \<longrightarrow> (case slug_replace b s of [] \<Rightarrow> True | c # _ \<Rightarrow> c \<noteq> CHR ''-''))"
proof (induction b s rule: slug_replace.induct)
  case (2 b c cs)
  then show ?case
    by (cases "slug_replace False cs"; cases "slug_replace True cs") (auto simp: Let_def)
qed simp

lemma Trim_parts:
  obtains a b where "s = a @ Trim c s @ b" "Trim c s = [] \<or> hd (Trim c s) \<noteq> c \<and> last (Trim c s) \<noteq> c"
proof -
  let ?P = "\<lambda>x. x = c"
  define t where "t = dropWhile ?P s"
  have s: "s = takeWhile ?P s @ t" by (simp add: t_def)
  have "rev t = takeWhile ?P (rev t) @ dropWhile ?P (rev t)" by simp
  then have t: "t = Trim c s @ rev (takeWhile ?P (rev t))"
    by (metis Trim_def TrimRight_def rev_append rev_rev_ident t_def)
  have "Trim c s = [] \<or> hd (Trim c s) \<noteq> c"
    using hd_dropWhile [of ?P s] by (metis append_is_Nil_conv hd_append2 t t_def)
  moreover have "Trim c s = [] \<or> last (Trim c s) \<noteq> c"
    using hd_dropWhile [of ?P "rev t"] by (auto simp: Trim_def TrimRight_def last_rev simp flip: t_def)
  ultimately show ?thesis
    using that [of "takeWhile ?P s" "rev (takeWhile ?P (rev t))"] s t by auto
qed

lemma slug_ok_Trim:
  assumes "list_all (\<lambda>c. slug_char c \<or> c = CHR ''-'') s" "no_double s" "length (Trim CHR ''-'' s) \<le> MaxNameLen"
  shows "slug_ok (Trim CHR ''-'' s)"
proof -
  obtain a b where p: "s = a @ Trim CHR ''-'' s @ b"
    "Trim CHR ''-'' s = [] \<or> hd (Trim CHR ''-'' s) \<noteq> CHR ''-'' \<and> last (Trim CHR ''-'' s) \<noteq> CHR ''-''"
    by (rule Trim_parts)
  have "no_double (Trim CHR ''-'' s)"
    using assms(2) p(1) no_double_append by metis
  moreover have "list_all (\<lambda>c. slug_char c \<or> c = CHR ''-'') (Trim CHR ''-'' s)"
    using assms(1) p(1) by (metis list_all_append)
  ultimately show ?thesis
    using p(2) assms(3) by (simp add: slug_ok_def)
qed

lemma Trim_length: "length (Trim c s) \<le> length s"
  by (rule Trim_parts [of s c]) (metis le_add1 le_add2 length_append le_trans)

lemma slug_ok_Slugify: "slug_ok (Slugify nm)"
proof -
  let ?r = "slug_replace False (ToLower (TrimSpace nm))"
  let ?s = "Trim CHR ''-'' ?r"
  have r: "list_all (\<lambda>c. slug_char c \<or> c = CHR ''-'') ?r" "no_double ?r"
    using slug_replace_ok by blast+
  show ?thesis
  proof (cases "length ?s > MaxNameLen")
    case True
    obtain a b where "?r = a @ ?s @ b" by (rule Trim_parts)
    then have "?r = a @ take MaxNameLen ?s @ (drop MaxNameLen ?s @ b)"
      by (metis append.assoc append_take_drop_id)
    then have "list_all (\<lambda>c. slug_char c \<or> c = CHR ''-'') (take MaxNameLen ?s)" "no_double (take MaxNameLen ?s)"
      using r no_double_append list_all_append by metis+
    moreover have "length (Trim CHR ''-'' (take MaxNameLen ?s)) \<le> MaxNameLen"
      using Trim_length [of "CHR ''-''" "take MaxNameLen ?s"] by simp
    ultimately show ?thesis
      using True by (simp add: Slugify_def Let_def slug_ok_Trim)
  next
    case False
    then show ?thesis
      using r by (simp add: Slugify_def Let_def slug_ok_Trim)
  qed
qed

lemma slug_char_plain: "slug_char c \<Longrightarrow> plain_char c"
  by (auto simp: slug_char_def plain_char_def Let_def)

lemma ToLower_slug: "list_all (\<lambda>c. slug_char c \<or> c = CHR ''-'') s \<Longrightarrow> ToLower s = s"
proof (induction s rule: ToLower.induct)
  case (2 c cs)
  then have c: "slug_char c \<or> c = CHR ''-''" by simp
  then have "c \<noteq> CHR 0xC4" "c \<noteq> CHR 0xE2" by (auto simp: slug_char_def Let_def)
  moreover have "lower_char c = c"
    using c by (auto simp: slug_char_def lower_char_def Let_def)
  ultimately show ?case
    using 2 by (simp add: HasPrefix_def)
qed simp

lemma slug_replace_slug:
  "list_all (\<lambda>c. slug_char c \<or> c = CHR ''-'') s \<Longrightarrow> no_double s \<Longrightarrow> \<not> (b \<and> s \<noteq> [] \<and> hd s = CHR ''-'') \<Longrightarrow>
   slug_replace b s = s"
proof (induction b s rule: slug_replace.induct)
  case (2 b c cs)
  from 2(4) have "no_double cs" "\<not> (c = CHR ''-'' \<and> cs \<noteq> [] \<and> hd cs = CHR ''-'')"
    by (cases cs; simp)+
  with 2 show ?case by (cases "slug_char c") auto
qed simp

lemma Trim_id: "s = [] \<or> hd s \<noteq> c \<and> last s \<noteq> c \<Longrightarrow> Trim c s = s"
proof (cases "s = []")
  case False
  assume "s = [] \<or> hd s \<noteq> c \<and> last s \<noteq> c"
  with False have "dropWhile (\<lambda>x. x = c) s = s" "dropWhile (\<lambda>x. x = c) (rev s) = rev s"
    by (simp_all add: dropWhile_eq_self_iff hd_rev)
  then show ?thesis by (simp add: Trim_def TrimRight_def)
qed (simp add: Trim_def TrimRight_def)

lemma Slugify_slug_ok:
  assumes "slug_ok s"
  shows "Slugify s = s"
proof -
  have s: "list_all (\<lambda>c. slug_char c \<or> c = CHR ''-'') s" "length s \<le> MaxNameLen" "no_double s"
    and e: "s = [] \<or> hd s \<noteq> CHR ''-'' \<and> last s \<noteq> CHR ''-''"
    using assms by (simp_all add: slug_ok_def)
  have "TrimSpace s = s"
  proof (cases "s = []")
    case True
    moreover have "TrimSpace [] = []" by code_simp
    ultimately show ?thesis by simp
  next
    case False
    then have "plain_char (hd s)" "plain_char (last s)"
      using s(1) e slug_char_plain hd_in_set last_in_set unfolding list_all_iff by metis+
    with False show ?thesis by (rule TrimSpace_plain)
  qed
  with s e show ?thesis
    by (simp add: Slugify_def Let_def ToLower_slug slug_replace_slug Trim_id)
qed

text \<open>
  C33: Names are normalised to a canonical form. Whatever a caller types, the owner derived from
  it consists of lower-case letters, digits and single inner dashes and is at most 32 bytes long,
  and the names that are left as they are are exactly those of this form; so normalising twice
  is normalising once.
\<close>

theorem slugify_canonical:
  "slug_ok (Slugify nm) \<and> (Slugify s = s \<longleftrightarrow> slug_ok s)"
  using slug_ok_Slugify Slugify_slug_ok by metis

section \<open>Cookies\<close>

text \<open>The signed part of the cookie issued to an owner at a moment.\<close>

definition cookie_payload :: "string \<Rightarrow> go_time \<Rightarrow> string" where
  "cookie_payload owner t = owner @ ''|'' @ FormatInt (unix_seconds (t + CookieMaxAge))"

lemma Cookie_value:
  "ck_Value (Cookie hmac owner t g) =
     cookie_payload owner t @ ''|'' @ hex_encode (hmac (gt_cookieSecret g) (cookie_payload owner t))"
  by (simp add: Cookie_def cookie_payload_def Let_def)

lemma ParseInt_FormatInt_iff: "ParseInt (FormatInt i) = (if int64_range i then Some i else None)"
proof (cases "i < 0")
  case True
  then show ?thesis
    by (simp add: ParseInt_def FormatInt_def)
next
  case False
  have "hd (show_nat (nat i)) \<noteq> CHR ''-''" and "hd (show_nat (nat i)) \<noteq> CHR ''+''"
    using hd_show_nat digit_not by blast+
  with False show ?thesis
    by (simp add: ParseInt_def FormatInt_def)
qed

lemma hex_decode_bar: "hex_decode s = Some b \<Longrightarrow> CHR ''|'' \<notin> set s"
proof (induction s arbitrary: b rule: hex_decode.induct)
  case (3 x y s)
  have "hex_val CHR ''|'' = None" by code_simp
  with 3 show ?case by (auto split: option.splits prod.splits)
qed auto

lemma Verify_error: "Verify hmac v now g = Inl e \<Longrightarrow> e = ErrCookieInvalid"
  by (auto simp: Verify_def split: list.splits option.splits if_splits)

lemma Verify_Inr:
  "Verify hmac v now g = Inr owner \<longleftrightarrow>
     (\<exists>es h e. v = owner @ ''|'' @ es @ ''|'' @ h \<and> CHR ''|'' \<notin> set owner \<and> CHR ''|'' \<notin> set es \<and>
        hex_decode h = Some (hmac (gt_cookieSecret g) (owner @ ''|'' @ es)) \<and> ParseInt es = Some e \<and>
        unix_seconds now \<le> e \<and> owner \<noteq> [] \<and> slug_ok owner)" (is "?L \<longleftrightarrow> ?R")
proof
  assume ?L
  then obtain es h e where p: "SplitN 3 CHR ''|'' v = [owner, es, h]"
    "hex_decode h = Some (hmac (gt_cookieSecret g) (owner @ ''|'' @ es))" "ParseInt es = Some e"
    "unix_seconds now \<le> e" "owner \<noteq> []" "Slugify owner = owner"
    by (auto simp: Verify_def split: list.splits option.splits if_splits)
  have "slug_ok owner" using p(6) slug_ok_Slugify by metis
  with p(2-5) SplitN_3_inv [OF p(1)] show ?R by auto
next
  assume ?R
  then obtain es h e where v: "v = owner @ [CHR ''|''] @ es @ [CHR ''|''] @ h"
    and b: "CHR ''|'' \<notin> set owner" "CHR ''|'' \<notin> set es"
    and p: "hex_decode h = Some (hmac (gt_cookieSecret g) (owner @ ''|'' @ es))" "ParseInt es = Some e"
      "unix_seconds now \<le> e" "owner \<noteq> []" "slug_ok owner"
    by auto
  have "SplitN 3 CHR ''|'' v = [owner, es, h]"
    unfolding v using b by (rule SplitN_3)
  then show ?L
    using p by (simp add: Verify_def Slugify_slug_ok)
qed

lemma slug_ok_bar: "slug_ok s \<Longrightarrow> CHR ''|'' \<notin> set s"
  by (auto simp: slug_ok_def list_all_iff slug_char_def Let_def)

lemma hex_encode_bar: "CHR ''|'' \<notin> set (hex_encode bs)"
  by (rule hex_decode_bar) simp

lemma three_parts:
  fixes c :: char
  assumes "a @ c # b @ c # d = x @ c # y @ c # z"
    and "c \<notin> set a" "c \<notin> set b" "c \<notin> set d" "c \<notin> set y" "c \<notin> set z"
  shows "a = x \<and> b = y \<and> d = z"
proof -
  have "Split c (rev (a @ c # b @ c # d)) = [rev d, rev b, rev a]"
    using assms(2-4) by (simp add: Split_append Split_no_sep)
  moreover have "Split c (rev (x @ c # y @ c # z)) = rev z # rev y # Split c (rev x)"
    using assms(5,6) by (simp add: Split_append)
  ultimately have eq: "[rev d, rev b, rev a] = rev z # rev y # Split c (rev x)"
    using assms(1) by metis
  then have "rev x = rev a" using Join_Split [of c "rev x"] by (metis Join.simps(2) list.inject)
  with eq show ?thesis by simp
qed

lemma Verify_Cookie:
  assumes "int64_range (unix_seconds (t + CookieMaxAge))"
  shows "Verify hmac (ck_Value (Cookie hmac owner t g)) now g =
     (if owner \<noteq> [] \<and> slug_ok owner \<and> unix_seconds now \<le> unix_seconds (t + CookieMaxAge)
      then Inr owner else Inl ErrCookieInvalid)"
proof -
  let ?e = "unix_seconds (t + CookieMaxAge)" and ?v = "ck_Value (Cookie hmac owner t g)"
  let ?h = "hex_encode (hmac (gt_cookieSecret g) (cookie_payload owner t))"
  have v: "?v = owner @ ''|'' @ FormatInt ?e @ ''|'' @ ?h"
    by (simp add: Cookie_value) (simp add: cookie_payload_def)
  show ?thesis
  proof (cases "owner \<noteq> [] \<and> slug_ok owner \<and> unix_seconds now \<le> ?e")
    case True
    then have "Verify hmac ?v now g = Inr owner"
      unfolding Verify_Inr using v assms FormatInt_bar [of ?e] slug_ok_bar
      by (intro exI [of _ "FormatInt ?e"] exI [of _ ?h] exI [of _ ?e]) (auto simp: cookie_payload_def)
    with True show ?thesis by simp
  next
    case False
    have "Verify hmac ?v now g \<noteq> Inr x" for x
    proof
      assume "Verify hmac ?v now g = Inr x"
      then obtain es h e where p: "?v = x @ ''|'' @ es @ ''|'' @ h" "CHR ''|'' \<notin> set x" "CHR ''|'' \<notin> set es"
        "hex_decode h = Some (hmac (gt_cookieSecret g) (x @ ''|'' @ es))" "ParseInt es = Some e"
        "unix_seconds now \<le> e" "x \<noteq> []" "slug_ok x"
        unfolding Verify_Inr by blast
      have "x @ CHR ''|'' # es @ CHR ''|'' # h = owner @ CHR ''|'' # FormatInt ?e @ CHR ''|'' # ?h"
        using p(1) v by simp
      then have "x = owner \<and> es = FormatInt ?e \<and> h = ?h"
        using p(2,3) hex_decode_bar [OF p(4)] FormatInt_bar hex_encode_bar by (rule three_parts)
      with p assms False show False by simp
    qed
    then have "Verify hmac ?v now g = Inl ErrCookieInvalid"
      using Verify_error by (cases "Verify hmac ?v now g") blast+
    with False show ?thesis by simp
  qed
qed

lemma Cookie_tag:
  assumes "CHR ''|'' \<notin> set owner"
  shows "last (Split CHR ''|'' (ck_Value (Cookie hmac owner t g))) =
    hex_encode (hmac (gt_cookieSecret g) (cookie_payload owner t))"
  using assms by (simp add: Cookie_value) (simp add: cookie_payload_def Split_append Split_no_sep FormatInt_bar hex_encode_bar)

text \<open>
  A cookie is good for its owner, and only for them, until it expires. What \<open>Verify\<close>
  makes of the cookie issued to an owner at a moment is exactly: the owner, when the name is
  non-empty and normal and the moment of the check is no later than thirty days after that of
  the issue (in whole seconds), and the error otherwise, even for a name with a bar in it.
\<close>

theorem cookie_roundtrip:
  assumes "int64_range (unix_seconds (t + CookieMaxAge))"
  shows "Verify hmac (ck_Value (Cookie hmac owner t g)) now g =
     (if owner \<noteq> [] \<and> slug_ok owner \<and> unix_seconds now \<le> unix_seconds (t + CookieMaxAge)
      then Inr owner else Inl ErrCookieInvalid)"
  using assms by (rule Verify_Cookie)

definition ex_hmac :: "bytes \<Rightarrow> string \<Rightarrow> bytes" where
  "ex_hmac key msg = key @ map (\<lambda>c. word_of_nat (of_char c)) msg"

definition ex_gate :: gate where
  "ex_gate = NewGateFromSecrets ''correct horse'' [7] \<lparr>op_Secure = True, op_Domain = []\<rparr>"

theorem cookie_roundtrip_witness:
  "int64_range (unix_seconds (0 + CookieMaxAge)) \<and>
   Verify ex_hmac (ck_Value (Cookie ex_hmac ''bob'' 0 ex_gate)) (10 * Second) ex_gate = Inr ''bob''"
proof -
  have "int64_range (unix_seconds (0 + CookieMaxAge))" "slug_ok ''bob''"
    "unix_seconds (10 * Second) \<le> unix_seconds (0 + CookieMaxAge)"
    by code_simp+
  with cookie_roundtrip [of 0 ex_hmac "''bob''" ex_gate "10 * Second"] show ?thesis by simp
qed

text \<open>
  C3: A cookie that is accepted was issued. Let \<open>calls\<close> be all the owners and moments for
  which the gate has signed, and suppose that the tag at the end of the presented value, if it
  is the tag of any message at all, is that of a message the gate has signed (an attacker without
  the secret cannot make others). Then an accepted value names an owner to whom a cookie was
  issued, at a moment at most thirty days before; neither a name with a bar nor a value cut at
  another place can be read as somebody else's.
\<close>

theorem cookie_authentic:
  assumes unforged: "\<And>msg. hex_decode (last (Split CHR ''|'' v)) = Some (hmac (gt_cookieSecret g) msg) \<Longrightarrow>
      msg \<in> (\<lambda>(owner, t). cookie_payload owner t) ` set calls"
    and accepted: "Verify hmac v now g = Inr owner"
  shows "\<exists>t. (owner, t) \<in> set calls \<and> unix_seconds now \<le> unix_seconds (t + CookieMaxAge) \<and>
     owner \<noteq> [] \<and> slug_ok owner"
proof -
  obtain es h e where p: "v = owner @ ''|'' @ es @ ''|'' @ h" "CHR ''|'' \<notin> set owner" "CHR ''|'' \<notin> set es"
    "hex_decode h = Some (hmac (gt_cookieSecret g) (owner @ ''|'' @ es))" "ParseInt es = Some e"
    "unix_seconds now \<le> e" "owner \<noteq> []" "slug_ok owner"
    using accepted unfolding Verify_Inr by blast
  have "Split CHR ''|'' v = [owner, es, h]"
    using p(1-3) hex_decode_bar [OF p(4)] by (simp add: Split_append Split_no_sep)
  with p(4) unforged have "owner @ ''|'' @ es \<in> (\<lambda>(owner, t). cookie_payload owner t) ` set calls"
    by simp
  then obtain o' t where c: "(o', t) \<in> set calls" "owner @ ''|'' @ es = cookie_payload o' t"
    by auto
  let ?e = "unix_seconds (t + CookieMaxAge)"
  have "owner @ CHR ''|'' # es @ CHR ''|'' # [] = o' @ CHR ''|'' # FormatInt ?e @ CHR ''|'' # []"
    using c(2) by (simp add: cookie_payload_def)
  then have eq: "owner = o' \<and> es = FormatInt ?e \<and> [] = ([] :: string)"
    using p(2,3) FormatInt_bar by (intro three_parts) auto
  have "e = ?e"
    using p(5) eq by (auto simp: ParseInt_FormatInt_iff split: if_splits)
  with eq c(1) p(6-8) show ?thesis by blast
qed

theorem cookie_authentic_witness:
  "Verify ex_hmac (ck_Value (Cookie ex_hmac ''bob'' 0 ex_gate)) (10 * Second) ex_gate = Inr ''bob'' \<and>
   (\<exists>t. (''bob'', t) \<in> set [(''bob'', 0)] \<and> unix_seconds (10 * Second) \<le> unix_seconds (t + CookieMaxAge))"
proof -
  let ?v = "ck_Value (Cookie ex_hmac ''bob'' 0 ex_gate)"
  have "int64_range (unix_seconds (0 + CookieMaxAge))" "slug_ok ''bob''"
    "unix_seconds (10 * Second) \<le> unix_seconds (0 + CookieMaxAge)"
    by code_simp+
  then have v: "Verify ex_hmac ?v (10 * Second) ex_gate = Inr ''bob''"
    using Verify_Cookie [of 0 ex_hmac "''bob''" ex_gate "10 * Second"] by simp
  have inj: "a = b" if "map (\<lambda>c. word_of_nat (of_char c) :: 8 word) a = map (\<lambda>c. word_of_nat (of_char c)) b" for a b
  proof -
    have "inj (\<lambda>c. word_of_nat (of_char c) :: 8 word)"
    proof (rule injI)
      fix x y :: char
      assume "word_of_nat (of_char x) = (word_of_nat (of_char y) :: 8 word)"
      then have "(of_char x :: nat) mod 256 = of_char y mod 256"
        by (simp add: word_of_nat_eq_iff take_bit_eq_mod)
      then show "x = y" by simp
    qed
    then show ?thesis using that by (simp add: inj_map_eq_map)
  qed
  have "hex_decode (last (Split CHR ''|'' ?v)) = Some (ex_hmac (gt_cookieSecret ex_gate) (cookie_payload ''bob'' 0))"
    by (simp add: Cookie_tag)
  then have "msg \<in> (\<lambda>(owner, t). cookie_payload owner t) ` set [(''bob'', 0)]"
    if "hex_decode (last (Split CHR ''|'' ?v)) = Some (ex_hmac (gt_cookieSecret ex_gate) msg)" for msg
    using that by (auto simp: ex_hmac_def dest: inj)
  from cookie_authentic [of ?v ex_hmac ex_gate "[(''bob'', 0)]", OF this v] v show ?thesis by blast
qed

section \<open>Restarts\<close>

text \<open>The secret file after a start: what was written, if anything was, else what was there.\<close>

definition file_after :: "string \<Rightarrow> host_log \<Rightarrow> string option \<Rightarrow> string option" where
  "file_after path h old =
     (case rev h of (WriteFile p b m, True) # _ \<Rightarrow> if p = path then Some b else old | _ \<Rightarrow> old)"

lemma hex_encode_ends:
  assumes "bs \<noteq> []"
  shows "hex_encode bs \<noteq> []" "plain_char (hd (hex_encode bs))" "plain_char (last (hex_encode bs))"
proof -
  show e: "hex_encode bs \<noteq> []" using assms by (cases bs) simp_all
  show "plain_char (hd (hex_encode bs))" "plain_char (last (hex_encode bs))"
    using hex_encode_chars [OF hd_in_set [OF e]] hex_encode_chars [OF last_in_set [OF e]] digit_char_plain by auto
qed

lemma secret_read_back:
  assumes "loadOrCreateSecret os file (Some rnd) path [] = (Inr secret, h)" "length rnd = 32"
  shows "loadOrCreateSecret os' (file_after path h file) rnd' path h' = (Inr secret, h')"
proof (cases "h = []")
  case True
  with assms obtain b where "file = Some b" "length (TrimSpace b) \<ge> 64" "hex_decode (TrimSpace b) = Some secret"
    by (auto simp: loadOrCreateSecret_def perform_def Let_def split: option.splits if_splits prod.splits bool.splits)
  with True show ?thesis by (simp add: loadOrCreateSecret_def file_after_def Let_def)
next
  case False
  with assms(1) have h: "h = [(WriteFile path (hex_encode rnd @ [CHR 0x0A]) 384, True)]" "secret = rnd"
    by (auto simp: loadOrCreateSecret_def perform_def Let_def split: option.splits if_splits prod.splits bool.splits)
  have "rnd \<noteq> []" using assms(2) by auto
  then have "TrimSpace ([] @ hex_encode rnd @ [CHR 0x0A]) = hex_encode rnd"
    by (intro TrimSpace_padded hex_encode_ends) (simp_all add: ascii_spaces_def)
  with h assms(2) show ?thesis by (simp add: loadOrCreateSecret_def file_after_def Let_def)
qed

text \<open>
  C31: A restart logs nobody out. Whether the first start found a secret file or made one, the
  next start, with the files as they were left, succeeds without touching the file, and accepts
  every cookie issued before that has not expired.
\<close>

theorem restart_keeps_logins:
  assumes "NewGate os (Some pw) file (Some rnd) path opts [] = (Inr g, h)" "length rnd = 32"
    and "owner \<noteq> []" "slug_ok owner" "int64_range (unix_seconds (t + CookieMaxAge))"
    and "unix_seconds now \<le> unix_seconds (t + CookieMaxAge)"
  shows "\<exists>g'. NewGate os' (Some pw) (file_after path h file) rnd' path opts' [] = (Inr g', []) \<and>
     gt_password g' = gt_password g \<and> Verify hmac (ck_Value (Cookie hmac owner t g)) now g' = Inr owner"
proof -
  have pw: "\<not> length (TrimSpace pw) < 8"
    using assms(1) by (simp add: NewGate_def split: if_splits)
  then obtain secret where s: "loadOrCreateSecret os file (Some rnd) path [] = (Inr secret, h)"
    and g: "gt_cookieSecret g = secret" "gt_password g = TrimSpace pw"
    using assms(1) by (auto simp: NewGate_def split: prod.splits sum.splits)
  let ?g = "\<lparr>gt_password = TrimSpace pw, gt_cookieSecret = secret, gt_opts = opts', gt_rlTokens = Map.empty\<rparr>"
  have new: "NewGate os' (Some pw) (file_after path h file) rnd' path opts' [] = (Inr ?g, [])"
    using pw secret_read_back [OF s assms(2)] by (simp add: NewGate_def)
  have "ck_Value (Cookie hmac owner t g) = ck_Value (Cookie hmac owner t ?g)"
    by (simp add: Cookie_value g)
  then have "Verify hmac (ck_Value (Cookie hmac owner t g)) now ?g = Inr owner"
    using Verify_Cookie [OF assms(5)] assms(3,4,6) by simp
  with new g show ?thesis by auto
qed

theorem restart_keeps_logins_witness:
  "\<exists>g h g'. NewGate (\<lambda>_ _. True) (Some ''correct horse'') None (Some (replicate 32 1)) ''s'' \<lparr>op_Secure = True, op_Domain = []\<rparr> [] = (Inr g, h) \<and>
     NewGate (\<lambda>_ _. True) (Some ''correct horse'') (file_after ''s'' h None) None ''s'' \<lparr>op_Secure = False, op_Domain = []\<rparr> [] = (Inr g', []) \<and>
     Verify ex_hmac (ck_Value (Cookie ex_hmac ''bob'' 0 g)) (10 * Second) g' = Inr ''bob''"
proof -
  have pw: "TrimSpace ''correct horse'' = ''correct horse''"
    by (rule TrimSpace_plain) (simp_all add: plain_char_def)
  have "\<exists>g h. NewGate (\<lambda>_ _. True) (Some ''correct horse'') None (Some (replicate 32 1)) ''s'' \<lparr>op_Secure = True, op_Domain = []\<rparr> [] = (Inr g, h)"
    by (simp add: NewGate_def pw loadOrCreateSecret_def perform_def)
  then obtain g h where g: "NewGate (\<lambda>_ _. True) (Some ''correct horse'') None (Some (replicate 32 1)) ''s'' \<lparr>op_Secure = True, op_Domain = []\<rparr> [] = (Inr g, h)"
    by blast
  have "int64_range (unix_seconds (0 + CookieMaxAge))" "slug_ok ''bob''"
    "unix_seconds (10 * Second) \<le> unix_seconds (0 + CookieMaxAge)"
    by code_simp+
  with restart_keeps_logins [OF g, of "''bob''" 0 "10 * Second" "\<lambda>_ _. True" None "\<lparr>op_Secure = False, op_Domain = []\<rparr>" ex_hmac]
  obtain g' where "NewGate (\<lambda>_ _. True) (Some ''correct horse'') (file_after ''s'' h None) None ''s'' \<lparr>op_Secure = False, op_Domain = []\<rparr> [] = (Inr g', [])"
    "Verify ex_hmac (ck_Value (Cookie ex_hmac ''bob'' 0 g)) (10 * Second) g' = Inr ''bob''"
    by auto
  with g show ?thesis by blast
qed

section \<open>The login limit\<close>

text \<open>Attempts, each with its address and moment, one after the other.\<close>

fun logins :: "(string \<times> go_time) list \<Rightarrow> gate \<Rightarrow> bool list \<times> gate" where
  "logins [] g = ([], g)"
| "logins ((ip, t) # cs) g =
     (case Allow ip t g of (ok, g1) \<Rightarrow> (case logins cs g1 of (oks, g2) \<Rightarrow> (ok # oks, g2)))"

text \<open>How many of the attempts from an address were let through.\<close>

definition admitted :: "string \<Rightarrow> (string \<times> go_time) list \<Rightarrow> bool list \<Rightarrow> nat" where
  "admitted ip cs oks = length (filter (\<lambda>((i, _), ok). i = ip \<and> ok) (zip cs oks))"

definition refill :: "rat \<Rightarrow> duration \<Rightarrow> rat" where
  "refill T d = fl64 (T + fl64 (Seconds d * fl64 (5 / 60)))"

definition seconds :: "duration \<Rightarrow> rat" where
  "seconds d = of_int d / 1000000000"

definition gate_ok :: "go_time \<Rightarrow> gate \<Rightarrow> bool" where
  "gate_ok now g \<longleftrightarrow> (\<forall>st \<in> ran (gt_rlTokens g). 0 \<le> rl_tokens st \<and> rl_tokens st \<le> 5 \<and> rl_last st \<le> now)"

lemma fl64_mono_bound: "0 \<le> x \<Longrightarrow> x \<le> y \<Longrightarrow> fl64 x \<le> (1 + ulp) * y"
  using fl64_upper [of x] by (rule order_trans) (simp_all add: ulp_def)

lemma Seconds_bounds:
  assumes "0 \<le> d"
  shows "0 \<le> Seconds d" "Seconds d \<le> (1 + ulp) ^ 3 * seconds d"
proof -
  define q r where "q = (of_int (d div Second) :: rat)" and "r = (of_int (d mod Second) :: rat)"
  have S: "Seconds d = fl64 (fl64 q + fl64 (fl64 r / 1000000000))"
    using assms by (cases "d = 0") (simp_all add: Seconds_def q_def r_def Let_def sgn_if)
  have nn: "0 \<le> q" "0 \<le> r" using assms by (simp_all add: q_def r_def Second_def)
  have d: "seconds d = q + r / 1000000000"
  proof -
    have "d = d div Second * Second + d mod Second" by simp
    then have "of_int d = q * of_int Second + r"
      unfolding q_def r_def by (metis of_int_add of_int_mult)
    then show ?thesis by (simp add: seconds_def Second_def)
  qed
  have a: "fl64 q \<le> (1 + ulp) * q" "0 \<le> fl64 q" "0 \<le> fl64 r" "fl64 r \<le> (1 + ulp) * r"
    using nn by (simp_all add: fl64_upper fl64_nonneg)
  have "fl64 r / 1000000000 \<le> (1 + ulp) * r / 1000000000"
    using a(4) by (intro divide_right_mono) simp_all
  then have b: "fl64 (fl64 r / 1000000000) \<le> (1 + ulp) * ((1 + ulp) * r / 1000000000)"
    using a(3) by (intro fl64_mono_bound) simp_all
  have b0: "0 \<le> fl64 (fl64 r / 1000000000)" using a(3) by (simp add: fl64_nonneg)
  have u: "1 \<le> 1 + ulp" by (simp add: ulp_def)
  have "(1 + ulp) * q \<le> (1 + ulp) * ((1 + ulp) * q)"
    using nn(1) u by (intro mult_left_mono) (simp_all add: ulp_def)
  moreover have "(1 + ulp) ^ 2 * seconds d = (1 + ulp) * ((1 + ulp) * q) + (1 + ulp) * ((1 + ulp) * r / 1000000000)"
  proof -
    have "u ^ 2 * (q + r / k) = u * (u * q) + u * (u * r / k)" for u k :: rat
      by (simp add: power2_eq_square distrib_left)
    then show ?thesis unfolding d .
  qed
  ultimately have "fl64 q + fl64 (fl64 r / 1000000000) \<le> (1 + ulp) ^ 2 * seconds d"
    using a(1) b by linarith
  then have "Seconds d \<le> (1 + ulp) * ((1 + ulp) ^ 2 * seconds d)"
    unfolding S using a(2) b0 by (intro fl64_mono_bound) simp_all
  then show "Seconds d \<le> (1 + ulp) ^ 3 * seconds d"
    by (simp add: power2_eq_square power3_eq_cube mult.assoc)
  show "0 \<le> Seconds d" unfolding S using a(2) b0 by (simp add: fl64_nonneg)
qed

lemma refill_nonneg: "0 \<le> T \<Longrightarrow> 0 \<le> d \<Longrightarrow> 0 \<le> refill T d"
  by (simp add: refill_def fl64_nonneg Seconds_bounds)

lemma refill_upper:
  assumes "0 \<le> T" "T \<le> 5" "0 \<le> d" "d \<le> 60 * Second"
  shows "refill T d \<le> T + seconds d / 12 + 1 / 2 ^ 47"
proof -
  let ?s = "seconds d" and ?u = "1 + ulp"
  have s: "0 \<le> ?s" "?s \<le> 60" using assms(3,4) by (simp_all add: seconds_def Second_def)
  have "fl64 (5 / 60) \<le> ?u * (5 / 60)" "0 \<le> fl64 (5 / 60)"
    by (rule fl64_upper, simp) (rule fl64_nonneg, simp)
  then have "Seconds d * fl64 (5 / 60) \<le> ?u ^ 3 * ?s * (?u * (5 / 60))"
    using Seconds_bounds [OF assms(3)] s(1) by (intro mult_mono) (simp_all add: ulp_def)
  then have f: "fl64 (Seconds d * fl64 (5 / 60)) \<le> ?u * (?u ^ 3 * ?s * (?u * (5 / 60)))"
    using Seconds_bounds(1) [OF assms(3)] by (intro fl64_mono_bound) (simp_all add: fl64_nonneg)
  have f0: "0 \<le> fl64 (Seconds d * fl64 (5 / 60))"
    using Seconds_bounds(1) [OF assms(3)] by (simp add: fl64_nonneg)
  have "T + fl64 (Seconds d * fl64 (5 / 60)) \<le> T + ?u ^ 5 * (?s / 12)"
    using f by (simp add: eval_nat_numeral mult_ac)
  then have "refill T d \<le> ?u * (T + ?u ^ 5 * (?s / 12))"
    unfolding refill_def using f0 assms(1) by (intro fl64_mono_bound) simp_all
  also have "\<dots> = T + ?s / 12 + (ulp * T + (?u ^ 6 - 1) * (?s / 12))"
    by (simp add: eval_nat_numeral field_simps)
  also have "ulp * T + (?u ^ 6 - 1) * (?s / 12) \<le> ulp * 5 + (?u ^ 6 - 1) * 5"
    using assms(2) s(2) by (intro add_mono mult_left_mono) (simp_all add: ulp_def)
  also have "\<dots> \<le> 1 / 2 ^ 47" by (simp add: ulp_def power_divide)
  finally show ?thesis by simp
qed

lemma Allow_effect:
  assumes "Allow ip now g = (ok, g')" "gate_ok now g"
    and "st = (case gt_rlTokens g ip of Some st \<Rightarrow> st | None \<Rightarrow> \<lparr>rl_tokens = 5, rl_last = now\<rparr>)"
  shows "\<exists>st'. gt_rlTokens g' = (gt_rlTokens g)(ip \<mapsto> st') \<and> rl_last st' = now \<and> 0 \<le> rl_tokens st' \<and> rl_tokens st' \<le> 5 \<and>
     of_bool ok + rl_tokens st' \<le> min 5 (refill (rl_tokens st) (time_sub now (rl_last st))) + 1 / 2 ^ 47"
proof -
  define t where "t = min 5 (refill (rl_tokens st) (time_sub now (rl_last st)))"
  have st: "0 \<le> rl_tokens st" "rl_last st \<le> now"
    using assms(2,3) by (auto simp: gate_ok_def ran_def split: option.splits)
  then have t: "0 \<le> t" "t \<le> 5" by (simp_all add: refill_nonneg t_def)
  have A: "(ok, g') =
     (if t < 1 then (False, g\<lparr>gt_rlTokens := (gt_rlTokens g)(ip \<mapsto> \<lparr>rl_tokens = t, rl_last = now\<rparr>)\<rparr>)
      else (True, g\<lparr>gt_rlTokens := (gt_rlTokens g)(ip \<mapsto> \<lparr>rl_tokens = fl64 (t - 1), rl_last = now\<rparr>)\<rparr>))"
    unfolding assms(1) [symmetric] t_def Allow_def refill_def Let_def assms(3) by (rule refl)
  have "\<exists>st'. gt_rlTokens g' = (gt_rlTokens g)(ip \<mapsto> st') \<and> rl_last st' = now \<and>
      0 \<le> rl_tokens st' \<and> rl_tokens st' \<le> 5 \<and> of_bool ok + rl_tokens st' \<le> t + 1 / 2 ^ 47"
  proof (cases "t < 1")
    case True
    then have "\<not> ok" "gt_rlTokens g' = (gt_rlTokens g)(ip \<mapsto> \<lparr>rl_tokens = t, rl_last = now\<rparr>)"
      using A by simp_all
    with t show ?thesis by (intro exI [of _ "\<lparr>rl_tokens = t, rl_last = now\<rparr>"]) simp
  next
    case False
    then have ok: "ok" "gt_rlTokens g' = (gt_rlTokens g)(ip \<mapsto> \<lparr>rl_tokens = fl64 (t - 1), rl_last = now\<rparr>)"
      using A by (simp_all split: if_splits)
    have "0 \<le> fl64 (t - 1)" "fl64 (t - 1) \<le> (1 + ulp) * (t - 1)"
      using False by (simp_all add: fl64_nonneg fl64_upper)
    moreover have "(1 + ulp) * (t - 1) \<le> t - 1 + ulp * 4"
      using t(2) by (simp add: ulp_def field_simps)
    moreover have "ulp * 4 \<le> 1 / 2 ^ 47" by (simp add: ulp_def)
    ultimately have "0 \<le> fl64 (t - 1)" "1 + fl64 (t - 1) \<le> t + 1 / 2 ^ 47" "fl64 (t - 1) \<le> 5"
      using t(2) by (simp_all add: ulp_def)
    with ok show ?thesis
      by (intro exI [of _ "\<lparr>rl_tokens = fl64 (t - 1), rl_last = now\<rparr>"]) simp
  qed
  then show ?thesis unfolding t_def .
qed

lemma Allow_gate_ok:
  assumes "Allow ip now g = (ok, g')" "gate_ok now g" "now \<le> now'"
  shows "gate_ok now' g'"
proof -
  obtain st where "gt_rlTokens g' = (gt_rlTokens g)(ip \<mapsto> st)" "rl_last st = now" "0 \<le> rl_tokens st" "rl_tokens st \<le> 5"
    using Allow_effect [OF assms(1,2) refl] by auto
  with assms(2,3) show ?thesis by (fastforce simp: gate_ok_def ran_def split: if_splits)
qed

lemma logins_gate_ok:
  "logins cs g = (oks, g') \<Longrightarrow> gate_ok t g \<Longrightarrow> sorted (t # map snd cs @ [t']) \<Longrightarrow> gate_ok t' g'"
proof (induction cs arbitrary: g t oks)
  case Nil
  then show ?case by (fastforce simp: gate_ok_def)
next
  case (Cons c cs)
  obtain ip now where c: "c = (ip, now)" by fastforce
  obtain ok g1 oks1 where a: "Allow ip now g = (ok, g1)" "logins cs g1 = (oks1, g')"
    using Cons.prems(1) by (auto simp: c split: prod.splits)
  have "gate_ok now g" using Cons.prems(2,3) by (fastforce simp: gate_ok_def c)
  then have "gate_ok now g1" using Allow_gate_ok [OF a(1)] by blast
  with Cons.IH [OF a(2)] Cons.prems(3) show ?case by (simp add: c)
qed

lemma admitted_Cons:
  "admitted ip ((i, t) # cs) (ok # oks) = (if i = ip \<and> ok then 1 else 0) + admitted ip cs oks"
  by (simp add: admitted_def)

text \<open>Within a minute after its last attempt, an address gets what it has plus what flows in.\<close>

lemma admitted_flow:
  "logins cs g = (oks, g') \<Longrightarrow> gate_ok t g \<Longrightarrow> sorted (t # map snd cs) \<Longrightarrow>
   gt_rlTokens g ip = Some st \<Longrightarrow> list_all (\<lambda>(_, u). u \<le> rl_last st + 60 * Second) cs \<Longrightarrow>
   \<exists>st'. gt_rlTokens g' ip = Some st' \<and> rl_last st \<le> rl_last st' \<and>
     (rl_last st' = rl_last st \<or> rl_last st' \<in> snd ` set cs) \<and> 0 \<le> rl_tokens st' \<and>
     of_nat (admitted ip cs oks) + rl_tokens st' \<le>
       rl_tokens st + seconds (rl_last st' - rl_last st) / 12 + of_nat (length cs) / 2 ^ 46"
proof (induction cs arbitrary: g t oks st)
  case Nil
  then show ?case by (auto simp: gate_ok_def ran_def admitted_def seconds_def)
next
  case (Cons c cs)
  obtain i now where c: "c = (i, now)" by fastforce
  obtain ok g1 oks1 where a: "Allow i now g = (ok, g1)" "logins cs g1 = (oks1, g')" and oks: "oks = ok # oks1"
    using Cons.prems(1) by (auto simp: c split: prod.splits)
  have ok_now: "gate_ok now g" using Cons.prems(2,3) by (fastforce simp: gate_ok_def c)
  then have g1: "gate_ok now g1" using Allow_gate_ok [OF a(1)] by blast
  have st: "0 \<le> rl_tokens st" "rl_tokens st \<le> 5" "rl_last st \<le> now"
    using ok_now Cons.prems(4) by (auto simp: gate_ok_def ran_def)
  obtain st1 where e: "gt_rlTokens g1 = (gt_rlTokens g)(i \<mapsto> st1)" "rl_last st1 = now"
    "of_bool ok + rl_tokens st1 \<le>
       min 5 (refill (rl_tokens (case gt_rlTokens g i of Some st \<Rightarrow> st | None \<Rightarrow> \<lparr>rl_tokens = 5, rl_last = now\<rparr>))
         (time_sub now (rl_last (case gt_rlTokens g i of Some st \<Rightarrow> st | None \<Rightarrow> \<lparr>rl_tokens = 5, rl_last = now\<rparr>)))) + 1 / 2 ^ 47"
    using Allow_effect [OF a(1) ok_now refl] by blast
  let ?rest = "\<lambda>b. list_all (\<lambda>(_, u). u \<le> rl_last b + 60 * Second) cs"
  show ?case
  proof (cases "i = ip")
    case True
    have d: "time_sub now (rl_last st) = now - rl_last st" "now - rl_last st \<le> 60 * Second"
      using Cons.prems(5) st(3) by (simp_all add: c time_sub_exact int64_range_def Second_def)
    have "of_bool ok + rl_tokens st1 \<le> refill (rl_tokens st) (now - rl_last st) + 1 / 2 ^ 47"
      using e(3) True Cons.prems(4) d(1) by simp
    also have "\<dots> \<le> rl_tokens st + seconds (now - rl_last st) / 12 + 1 / 2 ^ 46"
      using refill_upper [OF st(1,2) _ d(2)] st(3) by simp
    finally have step: "of_bool ok + rl_tokens st1 \<le> rl_tokens st + seconds (now - rl_last st) / 12 + 1 / 2 ^ 46" .
    have "?rest st1"
      using Cons.prems(5) st(3) e(2) by (auto simp: c list_all_iff)
    then obtain st' where "gt_rlTokens g' ip = Some st'" "rl_last st1 \<le> rl_last st'"
        "rl_last st' = rl_last st1 \<or> rl_last st' \<in> snd ` set cs" "0 \<le> rl_tokens st'"
        "of_nat (admitted ip cs oks1) + rl_tokens st' \<le>
           rl_tokens st1 + seconds (rl_last st' - rl_last st1) / 12 + of_nat (length cs) / 2 ^ 46"
      using Cons.IH [OF a(2) g1, of st1] Cons.prems(3) e(1) True by (auto simp: c)
    with step st(3) e(2) show ?thesis
      by (intro exI [of _ st'])
        (auto simp: c oks admitted_Cons True seconds_def field_simps split: if_splits)
  next
    case False
    then have "gt_rlTokens g1 ip = Some st" using e(1) Cons.prems(4) by simp
    moreover have "?rest st" using Cons.prems(5) by (simp add: c)
    ultimately obtain st' where "gt_rlTokens g' ip = Some st'" "rl_last st \<le> rl_last st'"
        "rl_last st' = rl_last st \<or> rl_last st' \<in> snd ` set cs" "0 \<le> rl_tokens st'"
        "of_nat (admitted ip cs oks1) + rl_tokens st' \<le>
           rl_tokens st + seconds (rl_last st' - rl_last st) / 12 + of_nat (length cs) / 2 ^ 46"
      using Cons.IH [OF a(2) g1] Cons.prems(3) by (auto simp: c)
    with False show ?thesis
      by (intro exI [of _ st']) (auto simp: c oks admitted_Cons field_simps)
  qed
qed

lemma admitted_window:
  "logins cs g = (oks, g') \<Longrightarrow> gate_ok t g \<Longrightarrow> sorted (t # map snd cs) \<Longrightarrow>
   list_all (\<lambda>(_, u). a \<le> u \<and> u \<le> a + 60 * Second) cs \<Longrightarrow> length cs \<le> 2 ^ 45 \<Longrightarrow> admitted ip cs oks \<le> 10"
proof (induction cs arbitrary: g t oks)
  case Nil
  then show ?case by (simp add: admitted_def)
next
  case (Cons c cs)
  obtain i now where c: "c = (i, now)" by fastforce
  obtain ok g1 oks1 where al: "Allow i now g = (ok, g1)" "logins cs g1 = (oks1, g')" and oks: "oks = ok # oks1"
    using Cons.prems(1) by (auto simp: c split: prod.splits)
  have ok_now: "gate_ok now g" using Cons.prems(2,3) by (fastforce simp: gate_ok_def c)
  then have g1: "gate_ok now g1" using Allow_gate_ok [OF al(1)] by blast
  have srt: "sorted (now # map snd cs)" using Cons.prems(3) by (simp add: c)
  show ?case
  proof (cases "i = ip")
    case False
    then show ?thesis
      using Cons.IH [OF al(2) g1 srt] Cons.prems(4,5) by (simp add: c oks admitted_Cons)
  next
    case True
    obtain st where e: "gt_rlTokens g1 ip = Some st" "rl_last st = now" "of_bool ok + rl_tokens st \<le> 5 + 1 / 2 ^ 47"
      using Allow_effect [OF al(1) ok_now refl] True by fastforce
    have "list_all (\<lambda>(_, u). u \<le> rl_last st + 60 * Second) cs"
      using Cons.prems(4) e(2) by (auto simp: c list_all_iff)
    then obtain st' :: rl_state where f: "rl_last st' = now \<or> rl_last st' \<in> snd ` set cs" "0 \<le> rl_tokens st'"
      "of_nat (admitted ip cs oks1) + rl_tokens st' \<le>
         rl_tokens st + seconds (rl_last st' - now) / 12 + of_nat (length cs) / 2 ^ 46"
      using admitted_flow [OF al(2) g1 srt e(1)] unfolding e(2) by blast
    have "rl_last st' - now \<le> 60 * Second"
      using f(1) Cons.prems(4) by (auto simp: c list_all_iff Second_def)
    then have "seconds (rl_last st' - now) \<le> 60"
      by (simp add: seconds_def Second_def)
    moreover have "(of_nat (length cs) :: rat) / 2 ^ 46 \<le> 1 / 2"
    proof -
      have "(of_nat (length cs) :: rat) \<le> of_nat (2 ^ 45)"
        using Cons.prems(5) by (intro of_nat_mono) simp
      then show ?thesis by simp
    qed
    ultimately have "of_bool ok + (of_nat (admitted ip cs oks1) :: rat) \<le> 5 + 5 + 1 / 2 + 1 / 2 ^ 47"
      using e(3) f(2,3) by linarith
    then have "(of_nat (admitted ip (c # cs) oks) :: rat) < of_nat 11"
      using True by (auto simp: c oks admitted_Cons split: if_splits)
    then show ?thesis
      unfolding of_nat_less_iff by simp
  qed
qed

text \<open>
  C32: The password cannot be guessed quickly. However attempts from any number of addresses
  interleave, and with the rounding of \<open>float64\<close> taken into account, at most ten of those from
  one address get past the limiter in any sixty seconds (for fewer than \<open>2^45\<close> attempts in that
  time, since each one rounds).
\<close>

theorem login_limit:
  assumes "gt_rlTokens g = Map.empty" "sorted (map snd (before @ window))"
    and "list_all (\<lambda>(_, u). a \<le> u \<and> u \<le> a + 60 * Second) window" "length window \<le> 2 ^ 45"
    and "logins before g = (oks0, g0)" "logins window g0 = (oks, g1)"
  shows "admitted ip window oks \<le> 10"
proof (cases window)
  case Nil
  then show ?thesis by (simp add: admitted_def)
next
  case (Cons c cs)
  have s: "sorted (map snd before @ map snd window)" using assms(2) by simp
  let ?t0 = "hd (map snd (before @ window))" and ?t1 = "snd c"
  have "gate_ok ?t0 g" using assms(1) by (simp add: gate_ok_def)
  moreover have "sorted (?t0 # map snd before @ [?t1])"
    using s Cons by (cases before) (auto simp: sorted_append)
  ultimately have "gate_ok ?t1 g0"
    using logins_gate_ok [OF assms(5)] by blast
  moreover have "sorted (?t1 # map snd window)"
    using s Cons by (auto simp: sorted_append)
  ultimately show ?thesis
    using admitted_window [OF assms(6) _ _ assms(3,4)] by blast
qed

text \<open>Ten attempts in sixty seconds that all get through: a burst of five, then one every twelve.\<close>

definition ex_attempts :: "(string \<times> go_time) list" where
  "ex_attempts = map (\<lambda>t. (''ip'', t * Second)) [0, 0, 0, 0, 0, 12, 24, 36, 48, 60]"

definition ex_bucket :: "rat \<Rightarrow> int \<Rightarrow> gate" where
  "ex_bucket T s = ex_gate\<lparr>gt_rlTokens := [''ip'' \<mapsto> \<lparr>rl_tokens = T, rl_last = s * Second\<rparr>]\<rparr>"

lemma Allow_ex_bucket:
  assumes "s \<le> u" "u \<le> s + 60" "refill T ((u - s) * Second) = t" "1 \<le> t" "t \<le> 5" "fl64 (t - 1) = T'"
  shows "Allow ''ip'' (u * Second) (ex_bucket T s) = (True, ex_bucket T' u)"
proof -
  have "time_sub (u * Second) (s * Second) = (u - s) * Second"
    using assms(1,2) by (subst time_sub_exact) (simp_all add: Second_def left_diff_distrib)
  then show ?thesis
    using assms(3-6) by (simp add: Allow_def ex_bucket_def Let_def refill_def)
qed

lemma logins_ten: "fst (logins ex_attempts ex_gate) = replicate 10 True"
proof -
  have fl: "fl64 0 = 0" "fl64 1 = 1" "fl64 2 = 2" "fl64 3 = 3" "fl64 4 = 4" "fl64 5 = 5"
    by code_simp+
  have r: "refill T 0 = fl64 T" for T by (simp add: refill_def Seconds_def fl(1))
  have r12: "refill 0 (12 * Second) = 1" by code_simp
  have "Allow ''ip'' (0 * Second) ex_gate = (True, ex_bucket 4 0)"
    using r [of 5] fl
    by (simp add: Allow_def refill_def ex_gate_def NewGateFromSecrets_def ex_bucket_def Let_def)
  moreover have "Allow ''ip'' (0 * Second) (ex_bucket 4 0) = (True, ex_bucket 3 0)"
    "Allow ''ip'' (0 * Second) (ex_bucket 3 0) = (True, ex_bucket 2 0)"
    "Allow ''ip'' (0 * Second) (ex_bucket 2 0) = (True, ex_bucket 1 0)"
    "Allow ''ip'' (0 * Second) (ex_bucket 1 0) = (True, ex_bucket 0 0)"
    by (rule Allow_ex_bucket [OF _ _ refl]; simp add: r fl)+
  moreover have "Allow ''ip'' (12 * Second) (ex_bucket 0 0) = (True, ex_bucket 0 12)"
    "Allow ''ip'' (24 * Second) (ex_bucket 0 12) = (True, ex_bucket 0 24)"
    "Allow ''ip'' (36 * Second) (ex_bucket 0 24) = (True, ex_bucket 0 36)"
    "Allow ''ip'' (48 * Second) (ex_bucket 0 36) = (True, ex_bucket 0 48)"
    "Allow ''ip'' (60 * Second) (ex_bucket 0 48) = (True, ex_bucket 0 60)"
    by (rule Allow_ex_bucket [where t = 1]; simp add: r12 fl)+
  ultimately show ?thesis
    by (simp add: ex_attempts_def eval_nat_numeral del: mult_zero_left)
qed

theorem login_limit_witness:
  "logins [] ex_gate = ([], ex_gate) \<and> sorted (map snd ([] @ ex_attempts)) \<and>
   admitted ''ip'' ex_attempts (fst (logins ex_attempts ex_gate)) \<le> 10"
proof -
  have "gt_rlTokens ex_gate = Map.empty" by (simp add: ex_gate_def NewGateFromSecrets_def)
  moreover have s: "sorted (map snd ([] @ ex_attempts))" by code_simp
  moreover have "list_all (\<lambda>(_, u). 0 \<le> u \<and> u \<le> 0 + 60 * Second) ex_attempts" "length ex_attempts \<le> 2 ^ 45"
    by code_simp (simp add: ex_attempts_def)
  ultimately have "admitted ''ip'' ex_attempts (fst (logins ex_attempts ex_gate)) \<le> 10"
    using login_limit [of ex_gate "[]" ex_attempts 0 "[]" ex_gate] by (simp add: prod_eq_iff)
  with s show ?thesis by simp
qed

end
