(* ===== verification/Api_Pages.thy ===== *)
theory Api_Pages
  imports Login_Gate
begin

text \<open>
  The part of \<open>control-plane/internal/api\<close> that every handler uses, \<open>respond.go\<close> and
  \<open>middleware.go\<close>, and the pages of \<open>pages.go\<close> with the login form. What the two HTML
  templates write for given data is an argument; logging is left out.
\<close>

section \<open>Responses\<close>

definition writeJSON :: "int \<Rightarrow> json \<Rightarrow> web_writer \<Rightarrow> web_writer" where
  "writeJSON status v w =
     ww_Write (print_json v @ [CHR 0x0A]) (ww_WriteHeader status (ww_Set ''Content-Type'' ''application/json'' w))"

definition ErrCapacityFull :: string where "ErrCapacityFull = ''capacity_full''"
definition ErrAuthInvalid :: string where "ErrAuthInvalid = ''auth_invalid''"
definition ErrVMLaunchFailed :: string where "ErrVMLaunchFailed = ''vm_launch_failed''"
definition ErrVMNotFound :: string where "ErrVMNotFound = ''vm_not_found''"
definition ErrSessionReaped :: string where "ErrSessionReaped = ''session_reaped''"
definition ErrBadRequest :: string where "ErrBadRequest = ''bad_request''"
definition ErrRateLimited :: string where "ErrRateLimited = ''rate_limited''"
definition ErrInternal :: string where "ErrInternal = ''internal''"

definition requestIDFrom :: "web_request \<Rightarrow> string" where
  "requestIDFrom r = (case wr_requestID r of Some v \<Rightarrow> v | None \<Rightarrow> [])"

text \<open>\<open>APIError\<close> as JSON: the last two fields are left out when empty.\<close>

definition error_json :: "string \<Rightarrow> string \<Rightarrow> int option \<Rightarrow> string \<Rightarrow> json" where
  "error_json code message retry reqID =
     JObj ([(''code'', JStr code), (''message'', JStr message)]
           @ (case retry of None \<Rightarrow> [] | Some n \<Rightarrow> [(''retry_after_seconds'', JNum (FormatInt n))])
           @ (if reqID = [] then [] else [(''request_id'', JStr reqID)]))"

definition apiError :: "web_request \<Rightarrow> int \<Rightarrow> string \<Rightarrow> string \<Rightarrow> web_writer \<Rightarrow> web_writer" where
  "apiError r status code message = writeJSON status (error_json code message None (requestIDFrom r))"

definition apiErrorRetry :: "web_request \<Rightarrow> int \<Rightarrow> string \<Rightarrow> string \<Rightarrow> int \<Rightarrow> web_writer \<Rightarrow> web_writer" where
  "apiErrorRetry r status code message retryAfter =
     writeJSON status (error_json code message (Some retryAfter) (requestIDFrom r))"

text \<open>
  The decoder of a struct for \<open>decodeJSON\<close> reports a type error for a member with an unknown
  name, since \<open>DisallowUnknownFields\<close> is set; the first value of the body is decoded.
\<close>

definition decodeJSON :: "'a decoder \<Rightarrow> 'a \<Rightarrow> web_request \<Rightarrow> 'a option" where
  "decodeJSON dec zero r = decode_into dec zero (wr_body r)"

section \<open>Request identifiers\<close>

definition RequestIDHeader :: string where
  "RequestIDHeader = ''X-Request-Id''"

definition requestIDMiddleware :: "string \<Rightarrow> 'st handler \<Rightarrow> 'st handler" where
  "requestIDMiddleware uuid next r ws =
     (let h = header_Get (wr_header r) RequestIDHeader; rid = (if h = [] then uuid else h)
      in next (r\<lparr>wr_requestID := Some rid\<rparr>) (ww_Set RequestIDHeader rid (fst ws), snd ws))"

definition healthz :: "web_writer \<Rightarrow> web_writer" where
  "healthz w =
     ww_Write (print_json (JObj [(''ok'', JBool True)]))
       (ww_WriteHeader 200 (ww_Set ''Content-Type'' ''application/json'' w))"

section \<open>Pages\<close>

text \<open>The keyed hash, the moments of \<open>Allow\<close> and of \<open>Cookie\<close>, and the templates.\<close>

record page_env =
  pe_hmac :: "bytes \<Rightarrow> string \<Rightarrow> bytes"
  pe_now :: go_time
  pe_later :: go_time
  pe_loginPage :: "string \<Rightarrow> string \<Rightarrow> string"
  pe_terminalPage :: "string \<Rightarrow> string"

definition render :: "string \<Rightarrow> web_writer \<Rightarrow> web_writer" where
  "render page w =
     ww_Write page
       (ww_Set ''X-Content-Type-Options'' ''nosniff'' (ww_Set ''Content-Type'' ''text/html; charset=utf-8'' w))"

definition Login :: "page_env \<Rightarrow> gate handler" where
  "Login pe r ws =
     (case ws of
        (w, g) \<Rightarrow>
          (if OwnerFromRequest (pe_hmac pe) r (pe_now pe) g \<noteq> None then SeeOther r ''/terminal'' w
           else render (pe_loginPage pe [] []) w, g))"

record login_body =
  lb_Name :: string
  lb_Password :: string

definition dec_login :: "login_body decoder" where
  "dec_login = dec_struct (\<lambda>f v b.
     if f = fold_name ''name'' then (case dec_string v (lb_Name b) of (x, ok) \<Rightarrow> (b\<lparr>lb_Name := x\<rparr>, ok))
     else if f = fold_name ''password'' then
       (case dec_string v (lb_Password b) of (x, ok) \<Rightarrow> (b\<lparr>lb_Password := x\<rparr>, ok))
     else (b, False))"

definition wantsJSON :: "web_request \<Rightarrow> bool" where
  "wantsJSON r = HasPrefix (header_Get (wr_header r) ''Content-Type'') ''application/json''"

text \<open>Name and password, from the JSON body or from the form; \<open>None\<close> when they cannot be read.\<close>

definition login_input :: "web_request \<Rightarrow> (string \<times> string) option" where
  "login_input r =
     (if wantsJSON r then
        (case decodeJSON dec_login \<lparr>lb_Name = [], lb_Password = []\<rparr> r of
           None \<Rightarrow> None
         | Some b \<Rightarrow> Some (lb_Name b, lb_Password b))
      else if wr_form r = None then None
      else Some (FormValue r ''name'', FormValue r ''password''))"

definition login_fail :: "page_env \<Rightarrow> web_request \<Rightarrow> string \<Rightarrow> int \<Rightarrow> string \<Rightarrow> string \<Rightarrow> web_writer \<Rightarrow> web_writer" where
  "login_fail pe r name status code msg w =
     (if wantsJSON r then apiError r status code msg w
      else render (pe_loginPage pe name msg) (ww_WriteHeader status w))"

definition SubmitLogin :: "page_env \<Rightarrow> gate handler" where
  "SubmitLogin pe r ws =
     (case ws of
        (w, g) \<Rightarrow>
          (case login_input r of
             None \<Rightarrow>
               (if wantsJSON r then apiError r 400 ErrBadRequest ''invalid json'' w
                else ww_Error ''bad form'' 400 w, g)
           | Some (name, password) \<Rightarrow>
               (case Allow (ClientIP r) (pe_now pe) g of
                  (ok, g1) \<Rightarrow>
                    (let owner = Slugify name
                     in if \<not> ok then
                          (login_fail pe r name 429 ErrRateLimited
                             ''Too many attempts. Wait a minute and try again.'' w, g1)
                        else if owner = [] then
                          (login_fail pe r name 400 ErrBadRequest
                             ''Pick a name with at least one letter or digit.'' w, g1)
                        else if \<not> CheckPassword password g1 then
                          (login_fail pe r name 401 ErrAuthInvalid ''Wrong password.'' w, g1)
                        else
                          (let w1 = SetCookie (Cookie (pe_hmac pe) owner (pe_later pe) g1) w
                           in (if wantsJSON r then ww_WriteHeader 204 w1 else SeeOther r ''/terminal'' w1, g1))))))"

definition Logout :: "page_env \<Rightarrow> gate handler" where
  "Logout pe r ws =
     (case ws of (w, g) \<Rightarrow> (SeeOther r ''/'' (SetCookie (ClearCookie (pe_hmac pe) (pe_later pe) g) w), g))"

definition Terminal :: "page_env \<Rightarrow> gate handler" where
  "Terminal pe r ws =
     (case ws of
        (w, g) \<Rightarrow>
          (case OwnerFromRequest (pe_hmac pe) r (pe_now pe) g of
             None \<Rightarrow> (SeeOther r ''/'' w, g)
           | Some owner \<Rightarrow> (render (pe_terminalPage pe owner) w, g)))"

section \<open>Lemmas\<close>

lemma writeJSON_simps [simp]:
  "ww_sent w = None \<Longrightarrow> ww_status (writeJSON st v w) = st"
  "ww_sent w = None \<Longrightarrow> sent_cookies (writeJSON st v w) = ww_cookies w"
  "ww_body (writeJSON st v w) = ww_body w @ print_json v @ [CHR 0x0A]"
  by (simp_all add: writeJSON_def ww_status_def sent_cookies_def)

lemma login_fail_simps [simp]:
  "ww_sent w = None \<Longrightarrow> ww_status (login_fail pe r name st code msg w) = st"
  "ww_sent w = None \<Longrightarrow> sent_cookies (login_fail pe r name st code msg w) = ww_cookies w"
  by (simp_all add: login_fail_def render_def apiError_def) (simp_all add: ww_status_def sent_cookies_def)

text \<open>The page of a failed login is sent before its headers are set.\<close>

lemma login_fail_headers:
  assumes "\<not> wantsJSON r" "ww_sent w = None" "ww_header w = []"
  shows "sent_header (login_fail pe r name st code msg w) ''X-Content-Type-Options'' = []"
    and "sent_header (render (pe_loginPage pe name msg) w) ''X-Content-Type-Options'' = ''nosniff''"
  using assms by (simp_all add: login_fail_def render_def sent_header_def header_Get_Set)
    (simp add: header_Get_def header_values_def)

text \<open>What answers a login: the status, and the owner of the cookie, if one is set.\<close>

definition login_answer :: "page_env \<Rightarrow> web_request \<Rightarrow> gate \<Rightarrow> int \<times> string option" where
  "login_answer pe r g =
     (case login_input r of
        None \<Rightarrow> (400, None)
      | Some (name, password) \<Rightarrow>
          if \<not> fst (Allow (ClientIP r) (pe_now pe) g) then (429, None)
          else if Slugify name = [] then (400, None)
          else if password \<noteq> gt_password g then (401, None)
          else (if wantsJSON r then 204 else 303, Some (Slugify name)))"

lemma Allow_keeps:
  "gt_password (snd (Allow ip now g)) = gt_password g"
  "gt_cookieSecret (snd (Allow ip now g)) = gt_cookieSecret g"
  "gt_opts (snd (Allow ip now g)) = gt_opts g"
  by (simp_all add: Allow_def Let_def)

lemma Cookie_Allow: "Cookie hmac owner t (snd (Allow ip now g)) = Cookie hmac owner t g"
  by (simp add: Cookie_def Allow_keeps)

lemma SubmitLogin_answer:
  assumes "ww_sent w = None" "SubmitLogin pe r (w, g) = (w', g')"
  shows "ww_status w' = fst (login_answer pe r g)"
    and "sent_cookies w' = ww_cookies w @
      (case snd (login_answer pe r g) of None \<Rightarrow> [] | Some owner \<Rightarrow> [Cookie (pe_hmac pe) owner (pe_later pe) g])"
    and "g' = (if login_input r = None then g else snd (Allow (ClientIP r) (pe_now pe) g))"
proof -
  have "ww_status w' = fst (login_answer pe r g) \<and>
    sent_cookies w' = ww_cookies w @
      (case snd (login_answer pe r g) of None \<Rightarrow> [] | Some owner \<Rightarrow> [Cookie (pe_hmac pe) owner (pe_later pe) g]) \<and>
    g' = (if login_input r = None then g else snd (Allow (ClientIP r) (pe_now pe) g))"
  proof (cases "login_input r")
    case None
    with assms show ?thesis
      by (auto simp: SubmitLogin_def login_answer_def apiError_def)
  next
    case (Some np)
    obtain name password where np: "np = (name, password)" by fastforce
    obtain ok g1 where al: "Allow (ClientIP r) (pe_now pe) g = (ok, g1)" by fastforce
    have g1: "gt_password g1 = gt_password g" "Cookie hmac owner t g1 = Cookie hmac owner t g" for hmac owner t
      using Allow_keeps(1) [of "ClientIP r" "pe_now pe" g] Cookie_Allow [of hmac owner t "ClientIP r" "pe_now pe" g]
      by (simp_all add: al)
    show ?thesis
      using assms Some np al g1
      by (auto simp: SubmitLogin_def login_answer_def CheckPassword_def Let_def split: if_splits)
  qed
  then show "ww_status w' = fst (login_answer pe r g)"
    "sent_cookies w' = ww_cookies w @
      (case snd (login_answer pe r g) of None \<Rightarrow> [] | Some owner \<Rightarrow> [Cookie (pe_hmac pe) owner (pe_later pe) g])"
    "g' = (if login_input r = None then g else snd (Allow (ClientIP r) (pe_now pe) g))"
    by blast+
qed

text \<open>
  C4: Logging in works, and is the only way in. The status of the answer and whether a cookie is
  set are decided by the input, the limiter, the name and the password, in this order; a cookie is
  set only for the right password and a name that leaves something after normalisation, exactly
  one, and for the following thirty days every request that presents it is recognised as that
  name's, and afterwards none.
\<close>

theorem login_end_to_end:
  assumes "SubmitLogin pe r (w, g) = (w', g')" "ww_sent w = None" "ww_cookies w = []"
    and "int64_range (unix_seconds (pe_later pe + CookieMaxAge))"
  shows "ww_status w' = fst (login_answer pe r g) \<and>
     (case snd (login_answer pe r g) of
        None \<Rightarrow> sent_cookies w' = []
      | Some owner \<Rightarrow>
          \<exists>c name. sent_cookies w' = [c] \<and> login_input r = Some (name, gt_password g) \<and> owner = Slugify name \<and>
            (\<forall>q now. map_of (wr_cookies q) (ck_Name c) = Some (ck_Value c) \<longrightarrow>
               OwnerFromRequest (pe_hmac pe) q now g' =
                 (if unix_seconds now \<le> unix_seconds (pe_later pe + CookieMaxAge) then Some owner else None)))"
proof (cases "snd (login_answer pe r g)")
  case None
  with SubmitLogin_answer [OF assms(2,1)] assms(3) show ?thesis by simp
next
  case (Some owner)
  then obtain name where n: "login_input r = Some (name, gt_password g)" "owner = Slugify name" "owner \<noteq> []"
    by (auto simp: login_answer_def split: option.splits prod.splits if_splits)
  let ?c = "Cookie (pe_hmac pe) owner (pe_later pe) g"
  have c: "sent_cookies w' = [?c]" and st: "ww_status w' = fst (login_answer pe r g)"
    and g': "g' = snd (Allow (ClientIP r) (pe_now pe) g)"
    using SubmitLogin_answer [OF assms(2,1)] assms(3) Some n(1) by simp_all
  have "slug_ok owner" using n(2) slug_ok_Slugify by simp
  then have v: "Verify (pe_hmac pe) (ck_Value ?c) now g' =
      (if unix_seconds now \<le> unix_seconds (pe_later pe + CookieMaxAge) then Inr owner else Inl ErrCookieInvalid)" for now
    using Verify_Cookie [OF assms(4), of "pe_hmac pe" owner g' now] n(3) g' Cookie_Allow by simp
  have "OwnerFromRequest (pe_hmac pe) q now g' =
      (if unix_seconds now \<le> unix_seconds (pe_later pe + CookieMaxAge) then Some owner else None)"
    if "map_of (wr_cookies q) (ck_Name ?c) = Some (ck_Value ?c)" for q now
  proof -
    have "ck_Name ?c = CookieName" by (simp add: Cookie_def Let_def)
    with that show ?thesis by (simp add: OwnerFromRequest_def v)
  qed
  with c st n(1,2) Some show ?thesis by auto
qed

definition ex_page_env :: page_env where
  "ex_page_env = \<lparr>pe_hmac = ex_hmac, pe_now = 0, pe_later = 0, pe_loginPage = (\<lambda>_ m. m), pe_terminalPage = (\<lambda>o'. o')\<rparr>"

definition ex_login :: web_request where
  "ex_login = \<lparr>wr_method = ''POST'', wr_path = ''/login'', wr_header = [], wr_cookies = [], wr_remote = ''ip'',
     wr_length = 0, wr_body = [], wr_form = Some [(''name'', ''Bob''), (''password'', ''correct horse'')],
     wr_param = [], wr_requestID = None, wr_owner = None\<rparr>"

theorem login_end_to_end_witness:
  "\<exists>w' g' c. SubmitLogin ex_page_env ex_login (new_writer, ex_gate) = (w', g') \<and> ww_status w' = 303 \<and>
     sent_cookies w' = [c] \<and>
     OwnerFromRequest ex_hmac (ex_login\<lparr>wr_cookies := [(ck_Name c, ck_Value c)]\<rparr>) (5 * Second) g' = Some ''bob''"
proof -
  obtain w' g' where s: "SubmitLogin ex_page_env ex_login (new_writer, ex_gate) = (w', g')" by fastforce
  have e: "int64_range (unix_seconds (pe_later ex_page_env + CookieMaxAge))" "pe_hmac ex_page_env = ex_hmac"
    "unix_seconds (5 * Second) \<le> unix_seconds (pe_later ex_page_env + CookieMaxAge)"
    by code_simp (simp add: ex_page_env_def, code_simp)
  have a: "login_answer ex_page_env ex_login ex_gate = (303, Some ''bob'')" by code_simp
  obtain c where c: "sent_cookies w' = [c]" "ww_status w' = 303"
    "\<forall>q now. map_of (wr_cookies q) (ck_Name c) = Some (ck_Value c) \<longrightarrow>
        OwnerFromRequest ex_hmac q now g' =
          (if unix_seconds now \<le> unix_seconds (pe_later ex_page_env + CookieMaxAge) then Some ''bob'' else None)"
    using login_end_to_end [OF s _ _ e(1)] by (auto simp: a e(2) new_writer_def)
  have "OwnerFromRequest ex_hmac (ex_login\<lparr>wr_cookies := [(ck_Name c, ck_Value c)]\<rparr>) (5 * Second) g' = Some ''bob''"
    using c(3) e(3) by simp
  with s c show ?thesis by blast
qed

end
