(* ===== verification/Api_Sessions.thy ===== *)
theory Api_Sessions
  imports Launchers Session_Store Api_Pages
begin

text \<open>
  The session handlers of \<open>control-plane/internal/api/sessions.go\<close>, and the callback
  \<open>main.go\<close> gives to the host, which records the end of a session in the table. A request is
  handled in one step over the host with its sessions, the login gate and the table. Of third-party
  code, \<open>uuid.Parse\<close> and the WebSocket connection are arguments.
\<close>

section \<open>Times as text\<close>

text \<open>\<open>t.UTC().Format(time.RFC3339)\<close>, in the proleptic Gregorian calendar.\<close>

definition leap_year :: "int \<Rightarrow> bool" where
  "leap_year y \<longleftrightarrow> y mod 4 = 0 \<and> (y mod 100 \<noteq> 0 \<or> y mod 400 = 0)"

definition year_len :: "int \<Rightarrow> int" where
  "year_len y = (if leap_year y then 366 else 365)"

text \<open>The year, and the day within it, of a day counted from the first day of a given year.\<close>

function civil_year :: "int \<Rightarrow> int \<Rightarrow> int \<times> int" where
  "civil_year y n =
     (if n < 0 then civil_year (y - 1) (n + year_len (y - 1))
      else if n < year_len y then (y, n)
      else civil_year (y + 1) (n - year_len y))"
  by pat_completeness auto

termination civil_year
  by (relation "measure (\<lambda>(y, n). nat (if n < 0 then 400 - n else n))") (auto simp: year_len_def split: if_splits)

declare civil_year.simps [simp del]

definition month_lens :: "int \<Rightarrow> int list" where
  "month_lens y = [31, if leap_year y then 29 else 28, 31, 30, 31, 30, 31, 31, 30, 31, 30, 31]"

fun civil_month :: "int \<Rightarrow> int list \<Rightarrow> int \<Rightarrow> int \<times> int" where
  "civil_month m [] n = (m, n + 1)"
| "civil_month m (k # ks) n = (if n < k then (m, n + 1) else civil_month (m + 1) ks (n - k))"

definition pad :: "nat \<Rightarrow> int \<Rightarrow> string" where
  "pad k i =
     (let s = show_nat (nat \<bar>i\<bar>)
      in (if i < 0 then ''-'' else []) @ replicate (k - length s) CHR ''0'' @ s)"

definition format_RFC3339 :: "go_time \<Rightarrow> string" where
  "format_RFC3339 t =
     (let sec = t div Second; day = sec div 86400; rest = sec mod 86400;
          (y, n) = civil_year 1970 day; (m, d) = civil_month 1 (month_lens y) n
      in pad 4 y @ ''-'' @ pad 2 m @ ''-'' @ pad 2 d @ ''T'' @ pad 2 (rest div 3600) @ '':''
         @ pad 2 (rest div 60 mod 60) @ '':'' @ pad 2 (rest mod 60) @ ''Z'')"

section \<open>State and environment\<close>

record api_state =
  as_world :: world
  as_gate :: gate
  as_table :: sessions_table

record api_env =
  ae_page :: page_env
  ae_origin :: string
  ae_launch :: launcher
  ae_uuid :: uuid
  ae_uuid2 :: uuid
  ae_uuid_Parse :: "string \<Rightarrow> uuid option"
  ae_os :: os
  ae_order :: "world \<Rightarrow> sref list"
  ae_ip6 :: "string \<Rightarrow> bool"
  ae_host_inet :: "string \<Rightarrow> string"
  ae_insert :: db_result
  ae_get :: db_result
  ae_touch :: db_result
  ae_mark :: db_result
  ae_dbnow :: go_time

text \<open>The function given to \<open>Host.OnGone\<close>, and a destruction with the calls of it.\<close>

definition mark_gone :: "api_env \<Rightarrow> sref \<Rightarrow> api_state \<Rightarrow> api_state" where
  "mark_gone env r st =
     (case ae_uuid_Parse env (ss_ID (w_store (as_world st) r)) of
        None \<Rightarrow> st
      | Some sid \<Rightarrow> st\<lparr>as_table := snd (MarkSessionReaped (ae_mark env) (ae_dbnow env) sid (as_table st))\<rparr>)"

definition api_Destroy :: "api_env \<Rightarrow> string \<Rightarrow> api_state \<Rightarrow> session_error option \<times> api_state" where
  "api_Destroy env sid st =
     (case host_Destroy (ae_os env) sid (as_world st) of
        (err, w1) \<Rightarrow>
          (err, fold (mark_gone env) (drop (length (w_gone (as_world st))) (w_gone w1)) (st\<lparr>as_world := w1\<rparr>)))"

section \<open>Helpers\<close>

definition ip_text :: "ip4 option \<Rightarrow> string" where
  "ip_text ip = (case ip of None \<Rightarrow> [] | Some a \<Rightarrow> ip4_string a)"

definition omit_empty :: "string \<Rightarrow> string \<Rightarrow> (string \<times> json) list" where
  "omit_empty k v = (if v = [] then [] else [(k, JStr v)])"

text \<open>\<open>SessionInfo\<close> as JSON.\<close>

definition info_json :: "string \<Rightarrow> string \<Rightarrow> string \<Rightarrow> bool \<Rightarrow> int \<Rightarrow> string \<Rightarrow> string \<Rightarrow> string \<Rightarrow> json" where
  "info_json sid owner ip alive attached created ready reaped =
     JObj ([(''session_id'', JStr sid), (''owner'', JStr owner)] @ omit_empty ''vm_ip'' ip
           @ [(''alive'', JBool alive), (''attached'', JNum (FormatInt attached)), (''created_at'', JStr created)]
           @ omit_empty ''ready_at'' ready @ omit_empty ''reaped_at'' reaped)"

definition liveInfo :: "session \<Rightarrow> json" where
  "liveInfo s =
     info_json (ss_ID s) (ss_Owner s) (ip_text (ss_IP s)) True (ss_attached s) (format_RFC3339 (ss_createdAt s))
       (case ReadyAt s of None \<Rightarrow> [] | Some t \<Rightarrow> format_RFC3339 t) []"

definition nullStrVal :: "string option \<Rightarrow> string" where
  "nullStrVal v = (case v of Some s \<Rightarrow> s | None \<Rightarrow> [])"

definition nullTime :: "go_time option \<Rightarrow> string" where
  "nullTime v = (case v of Some t \<Rightarrow> format_RFC3339 t | None \<Rightarrow> [])"

definition rowInfo :: "db_session \<Rightarrow> json" where
  "rowInfo row =
     info_json (ds_ID row) (ds_Owner row) (nullStrVal (ds_VMIP row)) False 0 (format_RFC3339 (ds_CreatedAt row))
       (nullTime (ds_ReadyAt row)) (nullTime (ds_ReapedAt row))"

definition wsOrigin :: "string \<Rightarrow> string" where
  "wsOrigin publicOrigin =
     Replace1 ''https://'' ''wss://'' (Replace1 ''http://'' ''ws://'' (TrimRight CHR ''/'' publicOrigin))"

definition mustUUID :: "(string \<Rightarrow> uuid option) \<Rightarrow> string \<Rightarrow> uuid" where
  "mustUUID parse s =
     (case parse s of None \<Rightarrow> ''00000000-0000-0000-0000-000000000000'' | Some sid \<Rightarrow> sid)"

definition rowForOwner :: "api_env \<Rightarrow> string \<Rightarrow> string \<Rightarrow> sessions_table \<Rightarrow> db_error + db_session" where
  "rowForOwner env sid owner t =
     (case ae_uuid_Parse env sid of
        None \<Rightarrow> Inl DB_NotFound
      | Some parsed \<Rightarrow>
          (case GetSession (ae_host_inet env) (ae_get env) parsed t of
             Inl e \<Rightarrow> Inl e
           | Inr row \<Rightarrow> if ds_Owner row \<noteq> owner then Inl DB_NotFound else Inr row))"

definition writeSessionErr :: "web_request \<Rightarrow> db_error \<Rightarrow> web_writer \<Rightarrow> web_writer" where
  "writeSessionErr r err =
     (if err = DB_NotFound then apiError r 404 ErrVMNotFound ''session not found''
      else apiError r 500 ErrInternal ''internal'')"

definition ok_json :: json where
  "ok_json = JObj [(''ok'', JBool True)]"

section \<open>Handlers\<close>

definition dec_create :: "bool decoder" where
  "dec_create = dec_struct (\<lambda>f v b. if f = fold_name ''warm'' then dec_bool v b else (b, False))"

text \<open>\<open>Create\<close> from the booted session on: owner, identifier, row, answer.\<close>

definition create_row :: "uuid \<Rightarrow> string \<Rightarrow> session \<Rightarrow> db_session" where
  "create_row sid owner s =
     \<lparr>ds_ID = sid, ds_Owner = owner, ds_VMIP = (if ip_text (ss_IP s) = [] then None else Some (ip_text (ss_IP s))),
      ds_Warm = ss_Warm s, ds_CreatedAt = 0, ds_ReadyAt = None, ds_ReapedAt = None, ds_LastAttachedAt = None\<rparr>"

definition create_booted :: "api_env \<Rightarrow> string \<Rightarrow> sref \<Rightarrow> api_state handler" where
  "create_booted env owner ref r ws =
     (case ws of
        (w, st) \<Rightarrow>
          (let w1 = upd_session ref (\<lambda>s. s\<lparr>ss_Owner := owner\<rparr>) (as_world st);
               (sid, w2) = (case ae_uuid_Parse env (ss_ID (w_store w1 ref)) of
                              Some sid \<Rightarrow> (sid, w1)
                            | None \<Rightarrow> (ae_uuid2 env, upd_session ref (\<lambda>s. s\<lparr>ss_ID := ae_uuid2 env\<rparr>) w1));
               s = w_store w2 ref
           in case InsertSession (ae_ip6 env) (ae_insert env) (ae_dbnow env) (create_row sid owner s) (as_table st) of
                (Some e, t) \<Rightarrow>
                  (apiError r 500 ErrInternal ''internal'' w,
                   snd (api_Destroy env (ss_ID s) (st\<lparr>as_world := w2, as_table := t\<rparr>)))
              | (None, t) \<Rightarrow>
                  (writeJSON 200
                     (JObj ([(''session_id'', JStr (ss_ID s))] @ omit_empty ''vm_ip'' (ip_text (ss_IP s))
                        @ [(''pty_ws_url'', JStr (wsOrigin (ae_origin env) @ ''/sessions/'' @ ss_ID s @ ''/pty'')),
                           (''warm'', JBool (ss_Warm s))])) w,
                   st\<lparr>as_world := w2, as_table := t\<rparr>)))"

definition Create :: "api_env \<Rightarrow> api_state handler" where
  "Create env r ws =
     (case ws of
        (w, st) \<Rightarrow>
          (case (if wr_length r > 0 then decodeJSON dec_create False r else Some False) of
             None \<Rightarrow> (apiError r 400 ErrBadRequest ''invalid json'' w, st)
           | Some warm \<Rightarrow>
               (case (if warm then host_CreateWarm (ae_launch env) (ae_uuid env) (as_world st)
                      else host_Create (ae_launch env) (ae_uuid env) (as_world st)) of
                  (Inl e, w1) \<Rightarrow>
                    (if e = ErrAtCapacity then apiErrorRetry r 503 ErrCapacityFull ''all VM slots are busy'' 30 w
                     else apiError r 500 ErrVMLaunchFailed ''vm launch failed'' w, st\<lparr>as_world := w1\<rparr>)
                | (Inr ref, w1) \<Rightarrow>
                    create_booted env (fst (OwnerFromContext r)) ref r (w, st\<lparr>as_world := w1\<rparr>))))"

text \<open>The newest of the listed sessions of an owner.\<close>

definition newer :: "string \<Rightarrow> world \<Rightarrow> sref \<Rightarrow> sref option \<Rightarrow> sref option" where
  "newer owner w r newest =
     (if ss_Owner (w_store w r) \<noteq> owner then newest
      else case newest of
             None \<Rightarrow> Some r
           | Some n \<Rightarrow> if ss_createdAt (w_store w r) > ss_createdAt (w_store w n) then Some r else newest)"

definition Current :: "api_env \<Rightarrow> api_state handler" where
  "Current env r ws =
     (case ws of
        (w, st) \<Rightarrow>
          (case fold (newer (fst (OwnerFromContext r)) (as_world st)) (ae_order env (as_world st)) None of
             None \<Rightarrow> (apiError r 404 ErrVMNotFound ''no live session'' w, st)
           | Some n \<Rightarrow> (writeJSON 200 (liveInfo (w_store (as_world st) n)) w, st)))"

text \<open>The live session with an identifier, if the caller owns it.\<close>

definition owned_live :: "string \<Rightarrow> string \<Rightarrow> world \<Rightarrow> sref option" where
  "owned_live owner sid w =
     (case host_Get sid w of
        None \<Rightarrow> None
      | Some ref \<Rightarrow> if ss_Owner (w_store w ref) = owner then Some ref else None)"

definition Describe :: "api_env \<Rightarrow> api_state handler" where
  "Describe env r ws =
     (case ws of
        (w, st) \<Rightarrow>
          (let owner = fst (OwnerFromContext r)
           in case owned_live owner (wr_param r) (as_world st) of
                Some ref \<Rightarrow> (writeJSON 200 (liveInfo (w_store (as_world st) ref)) w, st)
              | None \<Rightarrow>
                  (case rowForOwner env (wr_param r) owner (as_table st) of
                     Inl e \<Rightarrow> (writeSessionErr r e w, st)
                   | Inr row \<Rightarrow> (writeJSON 200 (rowInfo row) w, st))))"

definition Delete :: "api_env \<Rightarrow> api_state handler" where
  "Delete env r ws =
     (case ws of
        (w, st) \<Rightarrow>
          (let owner = fst (OwnerFromContext r)
           in case owned_live owner (wr_param r) (as_world st) of
                None \<Rightarrow>
                  (case rowForOwner env (wr_param r) owner (as_table st) of
                     Inl e \<Rightarrow> (writeSessionErr r e w, st)
                   | Inr row \<Rightarrow> (writeJSON 200 ok_json w, st))
              | Some ref \<Rightarrow> (writeJSON 200 ok_json w, snd (api_Destroy env (wr_param r) st))))"

section \<open>The terminal\<close>

record control_message =
  cm_Type :: string
  cm_Cols :: "16 word"
  cm_Rows :: "16 word"

text \<open>A number for a \<open>uint16\<close> field: digits only, and in range.\<close>

definition dec_uint16 :: "16 word decoder" where
  "dec_uint16 v old =
     (case v of
        JNum lit \<Rightarrow>
          (case read_nat lit of
             Some n \<Rightarrow> if n < 2 ^ 16 then (word_of_nat n, True) else (old, False)
           | None \<Rightarrow> (old, False))
      | JNull \<Rightarrow> (old, True)
      | _ \<Rightarrow> (old, False))"

definition dec_control :: "control_message decoder" where
  "dec_control = dec_struct (\<lambda>f v m.
     if f = fold_name ''type'' then (case dec_string v (cm_Type m) of (x, ok) \<Rightarrow> (m\<lparr>cm_Type := x\<rparr>, ok))
     else if f = fold_name ''cols'' then (case dec_uint16 v (cm_Cols m) of (x, ok) \<Rightarrow> (m\<lparr>cm_Cols := x\<rparr>, ok))
     else if f = fold_name ''rows'' then (case dec_uint16 v (cm_Rows m) of (x, ok) \<Rightarrow> (m\<lparr>cm_Rows := x\<rparr>, ok))
     else (m, True))"

definition zero_control :: control_message where
  "zero_control = \<lparr>cm_Type = [], cm_Cols = 0, cm_Rows = 0\<rparr>"

datatype ws_message = Ws_binary string | Ws_text string

text \<open>
  The loop from the client to the console: each message with the success of writing it to the
  console, up to the error that ends reading. The session, what the console was given, and what
  was written to the guest agent.
\<close>

fun pty_loop ::
  "(nat \<Rightarrow> bool) \<Rightarrow> (ws_message \<times> bool) list \<Rightarrow> session \<Rightarrow> session \<times> string list \<times> (nat \<times> string) list" where
  "pty_loop wr [] s = (s, [], [])"
| "pty_loop wr ((Ws_binary data, ok) # ms) s =
     (if \<not> ok then (s, [], [])
      else case pty_loop wr ms s of (s1, stdin, out) \<Rightarrow> (s1, data # stdin, out))"
| "pty_loop wr ((Ws_text data, ok) # ms) s =
     (case unmarshal_into dec_control zero_control data of
        None \<Rightarrow> pty_loop wr ms s
      | Some m \<Rightarrow>
          if cm_Type m = ''resize'' then
            (case Resize wr (cm_Cols m) (cm_Rows m) s of
               (s1, _, out1) \<Rightarrow>
                 (case pty_loop wr ms s1 of (s2, stdin, out2) \<Rightarrow> (s2, stdin, out1 @ out2)))
          else pty_loop wr ms s)"

text \<open>The goroutine from the console to the client, on the events its \<open>select\<close> takes.\<close>

datatype pump_event = P_cancelled | P_vm_exit | P_data "string option" bool | P_ping bool

fun pump :: "pump_event list \<Rightarrow> string list \<times> bool" where
  "pump [] = ([], False)"
| "pump (P_cancelled # es) = ([], False)"
| "pump (P_vm_exit # es) = ([], True)"
| "pump (P_data None ok # es) = ([], False)"
| "pump (P_data (Some d) ok # es) = (if ok then (case pump es of (ds, cl) \<Rightarrow> (d # ds, cl)) else ([], False))"
| "pump (P_ping ok # es) = (if ok then pump es else ([], False))"

record pty_env =
  pt_accept :: bool
  pt_refused :: "web_writer \<Rightarrow> web_writer"
  pt_replay_ok :: bool
  pt_messages :: "(ws_message \<times> bool) list"
  pt_wr :: "nat \<Rightarrow> bool"
  pt_end :: go_time

text \<open>What the handler itself sent to the client, to the console and to the guest agent.\<close>

record pty_out =
  po_client :: "string list"
  po_stdin :: "string list"
  po_guest :: "(nat \<times> string) list"

text \<open>
  The session while a client is attached: both attachments, the loop, both deferred functions.
  What the console writes meanwhile, and other clients, are the subject of \<open>Serial\<close>.
\<close>

definition pty_session :: "pty_env \<Rightarrow> serial_tee \<Rightarrow> session \<Rightarrow> session \<times> pty_out" where
  "pty_session pt tee s =
     (let (s1, i) = sess_Attach s;
          (tee1, replay, ch) = tee_Attach tee;
          s2 = s1\<lparr>ss_Serial := Some tee1\<rparr>;
          (s3, stdin, out) = (if replay \<noteq> [] \<and> \<not> pt_replay_ok pt then (s2, [], []) else pty_loop (pt_wr pt) (pt_messages pt) s2);
          tee2 = fst (cleanup_close ch (cleanup_detach ch tee1))
      in (sess_detach i (pt_end pt) (s3\<lparr>ss_Serial := Some tee2\<rparr>),
          \<lparr>po_client = (if replay \<noteq> [] \<and> pt_replay_ok pt then [replay] else []), po_stdin = stdin, po_guest = out\<rparr>))"

definition PTY :: "api_env \<Rightarrow> pty_env \<Rightarrow> web_request \<Rightarrow> web_writer \<times> api_state \<Rightarrow> (web_writer \<times> api_state) \<times> pty_out option" where
  "PTY env pt r ws =
     (case ws of
        (w, st) \<Rightarrow>
          (case owned_live (fst (OwnerFromContext r)) (wr_param r) (as_world st) of
             None \<Rightarrow> ((apiError r 404 ErrVMNotFound ''session not found'' w, st), None)
           | Some ref \<Rightarrow>
               (let s = w_store (as_world st) ref
                in case ss_Serial s of
                     None \<Rightarrow> ((apiError r 410 ErrSessionReaped ''session has no console'' w, st), None)
                   | Some tee \<Rightarrow>
                       if \<not> ss_Process s then ((apiError r 410 ErrSessionReaped ''session has no console'' w, st), None)
                       else if \<not> pt_accept pt then ((pt_refused pt w, st), None)
                       else
                         (case pty_session pt tee s of
                            (s', out) \<Rightarrow>
                              ((w, st\<lparr>as_world := upd_session ref (\<lambda>_. s') (as_world st),
                                     as_table := snd (TouchSessionAttached (ae_touch env) (ae_dbnow env)
                                       (mustUUID (ae_uuid_Parse env) (wr_param r)) (as_table st))\<rparr>), Some out)))))"

section \<open>Effects of a destruction\<close>

lemma mark_gone_simps [simp]:
  "as_world (mark_gone env r st) = as_world st" "as_gate (mark_gone env r st) = as_gate st"
  by (simp_all add: mark_gone_def split: option.splits)

lemma api_Destroy_live:
  assumes "w_live (as_world st) sid = Some ref" "ho_onGone (w_host (as_world st))"
    and "api_Destroy env sid st = (e, st')"
  shows "e = None" "w_live (as_world st') = (w_live (as_world st))(sid := None)"
    "w_store (as_world st') = (w_store (as_world st))(ref := CloseDone (w_store (as_world st) ref))"
    "w_gone (as_world st') = w_gone (as_world st) @ [ref]" "as_gate st' = as_gate st"
    "ho_onGone (w_host (as_world st'))"
    "as_table st' =
      (case ae_uuid_Parse env (ss_ID (w_store (as_world st) ref)) of
         None \<Rightarrow> as_table st
       | Some u \<Rightarrow> snd (MarkSessionReaped (ae_mark env) (ae_dbnow env) u (as_table st)))"
proof -
  obtain w1 where d: "host_Destroy (ae_os env) sid (as_world st) = (e, w1)"
    and st': "st' = fold (mark_gone env) (drop (length (w_gone (as_world st))) (w_gone w1)) (st\<lparr>as_world := w1\<rparr>)"
    using assms(3) by (auto simp: api_Destroy_def split: prod.splits)
  note w1 = host_Destroy_live [OF assms(1) d]
  have "drop (length (w_gone (as_world st))) (w_gone w1) = [ref]"
    using w1(4) assms(2) by simp
  with st' have st': "st' = mark_gone env ref (st\<lparr>as_world := w1\<rparr>)" by simp
  have id: "ss_ID (w_store w1 ref) = ss_ID (w_store (as_world st) ref)"
    using w1(3) by (simp add: CloseDone_def)
  show "e = None" "w_live (as_world st') = (w_live (as_world st))(sid := None)"
    "w_store (as_world st') = (w_store (as_world st))(ref := CloseDone (w_store (as_world st) ref))"
    "w_gone (as_world st') = w_gone (as_world st) @ [ref]" "as_gate st' = as_gate st"
    "ho_onGone (w_host (as_world st'))"
    using w1 st' assms(2) by simp_all
  show "as_table st' =
      (case ae_uuid_Parse env (ss_ID (w_store (as_world st) ref)) of
         None \<Rightarrow> as_table st
       | Some u \<Rightarrow> snd (MarkSessionReaped (ae_mark env) (ae_dbnow env) u (as_table st)))"
    using st' id by (simp add: mark_gone_def split: option.splits)
qed

lemma CloseDone_simps [simp]:
  "ss_ID (CloseDone s) = ss_ID s" "ss_Owner (CloseDone s) = ss_Owner s"
  by (simp_all add: CloseDone_def)

lemma MarkSessionReaped_other:
  "sid \<noteq> k \<Longrightarrow> snd (MarkSessionReaped res now sid t) k = t k"
  by (cases res) (simp_all add: MarkSessionReaped_def pool_Exec_def update_where_def split: option.splits)

lemma MarkSessionReaped_same:
  "snd (MarkSessionReaped res now sid t) sid =
     (if res = DB_failed then t sid
      else map_option (\<lambda>row. if ds_ReapedAt row = None then row\<lparr>ds_ReapedAt := Some now\<rparr> else row) (t sid))"
  by (cases res) (auto simp: MarkSessionReaped_def pool_Exec_def update_where_def split: option.splits)

lemma TouchSessionAttached_other:
  "sid \<noteq> k \<Longrightarrow> snd (TouchSessionAttached res now sid t) k = t k"
  by (cases res) (simp_all add: TouchSessionAttached_def pool_Exec_def update_where_def split: option.splits)

section \<open>Owners do not see each other\<close>

text \<open>What of the state belongs to an owner.\<close>

definition own_live :: "string \<Rightarrow> world \<Rightarrow> world" where
  "own_live owner w =
     w\<lparr>w_host := (w_host w)\<lparr>ho_sessions := (\<lambda>k. owned_live owner k w)\<rparr>\<rparr>"

definition own_rows :: "string \<Rightarrow> sessions_table \<Rightarrow> sessions_table" where
  "own_rows owner t k = (case t k of None \<Rightarrow> None | Some row \<Rightarrow> if ds_Owner row = owner then Some row else None)"

definition view :: "string \<Rightarrow> api_state \<Rightarrow> api_state" where
  "view owner st = st\<lparr>as_world := own_live owner (as_world st), as_table := own_rows owner (as_table st)\<rparr>"

text \<open>Live sessions are registered under their identifier, and the row with it has the same owner.\<close>

definition matches :: "(string \<Rightarrow> uuid option) \<Rightarrow> api_state \<Rightarrow> string \<Rightarrow> sref \<Rightarrow> bool" where
  "matches parse st k ref \<longleftrightarrow>
     ref < w_next (as_world st) \<and> ss_ID (w_store (as_world st) ref) = k \<and>
     (\<exists>u. parse k = Some u \<and>
        (\<forall>row. as_table st u = Some row \<longrightarrow> ds_Owner row = ss_Owner (w_store (as_world st) ref)))"

definition api_inv :: "(string \<Rightarrow> uuid option) \<Rightarrow> api_state \<Rightarrow> bool" where
  "api_inv parse st \<longleftrightarrow>
     ho_onGone (w_host (as_world st)) \<and>
     (\<forall>k ref. w_live (as_world st) k = Some ref \<longrightarrow> matches parse st k ref)"

lemma api_invE:
  assumes "api_inv parse st" "w_live (as_world st) k = Some ref"
  obtains u where "ref < w_next (as_world st)" "ss_ID (w_store (as_world st) ref) = k" "parse k = Some u"
    "\<And>row. as_table st u = Some row \<Longrightarrow> ds_Owner row = ss_Owner (w_store (as_world st) ref)"
  using assms unfolding api_inv_def matches_def by blast

lemma api_inv_onGone: "api_inv parse st \<Longrightarrow> ho_onGone (w_host (as_world st))"
  by (simp add: api_inv_def)

lemma owned_live_own [simp]: "owned_live owner k (own_live owner w) = owned_live owner k w"
  by (simp add: owned_live_def own_live_def host_Get_def split: option.splits)

lemma own_live_simps [simp]: "w_store (own_live owner w) = w_store w"
  by (simp add: own_live_def)

lemma rowForOwner_own: "rowForOwner env k owner (own_rows owner t) = rowForOwner env k owner t"
  by (auto simp: rowForOwner_def own_rows_def GetSession_def split: option.splits)

lemma newer_filter:
  "fold (newer owner w) rs n = fold (newer owner w) (filter (\<lambda>r. ss_Owner (w_store w r) = owner) rs) n"
  by (induction rs arbitrary: n) (simp_all add: newer_def)

lemma newer_store: "w_store w' = w_store w \<Longrightarrow> newer owner w' = newer owner w"
  by (intro ext) (simp add: newer_def split: option.splits)


lemma owned_live_Some:
  "owned_live owner k w = Some ref \<longleftrightarrow> w_live w k = Some ref \<and> ss_Owner (w_store w ref) = owner"
  by (auto simp: owned_live_def host_Get_def split: option.splits if_splits)

text \<open>Nothing of other owners changes: their live sessions, the sessions themselves, their rows.\<close>

definition others_kept :: "string \<Rightarrow> api_state \<Rightarrow> api_state \<Rightarrow> bool" where
  "others_kept owner st st' \<longleftrightarrow>
     (\<forall>k ref. w_live (as_world st) k = Some ref \<longrightarrow> ss_Owner (w_store (as_world st) ref) \<noteq> owner \<longrightarrow>
        w_live (as_world st') k = Some ref \<and> w_store (as_world st') ref = w_store (as_world st) ref) \<and>
     (\<forall>u row. as_table st u = Some row \<longrightarrow> ds_Owner row \<noteq> owner \<longrightarrow> as_table st' u = Some row)"

lemma others_kept_refl [simp]: "others_kept owner st st"
  by (simp add: others_kept_def)

lemma others_kept_trans:
  "others_kept owner a b \<Longrightarrow> others_kept owner b c \<Longrightarrow> others_kept owner a c"
  unfolding others_kept_def by metis

lemma others_kept_Destroy:
  assumes "api_inv (ae_uuid_Parse env) st" "w_live (as_world st) sid = Some ref"
    and "ss_Owner (w_store (as_world st) ref) = owner" "api_Destroy env sid st = (e, st')"
  shows "others_kept owner st st'"
proof -
  note st' = api_Destroy_live [OF assms(2) api_inv_onGone [OF assms(1)] assms(4)]
  obtain u where u: "ss_ID (w_store (as_world st) ref) = sid" "ae_uuid_Parse env sid = Some u"
    "\<And>row. as_table st u = Some row \<Longrightarrow> ds_Owner row = owner"
    using api_invE [OF assms(1,2)] assms(3) by metis
  show ?thesis
    unfolding others_kept_def
  proof (intro conjI allI impI)
    fix k ref'
    assume k: "w_live (as_world st) k = Some ref'" "ss_Owner (w_store (as_world st) ref') \<noteq> owner"
    then have "k \<noteq> sid" "ref' \<noteq> ref" using assms(2,3) by auto
    with k(1) show "w_live (as_world st') k = Some ref'" "w_store (as_world st') ref' = w_store (as_world st) ref'"
      by (simp_all add: st'(2,3))
  next
    fix x row
    assume x: "as_table st x = Some row" "ds_Owner row \<noteq> owner"
    then have "x \<noteq> u" using u(3) by auto
    with x(1) show "as_table st' x = Some row"
      by (simp add: st'(7) u MarkSessionReaped_other)
  qed
qed

lemma others_kept_Delete:
  assumes "api_inv (ae_uuid_Parse env) st"
  shows "others_kept (fst (OwnerFromContext r)) st (snd (Delete env r (w, st)))"
proof (cases "owned_live (fst (OwnerFromContext r)) (wr_param r) (as_world st)")
  case None
  then show ?thesis by (simp add: Delete_def Let_def split: sum.splits)
next
  case (Some ref)
  obtain e st' where d: "api_Destroy env (wr_param r) st = (e, st')" by fastforce
  have "others_kept (fst (OwnerFromContext r)) st st'"
    using others_kept_Destroy [OF assms _ _ d] Some by (simp add: owned_live_Some)
  with Some d show ?thesis by (simp add: Delete_def Let_def)
qed

lemma others_kept_PTY:
  assumes "api_inv (ae_uuid_Parse env) st"
  shows "others_kept (fst (OwnerFromContext r)) st (snd (fst (PTY env pt r (w, st))))"
proof (cases "owned_live (fst (OwnerFromContext r)) (wr_param r) (as_world st)")
  case None
  then show ?thesis by (simp add: PTY_def)
next
  case (Some ref)
  let ?k = "wr_param r" and ?o = "fst (OwnerFromContext r)"
  have ref: "w_live (as_world st) ?k = Some ref" "ss_Owner (w_store (as_world st) ref) = ?o"
    using Some by (simp_all add: owned_live_Some)
  obtain u where u: "ae_uuid_Parse env ?k = Some u" "\<And>row. as_table st u = Some row \<Longrightarrow> ds_Owner row = ?o"
    using api_invE [OF assms(1) ref(1)] ref(2) by metis
  have kept: "others_kept ?o st (st\<lparr>as_world := upd_session ref f (as_world st),
      as_table := snd (TouchSessionAttached res now (mustUUID (ae_uuid_Parse env) ?k) (as_table st))\<rparr>)" for f res now
    unfolding others_kept_def
  proof (intro conjI allI impI)
    fix k ref'
    assume k: "w_live (as_world st) k = Some ref'" "ss_Owner (w_store (as_world st) ref') \<noteq> ?o"
    then have "ref' \<noteq> ref" using ref(2) by auto
    let ?st = "st\<lparr>as_world := upd_session ref f (as_world st),
      as_table := snd (TouchSessionAttached res now (mustUUID (ae_uuid_Parse env) ?k) (as_table st))\<rparr>"
    show "w_live (as_world ?st) k = Some ref'" "w_store (as_world ?st) ref' = w_store (as_world st) ref'"
      using k(1) \<open>ref' \<noteq> ref\<close> by simp_all
  next
    fix x row
    assume x: "as_table st x = Some row" "ds_Owner row \<noteq> ?o"
    then have "x \<noteq> u" using u(2) by auto
    with x(1) show "as_table (st\<lparr>as_world := upd_session ref f (as_world st),
      as_table := snd (TouchSessionAttached res now (mustUUID (ae_uuid_Parse env) ?k) (as_table st))\<rparr>) x = Some row"
      by (simp add: mustUUID_def u(1) TouchSessionAttached_other)
  qed
  from Some show ?thesis
    by (auto simp: PTY_def Let_def kept split: option.splits prod.splits)
qed

section \<open>The invariant of the handlers\<close>

definition row_owner :: "sessions_table \<Rightarrow> uuid \<Rightarrow> string option" where
  "row_owner t u = map_option ds_Owner (t u)"

lemma row_owner_stmts [simp]:
  "row_owner (snd (MarkSessionReaped res now sid t)) = row_owner t"
  "row_owner (snd (TouchSessionAttached res now sid t)) = row_owner t"
  by (intro ext; cases res; auto simp: row_owner_def MarkSessionReaped_def TouchSessionAttached_def pool_Exec_def
      update_where_def split: option.splits)+

lemma matches_alt:
  "matches parse st k ref \<longleftrightarrow>
     ref < w_next (as_world st) \<and> ss_ID (w_store (as_world st) ref) = k \<and>
     (\<exists>u. parse k = Some u \<and>
        (row_owner (as_table st) u = None \<or> row_owner (as_table st) u = Some (ss_Owner (w_store (as_world st) ref))))"
proof -
  have "(\<forall>row. t u = Some row \<longrightarrow> ds_Owner row = x) \<longleftrightarrow> row_owner t u = None \<or> row_owner t u = Some x" for t u x
    by (cases "t u") (simp_all add: row_owner_def)
  then show ?thesis by (simp add: matches_def)
qed

lemma matches_kept:
  assumes "matches parse st k ref" "w_next (as_world st) \<le> w_next (as_world st')"
    and "ss_ID (w_store (as_world st') ref) = ss_ID (w_store (as_world st) ref)"
    and "ss_Owner (w_store (as_world st') ref) = ss_Owner (w_store (as_world st) ref)"
    and "row_owner (as_table st') = row_owner (as_table st)"
  shows "matches parse st' k ref"
  using assms unfolding matches_alt by auto

lemma host_Destroy_next: "w_next (snd (host_Destroy os sid w)) = w_next w"
proof (cases "w_live w sid")
  case (Some r)
  obtain e w' where t: "host_teardown os r (w\<lparr>w_host := (w_host w)\<lparr>ho_sessions := (w_live w)(sid := None)\<rparr>\<rparr>) = (e, w')"
    by fastforce
  with Some host_teardown_effect(5) [OF t] show ?thesis by (simp add: host_Destroy_def host_remove_def)
qed (simp add: host_Destroy_absent)

lemma fold_mark_gone_world [simp]: "as_world (fold (mark_gone env) rs st) = as_world st"
  by (induction rs arbitrary: st) simp_all

lemma api_Destroy_next: "w_next (as_world (snd (api_Destroy env sid st))) = w_next (as_world st)"
  using host_Destroy_next [of "ae_os env" sid "as_world st"] by (auto simp: api_Destroy_def split: prod.splits)

lemma api_inv_Destroy:
  assumes "api_inv parse st" "w_live (as_world st) k = Some ref" "api_Destroy env k st = (e, st')"
  shows "api_inv parse st'"
proof -
  note d = api_Destroy_live [OF assms(2) api_inv_onGone [OF assms(1)] assms(3)]
  have nx: "w_next (as_world st') = w_next (as_world st)"
    using api_Destroy_next [of env k st] assms(3) by simp
  have ro: "row_owner (as_table st') = row_owner (as_table st)"
    unfolding d(7) by (simp split: option.splits)
  have "matches parse st' k' ref'" if "w_live (as_world st') k' = Some ref'" for k' ref'
  proof -
    from that have "w_live (as_world st) k' = Some ref'" by (simp add: d(2) split: if_splits)
    then have "matches parse st k' ref'" using assms(1) by (simp add: api_inv_def)
    then show ?thesis by (rule matches_kept) (simp_all add: nx ro d(3))
  qed
  with d(6) show ?thesis by (simp add: api_inv_def)
qed

lemma api_inv_Delete:
  assumes "api_inv parse st"
  shows "api_inv parse (snd (Delete env r (w, st)))"
proof (cases "owned_live (fst (OwnerFromContext r)) (wr_param r) (as_world st)")
  case None
  with assms show ?thesis by (simp add: Delete_def Let_def split: sum.splits)
next
  case (Some ref)
  obtain e st' where d: "api_Destroy env (wr_param r) st = (e, st')" by fastforce
  have "api_inv parse st'"
    using api_inv_Destroy [OF assms _ d] Some by (simp add: owned_live_Some)
  with Some d show ?thesis by (simp add: Delete_def Let_def)
qed

lemma Resize_keeps:
  assumes "Resize wr c l s = (s1, e, out)"
  shows "ss_ID s1 = ss_ID s" "ss_Owner s1 = ss_Owner s"
  using fst_Resize [of wr c l s] assms by simp_all

lemma pty_loop_keeps:
  "pty_loop wr ms s = (s', stdin, out) \<Longrightarrow> ss_ID s' = ss_ID s \<and> ss_Owner s' = ss_Owner s"
proof (induction wr ms s arbitrary: s' stdin out rule: pty_loop.induct)
  case (1 wr s)
  then show ?case by simp
next
  case (2 wr data ok ms s)
  obtain s1 stdin1 out1 where l: "pty_loop wr ms s = (s1, stdin1, out1)" by (metis prod_cases3)
  show ?case
  proof (cases ok)
    case True
    then have "s' = s1" using 2(2) l by simp
    moreover have "ss_ID s1 = ss_ID s \<and> ss_Owner s1 = ss_Owner s" using 2(1) True l by blast
    ultimately show ?thesis by simp
  next
    case False
    with 2(2) show ?thesis by simp
  qed
next
  case (3 wr data ok ms s)
  show ?case
  proof (cases "unmarshal_into dec_control zero_control data")
    case None
    with 3(4) have "pty_loop wr ms s = (s', stdin, out)" by simp
    with 3(1) None show ?thesis by blast
  next
    case (Some m)
    obtain s1 e out1 where r: "Resize wr (cm_Cols m) (cm_Rows m) s = (s1, e, out1)" by (metis prod_cases3)
    obtain s2 stdin2 out2 where l: "pty_loop wr ms s1 = (s2, stdin2, out2)" by (metis prod_cases3)
    show ?thesis
    proof (cases "cm_Type m = ''resize''")
      case True
      then have "s' = s2" using 3(4) Some r l by simp
      moreover have "ss_ID s2 = ss_ID s1 \<and> ss_Owner s2 = ss_Owner s1"
        using 3(2) [OF Some True r [symmetric] refl l] .
      ultimately show ?thesis using Resize_keeps [OF r] by simp
    next
      case False
      with 3(4) Some have "pty_loop wr ms s = (s', stdin, out)" by simp
      with 3(3) [OF Some False] show ?thesis by blast
    qed
  qed
qed

lemma pty_session_keeps:
  assumes "pty_session pt tee s = (s', out)"
  shows "ss_ID s' = ss_ID s \<and> ss_Owner s' = ss_Owner s"
proof -
  have "ss_ID (sess_detach i t x) = ss_ID x \<and> ss_Owner (sess_detach i t x) = ss_Owner x" for i t x
    by (simp add: sess_detach_def Let_def)
  with assms show ?thesis
    by (auto simp: pty_session_def Let_def sess_Attach_def dest: pty_loop_keeps split: if_splits prod.splits)
qed

lemma api_inv_PTY:
  assumes "api_inv parse st"
  shows "api_inv parse (snd (fst (PTY env pt r (w, st))))"
proof -
  have upd: "api_inv parse (st\<lparr>as_world := upd_session ref (\<lambda>_. s') (as_world st), as_table := snd (TouchSessionAttached res now u (as_table st))\<rparr>)"
    if s': "ss_ID s' = ss_ID (w_store (as_world st) ref)" "ss_Owner s' = ss_Owner (w_store (as_world st) ref)" for ref s' res now u
  proof -
    let ?st = "st\<lparr>as_world := upd_session ref (\<lambda>_. s') (as_world st), as_table := snd (TouchSessionAttached res now u (as_table st))\<rparr>"
    have "matches parse ?st k ref'" if "w_live (as_world st) k = Some ref'" for k ref'
    proof -
      have "matches parse st k ref'" using that assms unfolding api_inv_def by blast
      then show ?thesis by (rule matches_kept) (simp_all add: s')
    qed
    moreover have "w_live (as_world ?st) = w_live (as_world st)" "ho_onGone (w_host (as_world ?st))"
      using api_inv_onGone [OF assms] by simp_all
    ultimately show ?thesis unfolding api_inv_def by metis
  qed
  show ?thesis
  proof (cases "owned_live (fst (OwnerFromContext r)) (wr_param r) (as_world st)")
    case None
    with assms show ?thesis by (simp add: PTY_def)
  next
    case (Some ref)
    show ?thesis
    proof (cases "ss_Serial (w_store (as_world st) ref)")
      case None
      with Some assms show ?thesis by (simp add: PTY_def Let_def)
    next
      case (Some tee)
      obtain s' out where p: "pty_session pt tee (w_store (as_world st) ref) = (s', out)" by fastforce
      have "api_inv parse (st\<lparr>as_world := upd_session ref (\<lambda>_. s') (as_world st),
          as_table := snd (TouchSessionAttached res now u (as_table st))\<rparr>)" for res now u
        using upd pty_session_keeps [OF p] by blast
      with Some \<open>owned_live _ _ _ = Some ref\<close> assms p show ?thesis
        by (simp add: PTY_def Let_def)
    qed
  qed
qed

end
