(* ===== verification/Api_Isolation.thy ===== *)
theory Api_Isolation
  imports Api_Sessions
begin

text \<open>
  What the session handlers guarantee together: creating a session leaves no orphan, sessions of
  different owners do not interfere, and a session can be followed from its creation to its end.
\<close>

section \<open>Creation\<close>

abbreviation boot :: "api_env \<Rightarrow> bool \<Rightarrow> world \<Rightarrow> (session_error + sref) \<times> world" where
  "boot env warm w \<equiv>
     (if warm then host_CreateWarm (ae_launch env) (ae_uuid env) w else host_Create (ae_launch env) (ae_uuid env) w)"

text \<open>The identifier of a new session is a UUID that no row and no live session has.\<close>

definition fresh_id :: "(string \<Rightarrow> uuid option) \<Rightarrow> api_state \<Rightarrow> string \<Rightarrow> uuid \<Rightarrow> bool" where
  "fresh_id parse st k u \<longleftrightarrow>
     parse k = Some u \<and> as_table st u = None \<and>
     (\<forall>k' ref. w_live (as_world st) k' = Some ref \<longrightarrow> parse k' \<noteq> Some u)"

definition fresh_boot :: "api_env \<Rightarrow> api_state \<Rightarrow> bool" where
  "fresh_boot env st \<longleftrightarrow>
     (\<forall>warm ref w1. boot env warm (as_world st) = (Inr ref, w1) \<longrightarrow>
        (\<exists>u. fresh_id (ae_uuid_Parse env) st (ss_ID (w_store w1 ref)) u))"

definition set_owner :: "string \<Rightarrow> session \<Rightarrow> session" where
  "set_owner owner s = s\<lparr>ss_Owner := owner\<rparr>"

definition created_row :: "api_env \<Rightarrow> uuid \<Rightarrow> string \<Rightarrow> session \<Rightarrow> db_session" where
  "created_row env u owner s = new_row (ae_ip6 env) (ae_dbnow env) (create_row u owner s)"

definition created_json :: "api_env \<Rightarrow> session \<Rightarrow> json" where
  "created_json env s =
     JObj ([(''session_id'', JStr (ss_ID s))] @ omit_empty ''vm_ip'' (ip_text (ss_IP s))
        @ [(''pty_ws_url'', JStr (wsOrigin (ae_origin env) @ ''/sessions/'' @ ss_ID s @ ''/pty'')),
           (''warm'', JBool (ss_Warm s))])"

lemma create_row_ID [simp]: "ds_ID (create_row u owner s) = u"
  by (simp add: create_row_def)

lemma set_owner_fold: "ss_Owner_update (\<lambda>_. owner) = set_owner owner"
  by (intro ext) (simp add: set_owner_def)

lemma set_owner_ID [simp]: "ss_ID (set_owner owner s) = ss_ID s"
  by (simp add: set_owner_def)

lemma create_booted_effect:
  assumes "ae_uuid_Parse env (ss_ID (w_store (as_world st) ref)) = Some u" "as_table st u = None"
  shows "create_booted env owner ref r (w, st) =
    (let s = set_owner owner (w_store (as_world st) ref);
         w2 = upd_session ref (set_owner owner) (as_world st);
         t = (as_table st)(u \<mapsto> created_row env u owner s)
     in case ae_insert env of
          DB_done \<Rightarrow> (writeJSON 200 (created_json env s) w, st\<lparr>as_world := w2, as_table := t\<rparr>)
        | DB_failed \<Rightarrow>
            (apiError r 500 ErrInternal ''internal'' w, snd (api_Destroy env (ss_ID s) (st\<lparr>as_world := w2\<rparr>)))
        | DB_lost \<Rightarrow>
            (apiError r 500 ErrInternal ''internal'' w,
             snd (api_Destroy env (ss_ID s) (st\<lparr>as_world := w2, as_table := t\<rparr>))))"
  using assms
  by (cases "ae_insert env")
    (simp_all add: create_booted_def set_owner_fold created_row_def created_json_def InsertSession_def pool_Exec_def
      Let_def)

text \<open>The state between the registration of the session and the result of the insert.\<close>

definition entered :: "api_env \<Rightarrow> string \<Rightarrow> sref \<Rightarrow> uuid \<Rightarrow> bool \<Rightarrow> api_state \<Rightarrow> world \<Rightarrow> api_state" where
  "entered env owner ref u stored st w1 =
     st\<lparr>as_world := upd_session ref (set_owner owner) w1,
        as_table := (if stored then (as_table st)(u \<mapsto> created_row env u owner (set_owner owner (w_store w1 ref)))
                     else as_table st)\<rparr>"

lemma entered_facts:
  assumes "api_inv parse st" "booted (as_world st) ref w1" "fresh_id parse st (ss_ID (w_store w1 ref)) u"
    and "st' = entered env owner ref u stored st w1"
  shows "api_inv parse st'" "w_live (as_world st') (ss_ID (w_store w1 ref)) = Some ref"
    "w_live (as_world st) (ss_ID (w_store w1 ref)) = None"
    "others_kept owner st st'" "ss_ID (w_store (as_world st') ref) = ss_ID (w_store w1 ref)"
    "ss_Owner (w_store (as_world st') ref) = owner" "w_gone (as_world st') = w_gone (as_world st)"
proof -
  let ?k = "ss_ID (w_store w1 ref)"
  have b: "ref = w_next (as_world st)" "w_next w1 = Suc (w_next (as_world st))" "w_live w1 = (w_live (as_world st))(?k \<mapsto> ref)"
    "\<And>t. t \<noteq> ref \<Longrightarrow> w_store w1 t = w_store (as_world st) t" "w_gone w1 = w_gone (as_world st)"
    "ho_onGone (w_host w1) = ho_onGone (w_host (as_world st))"
    using assms(2) by (simp_all add: booted_def)
  have u: "parse ?k = Some u" "as_table st u = None" "\<And>k' r. w_live (as_world st) k' = Some r \<Longrightarrow> parse k' \<noteq> Some u"
    using assms(3) unfolding fresh_id_def by blast+
  have w': "as_world st' = upd_session ref (set_owner owner) w1" by (simp add: assms(4) entered_def)
  have owned: "ds_Owner (created_row env u owner s) = owner" for s
    by (simp add: created_row_def new_row_def create_row_def)
  show new: "w_live (as_world st) ?k = None"
    using u(1,3) by (cases "w_live (as_world st) ?k") blast+
  show live: "w_live (as_world st') ?k = Some ref" and id: "ss_ID (w_store (as_world st') ref) = ?k"
    and own: "ss_Owner (w_store (as_world st') ref) = owner" and "w_gone (as_world st') = w_gone (as_world st)"
    by (simp_all add: w' b(3,5) set_owner_def)
  have old: "k' \<noteq> ?k \<and> r \<noteq> ref \<and> w_live (as_world st') k' = Some r \<and> w_store (as_world st') r = w_store (as_world st) r"
    if l: "w_live (as_world st) k' = Some r" for k' r
  proof -
    have "r \<noteq> ref" using assms(1) l b(1) by (elim api_invE) auto
    moreover have "k' \<noteq> ?k" using l new by auto
    ultimately show ?thesis using l b(3,4) by (simp add: w')
  qed
  have row: "as_table st' x = as_table st x" if "x \<noteq> u" for x
    using that by (simp add: assms(4) entered_def)
  show "others_kept owner st st'"
    unfolding others_kept_def using old row u(2) by (metis option.distinct(1))
  have "matches parse st' k' r" if l: "w_live (as_world st') k' = Some r" for k' r
  proof (cases "k' = ?k")
    case True
    then have "r = ref" using l live by simp
    moreover have "matches parse st' ?k ref"
      unfolding matches_def using u(1,2) own id b(1,2) by (auto simp: w' assms(4) entered_def owned split: if_splits)
    ultimately show ?thesis using True by simp
  next
    case False
    then have l0: "w_live (as_world st) k' = Some r" using l by (simp add: w' b(3))
    obtain v where v: "r < w_next (as_world st)" "ss_ID (w_store (as_world st) r) = k'" "parse k' = Some v"
      "\<And>row. as_table st v = Some row \<Longrightarrow> ds_Owner row = ss_Owner (w_store (as_world st) r)"
      by (rule api_invE [OF assms(1) l0]) blast
    have "v \<noteq> u" using u(3) [OF l0] v(3) by simp
    then show ?thesis
      unfolding matches_def using old [OF l0] v row [of v] b(2) by (auto simp: w')
  qed
  moreover have "ho_onGone (w_host (as_world st'))"
    using api_inv_onGone [OF assms(1)] b(6) by (simp add: w')
  ultimately show "api_inv parse st'" by (simp add: api_inv_def)
qed

lemma create_booted_entered:
  assumes "api_inv (ae_uuid_Parse env) st" "booted (as_world st) ref w1"
    and "fresh_id (ae_uuid_Parse env) st (ss_ID (w_store w1 ref)) u"
    and "create_booted env owner ref r (w, st\<lparr>as_world := w1\<rparr>) = (w', st')"
  shows "ae_insert env = DB_done \<and> st' = entered env owner ref u True st w1 \<and>
       w' = writeJSON 200 (created_json env (set_owner owner (w_store w1 ref))) w \<or>
     ae_insert env \<noteq> DB_done \<and> w' = apiError r 500 ErrInternal ''internal'' w \<and>
       st' = snd (api_Destroy env (ss_ID (w_store w1 ref)) (entered env owner ref u (ae_insert env = DB_lost) st w1))"
proof -
  have u: "ae_uuid_Parse env (ss_ID (w_store (as_world (st\<lparr>as_world := w1\<rparr>)) ref)) = Some u"
    "as_table (st\<lparr>as_world := w1\<rparr>) u = None"
    using assms(3) by (simp_all add: fresh_id_def)
  from assms(4) show ?thesis
    unfolding create_booted_effect [OF u] by (cases "ae_insert env") (auto simp: Let_def entered_def)
qed

lemma Create_keeps:
  assumes "api_inv (ae_uuid_Parse env) st" "vm_launcher (ae_launch env)" "fresh_boot env st"
  shows "others_kept (fst (OwnerFromContext r)) st (snd (Create env r (w, st)))"
    and "api_inv (ae_uuid_Parse env) (snd (Create env r (w, st)))"
proof -
  let ?o = "fst (OwnerFromContext r)" and ?p = "ae_uuid_Parse env"
  define req where "req = (if wr_length r > 0 then decodeJSON dec_create False r else Some False)"
  have "others_kept ?o st (snd (Create env r (w, st))) \<and> api_inv ?p (snd (Create env r (w, st)))"
  proof (cases req)
    case None
    with assms(1) show ?thesis by (simp add: Create_def flip: req_def)
  next
    case (Some warm)
    obtain res w1 where b: "boot env warm (as_world st) = (res, w1)" by fastforce
    show ?thesis
    proof (cases res)
      case (Inl e)
      have c: "snd (Create env r (w, st)) = st\<lparr>as_world := w1\<rparr>"
        using b Inl Some by (simp add: Create_def flip: req_def)
      have w1: "w_live w1 = w_live (as_world st)" "w_store w1 = w_store (as_world st)"
        "ho_onGone (w_host w1) = ho_onGone (w_host (as_world st))" "w_next w1 = w_next (as_world st)"
        using vm_launcher.boot_failed [OF assms(2), of warm "ae_uuid env" "as_world st" e w1] b Inl by simp_all
      then have "others_kept ?o st (st\<lparr>as_world := w1\<rparr>)" by (simp add: others_kept_def)
      moreover have "api_inv ?p (st\<lparr>as_world := w1\<rparr>)"
        using assms(1) by (simp add: api_inv_def matches_def w1)
      ultimately show ?thesis unfolding c by blast
    next
      case (Inr ref)
      have bt: "booted (as_world st) ref w1"
        using vm_launcher.boot_booted [OF assms(2), of warm "ae_uuid env" "as_world st" ref w1] b Inr by simp
      obtain u where u: "fresh_id ?p st (ss_ID (w_store w1 ref)) u"
        using assms(3) b Inr unfolding fresh_boot_def by blast
      obtain w' st' where c: "create_booted env ?o ref r (w, st\<lparr>as_world := w1\<rparr>) = (w', st')" by fastforce
      have st': "snd (Create env r (w, st)) = st'"
        using b Inr Some c by (simp add: Create_def flip: req_def)
      note en = entered_facts [OF assms(1) bt u refl]
      have "others_kept ?o st st' \<and> api_inv ?p st'"
      proof (cases "ae_insert env = DB_done")
        case True
        then show ?thesis using create_booted_entered [OF assms(1) bt u c] en(1,4) by simp
      next
        case False
        let ?en = "entered env ?o ref u (ae_insert env = DB_lost) st w1"
        obtain e where d: "api_Destroy env (ss_ID (w_store w1 ref)) ?en = (e, st')"
          using create_booted_entered [OF assms(1) bt u c] False by (metis prod.collapse)
        have "others_kept ?o ?en st'" by (rule others_kept_Destroy [OF en(1,2,6) d])
        then show ?thesis
          using others_kept_trans [OF en(4)] api_inv_Destroy [OF en(1,2) d] by blast
      qed
      then show ?thesis unfolding st' .
    qed
  qed
  then show "others_kept ?o st (snd (Create env r (w, st)))" "api_inv ?p (snd (Create env r (w, st)))" by blast+
qed

section \<open>Isolation\<close>

datatype api_call = Call_create | Call_current | Call_describe | Call_delete | Call_pty pty_env

fun handle :: "api_env \<Rightarrow> api_call \<Rightarrow> api_state handler" where
  "handle env Call_create r ws = Create env r ws"
| "handle env Call_current r ws = Current env r ws"
| "handle env Call_describe r ws = Describe env r ws"
| "handle env Call_delete r ws = Delete env r ws"
| "handle env (Call_pty pt) r ws = fst (PTY env pt r ws)"

text \<open>A request of anybody but the given owner.\<close>

inductive by_others :: "(string \<Rightarrow> uuid option) \<Rightarrow> string \<Rightarrow> api_state \<Rightarrow> api_state \<Rightarrow> bool" for parse owner where
  "ae_uuid_Parse env = parse \<Longrightarrow> vm_launcher (ae_launch env) \<Longrightarrow> fresh_boot env st \<Longrightarrow>
   fst (OwnerFromContext r) \<noteq> owner \<Longrightarrow> by_others parse owner st (snd (handle env c r (w, st)))"

definition kept_for :: "string \<Rightarrow> api_state \<Rightarrow> api_state \<Rightarrow> bool" where
  "kept_for owner st st' \<longleftrightarrow>
     (\<forall>k ref. w_live (as_world st) k = Some ref \<and> ss_Owner (w_store (as_world st) ref) = owner \<longrightarrow>
        w_live (as_world st') k = Some ref \<and> w_store (as_world st') ref = w_store (as_world st) ref) \<and>
     (\<forall>u row. as_table st u = Some row \<and> ds_Owner row = owner \<longrightarrow> as_table st' u = Some row)"

lemma kept_for_trans: "kept_for owner a b \<Longrightarrow> kept_for owner b c \<Longrightarrow> kept_for owner a c"
  unfolding kept_for_def by metis

lemma others_kept_for: "others_kept a st st' \<Longrightarrow> a \<noteq> owner \<Longrightarrow> kept_for owner st st'"
  unfolding others_kept_def kept_for_def by blast

lemma handle_keeps:
  assumes "api_inv (ae_uuid_Parse env) st" "vm_launcher (ae_launch env)" "fresh_boot env st"
  shows "others_kept (fst (OwnerFromContext r)) st (snd (handle env c r (w, st)))"
    and "api_inv (ae_uuid_Parse env) (snd (handle env c r (w, st)))"
proof -
  have cur: "snd (Current env r (w, st)) = st" "snd (Describe env r (w, st)) = st"
    by (auto simp: Current_def Describe_def Let_def split: option.splits sum.splits)
  show "others_kept (fst (OwnerFromContext r)) st (snd (handle env c r (w, st)))"
    using Create_keeps(1) [OF assms] others_kept_Delete [OF assms(1)] others_kept_PTY [OF assms(1)] cur
    by (cases c) simp_all
  show "api_inv (ae_uuid_Parse env) (snd (handle env c r (w, st)))"
    using Create_keeps(2) [OF assms] api_inv_Delete [OF assms(1)] api_inv_PTY [OF assms(1)] cur assms(1)
    by (cases c) simp_all
qed

lemma by_others_kept:
  "(by_others parse owner)\<^sup>*\<^sup>* st st' \<Longrightarrow> api_inv parse st \<Longrightarrow> api_inv parse st' \<and> kept_for owner st st'"
proof (induction rule: rtranclp_induct)
  case base
  then show ?case by (simp add: kept_for_def)
next
  case (step y z)
  then have y: "api_inv parse y" "kept_for owner st y" by blast+
  from step(2) show ?case
  proof cases
    case (1 env r c w)
    have "others_kept (fst (OwnerFromContext r)) y z" "api_inv parse z"
      using handle_keeps(1) [of env y r c w] handle_keeps(2) [of env y c r w] 1 y(1) by simp_all
    then show ?thesis
      using kept_for_trans [OF y(2)] others_kept_for 1(5) by blast
  qed
qed

text \<open>
  Nobody touches somebody else's sessions. Whatever requests other people send, in whatever
  number and order (creations, also ones that fail halfway, descriptions, deletions and terminals,
  for any identifier), the live sessions of an owner stay live and as they are, and so do the
  owner's rows. The only assumption is that new sessions get new UUIDs.
\<close>

theorem owner_isolation:
  assumes "api_inv parse st" "(by_others parse owner)\<^sup>*\<^sup>* st st'"
  shows "(\<forall>k ref. w_live (as_world st) k = Some ref \<and> ss_Owner (w_store (as_world st) ref) = owner \<longrightarrow>
       w_live (as_world st') k = Some ref \<and> w_store (as_world st') ref = w_store (as_world st) ref) \<and>
     (\<forall>u row. as_table st u = Some row \<and> ds_Owner row = owner \<longrightarrow> as_table st' u = Some row)"
  using by_others_kept [OF assms(2,1)] unfolding kept_for_def by blast

text \<open>A host with one session, of \<open>bob\<close>, and a request to delete it by \<open>eve\<close>.\<close>

definition ex_bob :: session where
  "ex_bob = zero_session\<lparr>ss_ID := ''x'', ss_Owner := ''bob''\<rparr>"

definition ex_row :: db_session where
  "ex_row = \<lparr>ds_ID = ''x'', ds_Owner = ''bob'', ds_VMIP = None, ds_Warm = False, ds_CreatedAt = 1,
     ds_ReadyAt = Some 1, ds_ReapedAt = None, ds_LastAttachedAt = None\<rparr>"

definition ex_api :: api_state where
  "ex_api = \<lparr>as_world = \<lparr>w_store = (\<lambda>_. ex_bob), w_next = 1,
       w_host = \<lparr>ho_maxLive = 3, ho_sessions = [''x'' \<mapsto> 0], ho_onGone = True\<rparr>, w_pool = None,
       w_mgr = w_mgr ex_world, w_watch = [], w_gone = []\<rparr>,
     as_gate = ex_gate, as_table = [''x'' \<mapsto> ex_row]\<rparr>"

definition ex_api_env :: api_env where
  "ex_api_env = \<lparr>ae_page = ex_page_env, ae_origin = ''http://h'', ae_launch = mockLauncher 5 6, ae_uuid = ''y'',
     ae_uuid2 = ''z'', ae_uuid_Parse = Some, ae_os = (\<lambda>_ _. True), ae_order = (\<lambda>_. [0]), ae_ip6 = (\<lambda>_. False),
     ae_host_inet = (\<lambda>s. s), ae_insert = DB_done, ae_get = DB_done, ae_touch = DB_done, ae_mark = DB_done,
     ae_dbnow = 9\<rparr>"

definition ex_request_by :: "string \<Rightarrow> string \<Rightarrow> web_request" where
  "ex_request_by owner sid = ex_login\<lparr>wr_owner := Some owner, wr_param := sid\<rparr>"

lemma ex_api_simps [simp]:
  "w_live (as_world ex_api) = [''x'' \<mapsto> 0]" "w_store (as_world ex_api) = (\<lambda>_. ex_bob)"
  "ho_onGone (w_host (as_world ex_api))" "w_next (as_world ex_api) = 1" "as_table ex_api = [''x'' \<mapsto> ex_row]"
  "w_gone (as_world ex_api) = []" "w_pool (as_world ex_api) = None"
  "ss_ID ex_bob = ''x''" "ss_Owner ex_bob = ''bob''" "ds_Owner ex_row = ''bob''"
  "ho_maxLive (w_host (as_world ex_api)) = 3"
  by (simp_all add: ex_api_def ex_bob_def ex_row_def)

lemma ex_api_env_simps [simp]:
  "ae_uuid_Parse ex_api_env = Some" "ae_launch ex_api_env = mockLauncher 5 6" "ae_uuid ex_api_env = ''y''"
  "ae_insert ex_api_env = DB_done" "ae_get ex_api_env = DB_done" "ae_mark ex_api_env = DB_done"
  "ae_dbnow ex_api_env = 9" "ae_host_inet ex_api_env = (\<lambda>s. s)" "ae_ip6 ex_api_env = (\<lambda>_. False)"
  by (simp_all add: ex_api_env_def)

lemma ex_api_inv: "api_inv Some ex_api"
  by (simp add: api_inv_def matches_def)

lemma ex_boot:
  "boot ex_api_env warm (as_world ex_api) = (Inr ref, w1) \<Longrightarrow> ss_ID (w_store w1 ref) = ''y''"
  by (auto simp: host_CreateWarm_def host_Create_def mockLauncher_def new_ref_def host_register_def Let_def host_watch_def
      NewInMemorySession_def MarkReady_def zero_session_def upd_session_def split: if_splits)

lemma ex_fresh: "fresh_boot ex_api_env ex_api"
proof -
  have "fresh_id Some ex_api ''y'' ''y''" by (simp add: fresh_id_def)
  then show ?thesis unfolding fresh_boot_def ex_api_env_simps(1) using ex_boot by metis
qed

lemma ex_request_owner [simp]: "owner \<noteq> [] \<Longrightarrow> fst (OwnerFromContext (ex_request_by owner sid)) = owner"
  by (simp add: OwnerFromContext_def ex_request_by_def)

theorem owner_isolation_witness:
  "\<exists>st'. by_others Some ''bob'' ex_api st' \<and>
     st' = snd (Delete ex_api_env (ex_request_by ''eve'' ''x'') (new_writer, ex_api)) \<and>
     w_live (as_world st') ''x'' = Some 0 \<and> as_table st' ''x'' = Some ex_row"
proof -
  let ?r = "ex_request_by ''eve'' ''x''"
  let ?st = "snd (handle ex_api_env Call_delete ?r (new_writer, ex_api))"
  have s: "by_others Some ''bob'' ex_api ?st"
    by (rule by_others.intros) (simp_all add: ex_fresh mock.vm_launcher_axioms)
  then have "(by_others Some ''bob'')\<^sup>*\<^sup>* ex_api ?st" by blast
  from owner_isolation [OF ex_api_inv this]
  have "w_live (as_world ?st) ''x'' = Some 0" "as_table ?st ''x'' = Some ex_row" by auto
  with s show ?thesis by (intro exI [of _ ?st]) simp
qed

section \<open>No orphans\<close>

definition requested :: "web_request \<Rightarrow> bool option" where
  "requested r = (if wr_length r > 0 then decodeJSON dec_create False r else Some False)"

lemma Create_boot:
  assumes "requested r = Some warm" "boot env warm (as_world st) = (Inr ref, w1)"
  shows "Create env r (w, st) = create_booted env (fst (OwnerFromContext r)) ref r (w, st\<lparr>as_world := w1\<rparr>)"
  using assms by (simp add: Create_def requested_def)


lemma ex_requested: "requested (ex_request_by owner k) = Some False"
  by (simp add: requested_def ex_request_by_def ex_login_def)

lemma ex_boots:
  obtains ref w1 where "boot ex_api_env False (as_world ex_api) = (Inr ref, w1)"
proof -
  have "\<not> host_full (as_world ex_api)" by (simp add: host_full_def host_Count_def)
  then show thesis using that by (auto simp: host_Create_def mockLauncher_def new_ref_def)
qed


section \<open>The life of a session\<close>

lemma Delete_live:
  assumes "w_live (as_world st) (wr_param r) = Some ref"
    and "ss_Owner (w_store (as_world st) ref) = fst (OwnerFromContext r)"
  shows "Delete env r (w, st) = (writeJSON 200 ok_json w, snd (api_Destroy env (wr_param r) st))"
  using assms by (simp add: Delete_def Let_def owned_live_def host_Get_def)

lemma Delete_row:
  assumes "w_live (as_world st) (wr_param r) = None" "ae_uuid_Parse env (wr_param r) = Some u"
    and "as_table st u = Some row" "ds_Owner row = fst (OwnerFromContext r)" "ae_get env = DB_done"
  shows "Delete env r (w, st) = (writeJSON 200 ok_json w, st)"
  using assms by (simp add: Delete_def Let_def owned_live_def host_Get_def rowForOwner_def GetSession_def)

lemma Describe_row:
  assumes "w_live (as_world st) (wr_param r) = None" "ae_uuid_Parse env (wr_param r) = Some u"
    and "as_table st u = Some row" "ds_Owner row = fst (OwnerFromContext r)" "ae_get env = DB_done"
  shows "Describe env r (w, st) =
    (writeJSON 200 (rowInfo (row\<lparr>ds_VMIP := map_option (ae_host_inet env) (ds_VMIP row)\<rparr>)) w, st)"
  using assms by (simp add: Describe_def Let_def owned_live_def host_Get_def rowForOwner_def GetSession_def)

text \<open>
  C5: A session can be followed from its creation to its end. The answer to a successful creation
  names the session; its owner then sees it alive under that name; a deletion is answered with
  success and removes it, and from then on its owner sees its record, with the owner's name and
  the moment of its end, and deleting it again changes nothing.
\<close>

theorem session_lifecycle:
  fixes env1 env2 env3 :: api_env and r1 r2 :: web_request
  defines "parse \<equiv> ae_uuid_Parse env1" and "owner \<equiv> fst (OwnerFromContext r1)"
  assumes "api_inv parse st" "vm_launcher (ae_launch env1)" "requested r1 = Some warm"
    and "boot env1 warm (as_world st) = (Inr ref, w1)" "fresh_id parse st (ss_ID (w_store w1 ref)) u"
    and "ae_insert env1 = DB_done" "Create env1 r1 (w, st) = (answer1, st1)"
    and "ae_uuid_Parse env2 = parse" "ae_mark env2 = DB_done" "ae_uuid_Parse env3 = parse" "ae_get env3 = DB_done"
    and "wr_param r2 = ss_ID (w_store w1 ref)" "fst (OwnerFromContext r2) = owner"
    and "Delete env2 r2 (w, st1) = (answer2, st2)"
  shows "answer1 = writeJSON 200 (created_json env1 (set_owner owner (w_store w1 ref))) w \<and>
     Describe env3 r2 (w, st1) = (writeJSON 200 (liveInfo (set_owner owner (w_store w1 ref))) w, st1) \<and>
     answer2 = writeJSON 200 ok_json w \<and> w_live (as_world st2) (wr_param r2) = None \<and>
     (\<exists>row. Describe env3 r2 (w, st2) = (writeJSON 200 (rowInfo row) w, st2) \<and> ds_ID row = u \<and>
        ds_Owner row = owner \<and> ds_ReapedAt row = Some (ae_dbnow env2)) \<and>
     Delete env3 r2 (w, st2) = (writeJSON 200 ok_json w, st2)"
proof -
  let ?k = "ss_ID (w_store w1 ref)" and ?s = "set_owner owner (w_store w1 ref)"
  have bt: "booted (as_world st) ref w1"
    using vm_launcher.boot_booted [OF assms(4), of warm "ae_uuid env1" "as_world st" ref w1] assms(6) by simp
  have c: "create_booted env1 owner ref r1 (w, st\<lparr>as_world := w1\<rparr>) = (answer1, st1)"
    using Create_boot [OF assms(5,6)] assms(9) by (simp add: owner_def)
  have a1: "st1 = entered env1 owner ref u True st w1" "answer1 = writeJSON 200 (created_json env1 ?s) w"
    using create_booted_entered [OF assms(3) [unfolded parse_def] bt assms(7) [unfolded parse_def] c] assms(8) by simp_all
  note en = entered_facts [OF assms(3) bt assms(7) a1(1)]
  have s1: "w_store (as_world st1) ref = ?s" by (simp add: a1(1) entered_def)
  have live: "w_live (as_world st1) (wr_param r2) = Some ref" using en(2) assms(14) by simp
  have d1: "Describe env3 r2 (w, st1) = (writeJSON 200 (liveInfo ?s) w, st1)"
    using live en(6) assms(15) s1 by (simp add: Describe_def Let_def owned_live_def host_Get_def)
  obtain e where d: "api_Destroy env2 (wr_param r2) st1 = (e, st2)" and a2: "answer2 = writeJSON 200 ok_json w"
    using Delete_live [OF live, of env2 w] en(6) assms(15,16) by (metis prod.collapse prod.inject)
  note g = api_Destroy_live [OF live api_inv_onGone [OF en(1)] d]
  have dead: "w_live (as_world st2) (wr_param r2) = None" by (simp add: g(2))
  have u: "parse ?k = Some u" using assms(7) by (simp add: fresh_id_def)
  define row where "row = (created_row env1 u owner ?s)\<lparr>ds_ReapedAt := Some (ae_dbnow env2)\<rparr>"
  have "as_table st2 = snd (MarkSessionReaped DB_done (ae_dbnow env2) u (as_table st1))"
    using g(7) en(5) u assms(10,11) by simp
  then have row: "as_table st2 u = Some row" "ds_Owner row = owner" "ds_ID row = u"
    by (simp_all add: MarkSessionReaped_same a1(1) entered_def row_def created_row_def new_row_def create_row_def)
  have p3: "ae_uuid_Parse env3 (wr_param r2) = Some u" using u assms(12,14) by simp
  show ?thesis
    using a1(2) a2 d1 dead Describe_row [OF dead p3 row(1) _ assms(13)] Delete_row [OF dead p3 row(1) _ assms(13)]
      row(2,3) assms(15) by (auto simp: row_def)
qed

theorem session_lifecycle_witness:
  "\<exists>st1 st2 row. snd (Create ex_api_env (ex_request_by ''eve'' []) (new_writer, ex_api)) = st1 \<and>
     Delete ex_api_env (ex_request_by ''eve'' ''y'') (new_writer, st1) = (writeJSON 200 ok_json new_writer, st2) \<and>
     Describe ex_api_env (ex_request_by ''eve'' ''y'') (new_writer, st2) = (writeJSON 200 (rowInfo row) new_writer, st2) \<and>
     ds_Owner row = ''eve'' \<and> ds_ReapedAt row = Some 9 \<and>
     Delete ex_api_env (ex_request_by ''eve'' ''y'') (new_writer, st2) = (writeJSON 200 ok_json new_writer, st2)"
proof -
  let ?r1 = "ex_request_by ''eve'' []" and ?r2 = "ex_request_by ''eve'' ''y''"
  obtain ref w1 where b: "boot ex_api_env False (as_world ex_api) = (Inr ref, w1)" by (rule ex_boots)
  have k: "ss_ID (w_store w1 ref) = ''y''" using ex_boot [OF b] .
  have f: "fresh_id (ae_uuid_Parse ex_api_env) ex_api (ss_ID (w_store w1 ref)) ''y''"
    unfolding k by (simp add: fresh_id_def)
  have i: "api_inv (ae_uuid_Parse ex_api_env) ex_api" using ex_api_inv by simp
  have l: "vm_launcher (ae_launch ex_api_env)" using mock.vm_launcher_axioms by simp
  obtain a1 st1 where c: "Create ex_api_env ?r1 (new_writer, ex_api) = (a1, st1)" by fastforce
  obtain a2 st2 where d: "Delete ex_api_env ?r2 (new_writer, st1) = (a2, st2)" by fastforce
  have p: "wr_param ?r2 = ss_ID (w_store w1 ref)" using k by (simp add: ex_request_by_def)
  have o: "fst (OwnerFromContext ?r2) = fst (OwnerFromContext ?r1)" by simp
  from session_lifecycle [OF i l ex_requested b f _ c refl _ refl _ p o d] c d show ?thesis by auto
qed

text \<open>
  The live sessions are looked up by the text of the identifier, the rows by the UUID it denotes.
  With another spelling of a live session's UUID its owner is told that it has ended, and a
  deletion answers with success and leaves it running.
\<close>

theorem uuid_alias:
  assumes "w_live (as_world st) k = Some ref" "ae_uuid_Parse env k = Some u" "ae_uuid_Parse env (wr_param r) = Some u"
    and "w_live (as_world st) (wr_param r) = None" "as_table st u = Some row"
    and "ds_Owner row = fst (OwnerFromContext r)" "ae_get env = DB_done"
  shows "Delete env r (w, st) = (writeJSON 200 ok_json w, st) \<and>
     (\<exists>row'. Describe env r (w, st) = (writeJSON 200 (rowInfo row') w, st))"
  using Delete_row [OF assms(4,3,5-7)] Describe_row [OF assms(4,3,5-7)] by blast

end
