(* ===== verification/Api_Terminal.thy ===== *)
theory Api_Terminal
  imports Api_Isolation
begin

text \<open>
  The terminal of a session against what a terminal promises: what the client types reaches the
  console, the window has the last size asked for, and nothing of the client is left when it goes.
\<close>

section \<open>What a client asks for\<close>

text \<open>The messages the handler takes: up to the first input the console does not take.\<close>

definition served :: "(ws_message \<times> bool) list \<Rightarrow> ws_message list" where
  "served ms = map fst (takeWhile (\<lambda>(m, ok). case m of Ws_binary d \<Rightarrow> ok | Ws_text d \<Rightarrow> True) ms)"

fun typed_by :: "ws_message \<Rightarrow> string list" where
  "typed_by (Ws_binary d) = [d]"
| "typed_by (Ws_text d) = []"

fun size_by :: "ws_message \<Rightarrow> (16 word \<times> 16 word) list" where
  "size_by (Ws_binary d) = []"
| "size_by (Ws_text d) =
     (case unmarshal_into dec_control zero_control d of
        None \<Rightarrow> []
      | Some m \<Rightarrow>
          if cm_Type m = ''resize'' \<and> cm_Cols m \<noteq> 0 \<and> cm_Rows m \<noteq> 0 then [(cm_Cols m, cm_Rows m)] else [])"

lemma served_simps [simp]:
  "served [] = []" "served ((Ws_binary d, True) # ms) = Ws_binary d # served ms"
  "served ((Ws_binary d, False) # ms) = []" "served ((Ws_text d, ok) # ms) = Ws_text d # served ms"
  by (simp_all add: served_def)

section \<open>What the handler does\<close>

lemma Resize_fst:
  "fst (Resize wr c r s) = (if c = 0 \<or> r = 0 then s else s\<lparr>ss_cols := c, ss_rows := r\<rparr>)"
proof (cases "c = 0 \<or> r = 0")
  case True
  then show ?thesis by (simp add: Resize_def)
next
  case False
  obtain e out where g: "SendToGuest wr (resizeMessage c r) (s\<lparr>ss_cols := c, ss_rows := r\<rparr>) = (e, out)" by fastforce
  show ?thesis
  proof (cases e)
    case None
    with False g show ?thesis by (simp add: Resize_def)
  next
    case (Some x)
    with False g show ?thesis by (cases x) (simp_all add: Resize_def)
  qed
qed

text \<open>A session with another window.\<close>

definition with_window :: "16 word \<times> 16 word \<Rightarrow> session \<Rightarrow> session" where
  "with_window cr s = s\<lparr>ss_cols := fst cr, ss_rows := snd cr\<rparr>"

lemma with_window_simps [simp]:
  "with_window (WindowSize s) s = s" "with_window a (with_window b s) = with_window a s"
  "WindowSize (with_window a s) = a"
  by (simp_all add: with_window_def WindowSize_def)

definition last_size :: "16 word \<times> 16 word \<Rightarrow> ws_message list \<Rightarrow> 16 word \<times> 16 word" where
  "last_size cr ms = last (cr # concat (map size_by ms))"

lemma last_size_simps [simp]:
  "last_size cr [] = cr" "last_size cr (m # ms) = last_size (last (cr # size_by m)) ms"
  by (simp_all add: last_size_def last_append)

lemma pty_loop_spec:
  "\<exists>out. pty_loop wr ms s =
     (with_window (last_size (WindowSize s) (served ms)) s, concat (map typed_by (served ms)), out)"
proof (induction ms arbitrary: s)
  case Nil
  show ?case by simp
next
  case (Cons x ms)
  obtain m ok where x: "x = (m, ok)" by fastforce
  show ?case
  proof (cases m)
    case (Ws_binary d)
    obtain out where "pty_loop wr ms s =
      (with_window (last_size (WindowSize s) (served ms)) s, concat (map typed_by (served ms)), out)"
      using Cons.IH by blast
    then show ?thesis by (cases ok) (simp_all add: x Ws_binary)
  next
    case (Ws_text d)
    show ?thesis
    proof (cases "unmarshal_into dec_control zero_control d")
      case None
      then show ?thesis using Cons.IH [of s] by (simp add: x Ws_text)
    next
      case (Some cm)
      show ?thesis
      proof (cases "cm_Type cm = ''resize''")
        case False
        then show ?thesis using Cons.IH [of s] Some by (simp add: x Ws_text)
      next
        case True
        obtain s1 e out1 where z: "Resize wr (cm_Cols cm) (cm_Rows cm) s = (s1, e, out1)" by (cases "Resize wr (cm_Cols cm) (cm_Rows cm) s")
        then have s1: "s1 = with_window (last (WindowSize s # size_by m)) s"
          using Resize_fst [of wr "cm_Cols cm" "cm_Rows cm" s] Some True
          by (auto simp: Ws_text with_window_def WindowSize_def)
        obtain out2 where "pty_loop wr ms s1 =
          (with_window (last_size (WindowSize s1) (served ms)) s1, concat (map typed_by (served ms)), out2)"
          using Cons.IH by blast
        then have "pty_loop wr ms s1 =
          (with_window (last_size (WindowSize s) (served (x # ms))) s, concat (map typed_by (served (x # ms))), out2)"
          unfolding s1 by (simp add: x Ws_text)
        moreover have "pty_loop wr (x # ms) s = (case pty_loop wr ms s1 of (s2, i, out2) \<Rightarrow> (s2, i, out1 @ out2))"
          using z Some True by (simp add: x Ws_text)
        ultimately show ?thesis by simp
      qed
    qed
  qed
qed

text \<open>What the goroutine sends is what it took from the console's channel, in order, without gaps.\<close>

fun taken :: "pump_event list \<Rightarrow> string list" where
  "taken [] = []"
| "taken (P_data (Some d) ok # es) = d # taken es"
| "taken (e # es) = taken es"

lemma pump_prefix: "\<exists>rest. taken es = fst (pump es) @ rest"
proof (induction es rule: pump.induct)
  case (5 d ok es)
  then show ?case by (cases "pump es") (auto split: if_splits)
qed auto

lemma attach_cleanup:
  assumes "tee_Attach tee = (tee1, replay, ch)"
  shows "replay = t_ring tee" "t_ring (fst (cleanup_close ch (cleanup_detach ch tee1))) = t_ring tee"
    "t_subscriber (fst (cleanup_close ch (cleanup_detach ch tee1))) = None"
    "\<not> snd (cleanup_close ch (cleanup_detach ch tee1))"
  using assms by (auto simp: tee_Attach_def cleanup_detach_def cleanup_close_def Let_def)

lemma pty_session_spec:
  assumes "pty_session pt tee s = (s', out)" "t_ring tee = [] \<or> pt_replay_ok pt"
  shows "po_client out = (if t_ring tee = [] then [] else [t_ring tee])"
    "po_stdin out = concat (map typed_by (served (pt_messages pt)))"
    "WindowSize s' = last_size (WindowSize s) (served (pt_messages pt))"
    "ss_attached s' = ss_attached s" "ss_ID s' = ss_ID s" "ss_Owner s' = ss_Owner s"
    "ss_lastDetach s' = (if ss_attached s = 0 then Some (pt_end pt) else ss_lastDetach s)"
    "\<exists>tee'. ss_Serial s' = Some tee' \<and> t_subscriber tee' = None \<and> t_ring tee' = t_ring tee"
proof -
  obtain tee1 replay ch where a: "tee_Attach tee = (tee1, replay, ch)" by (cases "tee_Attach tee")
  note t = attach_cleanup [OF a]
  define s1 where "s1 = (fst (sess_Attach s))\<lparr>ss_Serial := Some tee1\<rparr>"
  obtain g where l: "pty_loop (pt_wr pt) (pt_messages pt) s1 =
      (with_window (last_size (WindowSize s1) (served (pt_messages pt))) s1,
       concat (map typed_by (served (pt_messages pt))), g)"
    using pty_loop_spec by blast
  have w: "WindowSize s1 = WindowSize s" by (simp add: s1_def sess_Attach_def WindowSize_def)
  define tee2 where "tee2 = fst (cleanup_close ch (cleanup_detach ch tee1))"
  have "out = \<lparr>po_client = (if t_ring tee = [] then [] else [t_ring tee]),
      po_stdin = concat (map typed_by (served (pt_messages pt))), po_guest = g\<rparr> \<and>
    s' = sess_detach (length (ss_closures s)) (pt_end pt)
      ((with_window (last_size (WindowSize s) (served (pt_messages pt))) s1)\<lparr>ss_Serial := Some tee2\<rparr>)"
    using assms a l t(1) w by (auto simp: pty_session_def Let_def sess_Attach_def tee2_def s1_def)
  moreover have "t_ring tee2 = t_ring tee" "t_subscriber tee2 = None" using t(2,3) by (simp_all add: tee2_def)
  ultimately show "po_client out = (if t_ring tee = [] then [] else [t_ring tee])"
    "po_stdin out = concat (map typed_by (served (pt_messages pt)))"
    "WindowSize s' = last_size (WindowSize s) (served (pt_messages pt))"
    "ss_attached s' = ss_attached s" "ss_ID s' = ss_ID s" "ss_Owner s' = ss_Owner s"
    "ss_lastDetach s' = (if ss_attached s = 0 then Some (pt_end pt) else ss_lastDetach s)"
    "\<exists>tee'. ss_Serial s' = Some tee' \<and> t_subscriber tee' = None \<and> t_ring tee' = t_ring tee"
    by (simp_all add: s1_def sess_Attach_def sess_detach_def Let_def with_window_def WindowSize_def)
qed

text \<open>
  C10: A terminal is faithful and leaves nothing behind. A client of the owner's live session is
  first sent the whole scrollback. The console is given exactly the input the client sent, in
  order, up to the first that it does not take. The window ends up with the last usable size asked
  for, whatever else the client sent. When the client has gone, no other session has changed, the
  session has as many clients as before and nobody reads its console, and if the client was the only
  one the idle time of the session starts then.
\<close>

theorem terminal_session:
  assumes "w_live (as_world st) (wr_param r) = Some ref" "s = w_store (as_world st) ref"
    and "ss_Owner s = fst (OwnerFromContext r)" "ss_Serial s = Some tee" "ss_Process s" "pt_accept pt"
    and "t_ring tee = [] \<or> pt_replay_ok pt"
  shows "\<exists>st' out tee' s'. PTY env pt r (w, st) = ((w, st'), Some out) \<and>
     po_client out = (if t_ring tee = [] then [] else [t_ring tee]) \<and>
     po_stdin out = concat (map typed_by (served (pt_messages pt))) \<and>
     as_world st' = upd_session ref (\<lambda>_. s') (as_world st) \<and>
     WindowSize s' = last (WindowSize s # concat (map size_by (served (pt_messages pt)))) \<and>
     ss_attached s' = ss_attached s \<and> ss_Serial s' = Some tee' \<and> t_subscriber tee' = None \<and>
     t_ring tee' = t_ring tee \<and> (ss_attached s = 0 \<longrightarrow> IdleSince s' = Some (pt_end pt))"
proof -
  obtain s' out where p: "pty_session pt tee s = (s', out)" by fastforce
  note q = pty_session_spec [OF p assms(7)]
  obtain tee' where "ss_Serial s' = Some tee'" "t_subscriber tee' = None" "t_ring tee' = t_ring tee" using q(8) by blast
  moreover have "owned_live (fst (OwnerFromContext r)) (wr_param r) (as_world st) = Some ref"
    using assms(1-3) by (simp add: owned_live_Some)
  then have "PTY env pt r (w, st) = ((w, st\<lparr>as_world := upd_session ref (\<lambda>_. s') (as_world st),
      as_table := snd (TouchSessionAttached (ae_touch env) (ae_dbnow env)
        (mustUUID (ae_uuid_Parse env) (wr_param r)) (as_table st))\<rparr>), Some out)"
    using assms(2,4-6) p by (simp add: PTY_def)
  moreover have "ss_attached s = 0 \<longrightarrow> IdleSince s' = Some (pt_end pt)"
    using q(4,7) by (simp add: IdleSince_def)
  ultimately show ?thesis using q(1-4) unfolding last_size_def by fastforce
qed

text \<open>The control message a client sends for a window size, and how the handler reads it.\<close>

definition resize_json :: "16 word \<Rightarrow> 16 word \<Rightarrow> json" where
  "resize_json c r =
     JObj [(''type'', JStr ''resize''), (''cols'', JNum (FormatInt (uint c))), (''rows'', JNum (FormatInt (uint r)))]"

lemma resize_json_readable: "int_json (resize_json c r)" "depth (resize_json c r) \<le> max_nesting"
proof -
  have w: "int64_range (uint x)" for x :: "16 word"
  proof -
    have "0 \<le> uint x" "uint x < 65536" using uint_lt2p [of x] by simp_all
    moreover from this(1) have "- 9223372036854775808 \<le> uint x" by linarith
    ultimately show ?thesis by (simp add: int64_range_def)
  qed
  have "ascii ''type''" "ascii ''resize''" "ascii ''cols''" "ascii ''rows''" by code_simp+
  with w show "int_json (resize_json c r)" by (simp add: resize_json_def)
  show "depth (resize_json c r) \<le> max_nesting" by (simp add: resize_json_def max_nesting_def)
qed

lemma dec_uint16_FormatInt: "dec_uint16 (JNum (FormatInt (uint (c :: 16 word)))) old = (c, True)"
proof -
  have "uint c < 65536" using uint_lt2p [of c] by simp
  then have "nat (uint c) < 65536" by linarith
  moreover have "word_of_nat (nat (uint c)) = c" by simp
  ultimately show ?thesis by (simp add: dec_uint16_def FormatInt_def)
qed

lemma fold_control [simp]:
  "fold_name ''type'' = ''TYPE''" "fold_name ''cols'' = ''COLS''" "fold_name ''rows'' = ''ROWS''"
  by code_simp+

lemma dec_control_resize:
  "dec_control (resize_json c r) zero_control = (\<lparr>cm_Type = ''resize'', cm_Cols = c, cm_Rows = r\<rparr>, True)"
  by (simp add: dec_control_def dec_struct_def resize_json_def zero_control_def dec_uint16_FormatInt dec_string_def)

lemma size_by_resize: "c \<noteq> 0 \<Longrightarrow> r \<noteq> 0 \<Longrightarrow> size_by (Ws_text (print_json (resize_json c r))) = [(c, r)]"
  using json_unmarshal_print [OF resize_json_readable, of c r]
  by (simp add: unmarshal_into_def dec_control_resize del: print_json.simps)

definition ex_pty :: pty_env where
  "ex_pty = \<lparr>pt_accept = True, pt_refused = (\<lambda>w. w), pt_replay_ok = True,
     pt_messages = [(Ws_binary ''ls'', True), (Ws_text (print_json (resize_json 80 24)), True),
       (Ws_text (print_json (resize_json 120 40)), True), (Ws_binary ''cd'', True), (Ws_binary ''lost'', False),
       (Ws_text (print_json (resize_json 1 1)), True)],
     pt_wr = (\<lambda>_. True), pt_end = 77\<rparr>"

lemma ex_pty_served: "served (pt_messages ex_pty) = map fst (take 4 (pt_messages ex_pty))"
  by (simp add: ex_pty_def del: print_json.simps)

lemma ex_pty_typed: "concat (map typed_by (served (pt_messages ex_pty))) = [''ls'', ''cd'']"
  by (simp add: ex_pty_served del: print_json.simps) (simp add: ex_pty_def del: print_json.simps)

lemma ex_pty_sizes: "concat (map size_by (served (pt_messages ex_pty))) = [(80, 24), (120, 40)]"
  using size_by_resize [of 80 24] size_by_resize [of 120 40]
  by (simp add: ex_pty_served del: print_json.simps size_by.simps)
    (simp add: ex_pty_def del: print_json.simps size_by.simps(2))

text \<open>The host of the isolation example, whose session has a console with some output.\<close>

definition ex_console :: session where
  "ex_console = ex_bob\<lparr>ss_Serial := Some ((NewSerialTee 9)\<lparr>t_ring := ''hi''\<rparr>), ss_Process := True\<rparr>"

theorem terminal_session_witness:
  "\<exists>st' out s'. PTY ex_api_env ex_pty (ex_request_by ''bob'' ''x'')
       (new_writer, ex_api\<lparr>as_world := upd_session 0 (\<lambda>_. ex_console) (as_world ex_api)\<rparr>) = ((new_writer, st'), Some out) \<and>
     po_client out = [''hi''] \<and> po_stdin out = [''ls'', ''cd''] \<and>
     w_store (as_world st') 0 = s' \<and> WindowSize s' = (120, 40) \<and> IdleSince s' = Some 77"
proof -
  let ?st = "ex_api\<lparr>as_world := upd_session 0 (\<lambda>_. ex_console) (as_world ex_api)\<rparr>"
  let ?r = "ex_request_by ''bob'' ''x''"
  have c: "ss_Owner ex_console = ''bob''" "ss_Serial ex_console = Some ((NewSerialTee 9)\<lparr>t_ring := ''hi''\<rparr>)"
    "ss_Process ex_console" "ss_attached ex_console = 0"
    by (simp_all add: ex_console_def ex_bob_def zero_session_def)
  have l: "w_live (as_world ?st) (wr_param ?r) = Some 0" by (simp add: ex_request_by_def)
  have s: "ex_console = w_store (as_world ?st) 0" by simp
  have o: "ss_Owner ex_console = fst (OwnerFromContext ?r)" by (simp add: c)
  have p: "pt_accept ex_pty" "pt_end ex_pty = 77" "t_ring ((NewSerialTee 9)\<lparr>t_ring := ''hi''\<rparr>) = [] \<or> pt_replay_ok ex_pty"
    by (simp_all add: ex_pty_def)
  from terminal_session [OF l s o c(2,3) p(1,3), of ex_api_env new_writer]
  show ?thesis by (fastforce simp: ex_pty_typed ex_pty_sizes c(4) p(2))
qed

end
