(* ===== verification/Api_Router.thy ===== *)
theory Api_Router
  imports Api_Terminal
begin

text \<open>
  The router of \<open>control-plane/internal/api/router.go\<close>: the table of routes, the middlewares around
  it and the group of routes behind the login gate. How \<open>chi\<close> matches a request with the table, the
  answers of \<open>chi\<close> when nothing matches, the address \<open>middleware.RealIP\<close> finds and the text of the
  metrics are arguments. \<open>middleware.Recoverer\<close> only acts on a panic.
\<close>

section \<open>Routes\<close>

datatype api_route =
  R_healthz | R_metrics | R_Login | R_SubmitLogin | R_Logout | R_Terminal
| R_session api_call

text \<open>The routes in the order of registration: the open ones, and those of the group.\<close>

definition open_routes :: "(string \<times> string \<times> api_route) list" where
  "open_routes =
     [(''GET'', ''/healthz'', R_healthz), (''GET'', ''/metrics'', R_metrics), (''GET'', ''/'', R_Login),
      (''POST'', ''/login'', R_SubmitLogin), (''GET'', ''/logout'', R_Logout), (''POST'', ''/logout'', R_Logout),
      (''GET'', ''/terminal'', R_Terminal)]"

definition gated_routes :: "pty_env \<Rightarrow> (string \<times> string \<times> api_route) list" where
  "gated_routes pt =
     [(''POST'', ''/sessions'', R_session Call_create), (''GET'', ''/sessions/current'', R_session Call_current),
      (''GET'', ''/sessions/{id}'', R_session Call_describe), (''DELETE'', ''/sessions/{id}'', R_session Call_delete),
      (''GET'', ''/sessions/{id}/pty'', R_session (Call_pty pt))]"

record req_log =
  lg_method :: string
  lg_path :: string
  lg_remote :: string
  lg_request_id :: string

record router_env =
  ro_api :: api_env
  ro_pty :: pty_env
  ro_uuid :: string
  ro_realip :: "web_request \<Rightarrow> string"
  ro_match :: "(string \<times> string \<times> api_route) list \<Rightarrow> string \<Rightarrow> string \<Rightarrow> (nat \<times> string) option"
  ro_nomatch :: "web_request \<Rightarrow> web_writer \<Rightarrow> web_writer"
  ro_metrics :: "nat \<Rightarrow> web_writer \<Rightarrow> web_writer"

type_synonym router_state = "api_state \<times> req_log list"

definition requestLogger :: "router_state handler \<Rightarrow> router_state handler" where
  "requestLogger next r ws =
     (case ws of
        (w, st, lines) \<Rightarrow>
          next r (w, st, lines @ [\<lparr>lg_method = wr_method r, lg_path = wr_path r, lg_remote = wr_remote r,
            lg_request_id = header_Get (wr_header r) RequestIDHeader\<rparr>]))"

text \<open>The gauge of live sessions.\<close>

definition RegisterMetrics :: "api_state \<Rightarrow> nat" where
  "RegisterMetrics st = host_Count (as_world st)"

text \<open>A page handler works on the gate.\<close>

definition on_gate :: "gate handler \<Rightarrow> api_state handler" where
  "on_gate h r ws = (case h r (fst ws, as_gate (snd ws)) of (w, g) \<Rightarrow> (w, (snd ws)\<lparr>as_gate := g\<rparr>))"

fun serve_route :: "router_env \<Rightarrow> api_route \<Rightarrow> api_state handler" where
  "serve_route env R_healthz r ws = (healthz (fst ws), snd ws)"
| "serve_route env R_metrics r ws = (ro_metrics env (RegisterMetrics (snd ws)) (fst ws), snd ws)"
| "serve_route env R_Login r ws = on_gate (Login (ae_page (ro_api env))) r ws"
| "serve_route env R_SubmitLogin r ws = on_gate (SubmitLogin (ae_page (ro_api env))) r ws"
| "serve_route env R_Logout r ws = on_gate (Logout (ae_page (ro_api env))) r ws"
| "serve_route env R_Terminal r ws = on_gate (Terminal (ae_page (ro_api env))) r ws"
| "serve_route env (R_session c) r ws =
     Middleware (pe_hmac (ae_page (ro_api env))) (pe_now (ae_page (ro_api env))) (as_gate (snd ws))
       (handle (ro_api env) c) r ws"

definition mux :: "router_env \<Rightarrow> router_state handler" where
  "mux env r ws =
     (case ws of
        (w, st, lines) \<Rightarrow>
          (let table = open_routes @ gated_routes (ro_pty env)
           in case ro_match env table (wr_method r) (wr_path r) of
                None \<Rightarrow> (ro_nomatch env r w, st, lines)
              | Some (i, param) \<Rightarrow>
                  (case serve_route env (snd (snd (table ! i))) (r\<lparr>wr_param := param\<rparr>) (w, st) of
                     (w', st') \<Rightarrow> (w', st', lines))))"

definition NewRouter :: "router_env \<Rightarrow> router_state handler" where
  "NewRouter env r ws =
     requestIDMiddleware (ro_uuid env) (requestLogger (mux env)) (r\<lparr>wr_remote := ro_realip env r\<rparr>) ws"

section \<open>Matching\<close>

text \<open>
  What is documented of matching: only a registered route with the method and a pattern that fits
  the path is chosen. A segment in braces fits every segment that is not empty.
\<close>

definition seg_fits :: "string \<Rightarrow> string \<Rightarrow> bool" where
  "seg_fits p s \<longleftrightarrow> (if p = ''{id}'' then s \<noteq> [] else p = s)"

definition fits :: "string \<Rightarrow> string \<Rightarrow> bool" where
  "fits pattern path \<longleftrightarrow> list_all2 seg_fits (Split CHR ''/'' pattern) (Split CHR ''/'' path)"

definition chi_matches :: "((string \<times> string \<times> api_route) list \<Rightarrow> string \<Rightarrow> string \<Rightarrow> (nat \<times> string) option) \<Rightarrow> bool" where
  "chi_matches m \<longleftrightarrow>
     (\<forall>table verb path i param. m table verb path = Some (i, param) \<longrightarrow>
        i < length table \<and> fst (table ! i) = verb \<and> fits (fst (snd (table ! i))) path)"

text \<open>The paths of the session routes.\<close>

definition under_sessions :: "string \<Rightarrow> bool" where
  "under_sessions path \<longleftrightarrow> take 2 (Split CHR ''/'' path) = [[], ''sessions'']"

lemma patterns:
  "map (\<lambda>x. Split CHR ''/'' (fst (snd x))) (open_routes @ gated_routes pt) =
    [[[], ''healthz''], [[], ''metrics''], [[], []], [[], ''login''], [[], ''logout''], [[], ''logout''], [[], ''terminal''],
     [[], ''sessions''], [[], ''sessions'', ''current''], [[], ''sessions'', ''{id}''], [[], ''sessions'', ''{id}''],
     [[], ''sessions'', ''{id}'', ''pty'']]"
  by (simp add: open_routes_def gated_routes_def)

lemma routes_length: "length (open_routes @ gated_routes pt) = 12"
  by (simp add: open_routes_def gated_routes_def)

lemma fits_second:
  assumes "fits p path" "take 2 (Split CHR ''/'' p) = [[], a]" "a \<noteq> ''{id}''"
  shows "take 2 (Split CHR ''/'' path) = [[], a]"
proof -
  have "list_all2 seg_fits (take 2 (Split CHR ''/'' p)) (take 2 (Split CHR ''/'' path))"
    using assms(1) unfolding fits_def by (rule list_all2_takeI)
  then show ?thesis
    using assms(2,3) by (auto simp: seg_fits_def list_all2_Cons1 split: if_splits)
qed

lemma session_route:
  assumes "chi_matches m" "m (open_routes @ gated_routes pt) verb path = Some (i, param)" "under_sessions path"
  shows "\<exists>c. snd (snd ((open_routes @ gated_routes pt) ! i)) = R_session c"
proof -
  let ?t = "open_routes @ gated_routes pt"
  have i: "i < 12" and f: "fits (fst (snd (?t ! i))) path"
    using assms(1,2) unfolding chi_matches_def by (metis routes_length)+
  have s: "Split CHR ''/'' (fst (snd (?t ! i))) = map (\<lambda>x. Split CHR ''/'' (fst (snd x))) ?t ! i"
    using nth_map [of i ?t "\<lambda>x. Split CHR ''/'' (fst (snd x))"] i routes_length by simp
  have "\<not> i < 7"
  proof
    assume "i < 7"
    then have "i \<in> {0, 1, 2, 3, 4, 5, 6}" by auto
    then obtain a where "take 2 (Split CHR ''/'' (fst (snd (?t ! i)))) = [[], a]" "a \<noteq> ''{id}''" "a \<noteq> ''sessions''"
      unfolding s patterns by fastforce
    with fits_second [OF f] assms(3) show False by (simp add: under_sessions_def)
  qed
  with i have "i \<in> {7, 8, 9, 10, 11}" by auto
  then show ?thesis by (auto simp: open_routes_def gated_routes_def)
qed

section \<open>The gate\<close>

definition request_id :: "router_env \<Rightarrow> web_request \<Rightarrow> string" where
  "request_id env r =
     (let h = header_Get (wr_header r) RequestIDHeader in if h = [] then ro_uuid env else h)"

text \<open>The request and the response as the handlers get them, and the line of the request log.\<close>

definition prepared :: "router_env \<Rightarrow> web_request \<Rightarrow> web_request" where
  "prepared env r = r\<lparr>wr_remote := ro_realip env r, wr_requestID := Some (request_id env r)\<rparr>"

definition tagged :: "router_env \<Rightarrow> web_request \<Rightarrow> web_writer \<Rightarrow> web_writer" where
  "tagged env r = ww_Set RequestIDHeader (request_id env r)"

definition log_line :: "router_env \<Rightarrow> web_request \<Rightarrow> req_log" where
  "log_line env r =
     \<lparr>lg_method = wr_method r, lg_path = wr_path r, lg_remote = ro_realip env r,
      lg_request_id = header_Get (wr_header r) RequestIDHeader\<rparr>"

lemma NewRouter_mux:
  "NewRouter env r (w, st, lines) = mux env (prepared env r) (tagged env r w, st, lines @ [log_line env r])"
  by (simp add: NewRouter_def requestIDMiddleware_def requestLogger_def Let_def prepared_def tagged_def request_id_def
      log_line_def)

lemma prepared_simps [simp]:
  "wr_method (prepared env r) = wr_method r" "wr_path (prepared env r) = wr_path r"
  "wr_cookies (prepared env r) = wr_cookies r"
  by (simp_all add: prepared_def)

lemma OwnerFromRequest_cookies:
  "wr_cookies r = wr_cookies r' \<Longrightarrow> OwnerFromRequest hmac r now g = OwnerFromRequest hmac r' now g"
  by (simp add: OwnerFromRequest_def)

text \<open>Who the router takes the sender of a request for.\<close>

definition sender :: "router_env \<Rightarrow> web_request \<Rightarrow> api_state \<Rightarrow> string option" where
  "sender env r st =
     OwnerFromRequest (pe_hmac (ae_page (ro_api env))) r (pe_now (ae_page (ro_api env))) (as_gate st)"

lemma serve_session:
  "serve_route env (R_session c) (prepared env r\<lparr>wr_param := param\<rparr>) (w, st) =
     (case sender env r st of
        None \<Rightarrow> (auth_reject w, st)
      | Some owner \<Rightarrow> handle (ro_api env) c (prepared env r\<lparr>wr_param := param, wr_owner := Some owner\<rparr>) (w, st))"
  using OwnerFromRequest_cookies [of "prepared env r\<lparr>wr_param := param\<rparr>" r]
  by (simp add: Middleware_def sender_def split: option.split)


section \<open>Isolation through the router\<close>

lemma serve_keeps:
  assumes "api_inv (ae_uuid_Parse (ro_api env)) st" "vm_launcher (ae_launch (ro_api env))" "fresh_boot (ro_api env) st"
    and "sender env r st \<noteq> Some owner"
  shows "kept_for owner st (snd (serve_route env rt (prepared env r\<lparr>wr_param := param\<rparr>) (w, st))) \<and>
    api_inv (ae_uuid_Parse (ro_api env)) (snd (serve_route env rt (prepared env r\<lparr>wr_param := param\<rparr>) (w, st)))"
proof -
  have gate: "kept_for owner st (snd (on_gate h q (w, st))) \<and> api_inv (ae_uuid_Parse (ro_api env)) (snd (on_gate h q (w, st)))"
    for h q
    using assms(1) by (simp add: on_gate_def kept_for_def api_inv_def matches_def split: prod.splits)
  have same: "kept_for owner st st" by (simp add: kept_for_def)
  show ?thesis
  proof (cases rt)
    case (R_session c)
    show ?thesis
    proof (cases "sender env r st")
      case None
      then show ?thesis unfolding R_session serve_session using same assms(1) by simp
    next
      case (Some o')
      let ?r = "prepared env r\<lparr>wr_param := param, wr_owner := Some o'\<rparr>"
      have "fst (OwnerFromContext ?r) \<noteq> owner" using Some assms(4) by (simp add: OwnerFromContext_def)
      then show ?thesis
        unfolding R_session serve_session Some
        using handle_keeps [OF assms(1-3)] others_kept_for [OF handle_keeps(1) [OF assms(1-3)]] by simp
    qed
  qed (use gate same assms(1) in simp_all)
qed

text \<open>A request that reaches the daemon with no cookie of the owner, or none at all.\<close>

inductive by_outsider :: "(string \<Rightarrow> uuid option) \<Rightarrow> string \<Rightarrow> router_state \<Rightarrow> router_state \<Rightarrow> bool" for parse owner where
  "ae_uuid_Parse (ro_api env) = parse \<Longrightarrow> vm_launcher (ae_launch (ro_api env)) \<Longrightarrow> fresh_boot (ro_api env) (fst y) \<Longrightarrow>
   OwnerFromRequest (pe_hmac (ae_page (ro_api env))) r (pe_now (ae_page (ro_api env))) (as_gate (fst y)) \<noteq> Some owner \<Longrightarrow>
   by_outsider parse owner y (snd (NewRouter env r (w, y)))"

lemma NewRouter_keeps:
  assumes "api_inv (ae_uuid_Parse (ro_api env)) st" "vm_launcher (ae_launch (ro_api env))" "fresh_boot (ro_api env) st"
    and "sender env r st \<noteq> Some owner"
  shows "kept_for owner st (fst (snd (NewRouter env r (w, st, lines)))) \<and>
    api_inv (ae_uuid_Parse (ro_api env)) (fst (snd (NewRouter env r (w, st, lines))))"
proof (cases "ro_match env (open_routes @ gated_routes (ro_pty env)) (wr_method r) (wr_path r)")
  case None
  then show ?thesis using assms(1) by (simp add: NewRouter_mux mux_def kept_for_def)
next
  case (Some x)
  then show ?thesis
    using serve_keeps [OF assms]
    by (cases x) (simp add: NewRouter_mux mux_def Let_def case_prod_beta del: serve_route.simps)
qed

lemma by_outsider_kept:
  "(by_outsider parse owner)\<^sup>*\<^sup>* y z \<Longrightarrow> api_inv parse (fst y) \<Longrightarrow> api_inv parse (fst z) \<and> kept_for owner (fst y) (fst z)"
proof (induction rule: rtranclp_induct)
  case base
  then show ?case by (simp add: kept_for_def)
next
  case (step z z')
  then have z: "api_inv parse (fst z)" "kept_for owner (fst y) (fst z)" by blast+
  from step(2) show ?case
  proof cases
    case (1 env r w)
    obtain st lines where "z = (st, lines)" by fastforce
    then have "kept_for owner (fst z) (fst z') \<and> api_inv parse (fst z')"
      using NewRouter_keeps [of env st r owner w lines] 1 z(1) by (simp add: sender_def)
    then show ?thesis using kept_for_trans [OF z(2)] by blast
  qed
qed

text \<open>
  C1: Only its owner reaches a session. Start from a state where live sessions and rows agree and
  let any number of requests of any kind reach the daemon, through any route, open or not, with any
  cookies except ones that verify as the owner at that moment. Then the live sessions of the owner
  are still live and exactly as they were, and so are the owner's rows. The only other assumption
  is that new sessions get new UUIDs.
\<close>

theorem router_isolation:
  assumes "api_inv parse (fst y)" "(by_outsider parse owner)\<^sup>*\<^sup>* y z"
  shows "(\<forall>k ref. w_live (as_world (fst y)) k = Some ref \<and> ss_Owner (w_store (as_world (fst y)) ref) = owner \<longrightarrow>
       w_live (as_world (fst z)) k = Some ref \<and> w_store (as_world (fst z)) ref = w_store (as_world (fst y)) ref) \<and>
     (\<forall>u row. as_table (fst y) u = Some row \<and> ds_Owner row = owner \<longrightarrow> as_table (fst z) u = Some row)"
  using by_outsider_kept [OF assms(2,1)] unfolding kept_for_def by blast

section \<open>Examples\<close>

text \<open>The first route with the method whose pattern fits; the parameter is the third segment.\<close>

fun first_fit :: "(string \<times> string \<times> api_route) list \<Rightarrow> string \<Rightarrow> string \<Rightarrow> nat option" where
  "first_fit [] verb path = None"
| "first_fit ((m, p, rt) # table) verb path =
     (if m = verb \<and> fits p path then Some 0 else map_option Suc (first_fit table verb path))"

definition ex_match :: "(string \<times> string \<times> api_route) list \<Rightarrow> string \<Rightarrow> string \<Rightarrow> (nat \<times> string) option" where
  "ex_match table verb path =
     map_option (\<lambda>i. (i, case drop 2 (Split CHR ''/'' path) of [] \<Rightarrow> [] | s # _ \<Rightarrow> s)) (first_fit table verb path)"

lemma first_fit_Some:
  "first_fit table verb path = Some i \<Longrightarrow>
     i < length table \<and> fst (table ! i) = verb \<and> fits (fst (snd (table ! i))) path"
  by (induction table verb path arbitrary: i rule: first_fit.induct) (auto split: if_splits)

lemma ex_match_chi: "chi_matches ex_match"
  unfolding chi_matches_def ex_match_def by (auto dest: first_fit_Some)

definition ex_router :: router_env where
  "ex_router = \<lparr>ro_api = ex_api_env, ro_pty = ex_pty, ro_uuid = ''u'', ro_realip = wr_remote, ro_match = ex_match,
     ro_nomatch = (\<lambda>_. ww_Error ''not found'' 404), ro_metrics = (\<lambda>_ w. w)\<rparr>"

definition ex_delete :: web_request where
  "ex_delete = ex_login\<lparr>wr_method := ''DELETE'', wr_path := ''/sessions/x'', wr_cookies := [], wr_header := []\<rparr>"

lemma ex_router_simps [simp]:
  "ro_api ex_router = ex_api_env" "ro_match ex_router = ex_match" "ro_pty ex_router = ex_pty"
  by (simp_all add: ex_router_def)

lemma ex_delete_facts:
  "wr_method ex_delete = ''DELETE''" "wr_path ex_delete = ''/sessions/x''" "wr_cookies ex_delete = []"
  "under_sessions (wr_path ex_delete)"
  by (simp_all add: ex_delete_def under_sessions_def)

lemma ex_delete_anonymous: "OwnerFromRequest hmac ex_delete now g = None"
  by (simp add: OwnerFromRequest_def ex_delete_facts)

lemma ex_delete_match: "ex_match (open_routes @ gated_routes pt) ''DELETE'' ''/sessions/x'' = Some (10, ''x'')"
  by (simp add: ex_match_def open_routes_def gated_routes_def fits_def seg_fits_def)


theorem router_isolation_witness:
  "\<exists>z. by_outsider Some ''bob'' (ex_api, []) z \<and> z = snd (NewRouter ex_router ex_delete (new_writer, ex_api, [])) \<and>
     w_live (as_world (fst z)) ''x'' = Some 0 \<and> as_table (fst z) ''x'' = Some ex_row"
proof -
  let ?z = "snd (NewRouter ex_router ex_delete (new_writer, ex_api, []))"
  have "by_outsider Some ''bob'' (ex_api, []) ?z"
    by (rule by_outsider.intros [where env = ex_router])
      (simp_all add: ex_fresh mock.vm_launcher_axioms ex_delete_anonymous)
  then have s: "by_outsider Some ''bob'' (ex_api, []) ?z" "(by_outsider Some ''bob'')\<^sup>*\<^sup>* (ex_api, []) ?z" by blast+
  have i: "api_inv Some (fst (ex_api, []))" using ex_api_inv by simp
  from router_isolation [OF i s(2)] have "w_live (as_world (fst ?z)) ''x'' = Some 0" "as_table (fst ?z) ''x'' = Some ex_row"
    by auto
  with s(1) show ?thesis by blast
qed

text \<open>
  A request without an identifier gets one, which its answer carries; the line of the request log
  has none.
\<close>

theorem request_id_not_logged:
  assumes "header_Get (wr_header r) RequestIDHeader = []"
  shows "lg_request_id (last (snd (snd (NewRouter env r (w, st, lines))))) = []"
    and "header_Get (ww_header (tagged env r w)) RequestIDHeader = ro_uuid env"
proof -
  have "snd (snd (mux env q (v, st, ls))) = ls" for q v ls
    by (simp add: mux_def Let_def split: option.splits prod.splits)
  then show "lg_request_id (last (snd (snd (NewRouter env r (w, st, lines))))) = []"
    using assms by (simp add: NewRouter_mux log_line_def)
  show "header_Get (ww_header (tagged env r w)) RequestIDHeader = ro_uuid env"
    using assms by (simp add: tagged_def request_id_def Let_def header_Get_Set)
qed

end
