(* ===== verification/Daemon.thy ===== *)
theory Daemon
  imports Api_Router
begin

text \<open>
  The daemon of \<open>control-plane/cmd/microvm-terminal/main.go\<close>: the chain of steps that leads to a
  running server or to an exit, and the end, which destroys the sessions. What the steps read (files,
  environment, the database and the host) is in the start environment. Flags, logging, signals and
  the HTTP server itself are left out.
\<close>

section \<open>Start\<close>

datatype daemon_error =
  D_config config_error | D_open | D_migrate | D_gate auth_error | D_launcher string

record 'd start_env =
  se_yaml :: "string \<Rightarrow> config \<Rightarrow> config option"
  se_fs :: "string \<Rightarrow> file_read"
  se_getenv :: "string \<Rightarrow> string"
  se_path :: string
  se_open :: "string \<Rightarrow> bool"
  se_exec :: "string \<Rightarrow> 'd \<Rightarrow> 'd option"
  se_create_ok :: bool
  se_flt :: "string \<Rightarrow> mig_fault"
  se_entries :: "mig_file list"
  se_rows :: "'d \<Rightarrow> sessions_table"
  se_read :: "string \<Rightarrow> string option"
  se_rnd :: "bytes option"
  se_os :: os
  se_parse6 :: "string \<Rightarrow> 128 word option"
  se_ip_route :: "string option"
  se_create :: create_env
  se_wait :: "session \<Rightarrow> session \<times> session_error option"
  se_mock_at :: "go_time \<times> go_time"
  se_no_manager :: manager

record daemon =
  dm_cfg :: config
  dm_launch :: launcher
  dm_state :: api_state

text \<open>With the mock launcher there is no manager; its place in the state is then never used.\<close>

definition pickLauncher :: "'d start_env \<Rightarrow> config \<Rightarrow> host_log \<Rightarrow> (string + launcher \<times> manager) \<times> host_log" where
  "pickLauncher se cfg h =
     (if cf_UseMockLauncher cfg then (Inr (mockLauncher (fst (se_mock_at se)) (snd (se_mock_at se)), se_no_manager se), h)
      else case NewManager (se_os se) (se_parse6 se) (se_ip_route se) cfg h of
             (Inl e, h1) \<Rightarrow> (Inl e, h1)
           | (Inr m, h1) \<Rightarrow> (Inr (managerLauncher (se_create se) (se_wait se), m), h1))"

definition start_host :: "config \<Rightarrow> manager \<Rightarrow> world" where
  "start_host cfg m =
     \<lparr>w_store = (\<lambda>_. zero_session), w_next = 0, w_host = OnGone (NewHost (cf_MaxConcurrent cfg)),
      w_pool = (if cf_WarmPoolTarget cfg > 0 then Some (pool_Start (NewWarmPool (cf_WarmPoolTarget cfg))) else None),
      w_mgr = m, w_watch = [], w_gone = []\<rparr>"

definition start_gate :: "'d start_env \<Rightarrow> config \<Rightarrow> host_log \<Rightarrow> (auth_error + gate) \<times> host_log" where
  "start_gate se cfg h =
     NewGate (se_os se) (se_read se (cf_PasswordFile cfg)) (se_read se (cf_CookieSecretFile cfg)) (se_rnd se)
       (cf_CookieSecretFile cfg) \<lparr>op_Secure = cf_SecureCookies cfg, op_Domain = cf_CookieDomain cfg\<rparr> h"

definition daemon_start :: "'d start_env \<Rightarrow> 'd pg \<Rightarrow> host_log \<Rightarrow> (daemon_error + daemon) \<times> 'd pg \<times> host_log" where
  "daemon_start se db h =
     (case Load (se_yaml se) (se_fs se) (se_getenv se) (se_path se) of
        Inl e \<Rightarrow> (Inl (D_config e), db, h)
      | Inr cfg \<Rightarrow>
          if \<not> se_open se (cf_DatabaseURL cfg) then (Inl D_open, db, h)
          else
            (case Migrate (se_exec se) (se_create_ok se) (se_flt se) (se_entries se) db of
               (False, db1) \<Rightarrow> (Inl D_migrate, db1, h)
             | (True, db1) \<Rightarrow>
                 (case start_gate se cfg h of
                    (Inl e, h1) \<Rightarrow> (Inl (D_gate e), db1, h1)
                  | (Inr g, h1) \<Rightarrow>
                      (case pickLauncher se cfg h1 of
                         (Inl e, h2) \<Rightarrow> (Inl (D_launcher e), db1, h2)
                       | (Inr (l, m), h2) \<Rightarrow>
                           (Inr \<lparr>dm_cfg = cfg, dm_launch = l,
                                 dm_state = \<lparr>as_world = start_host cfg m, as_gate = g,
                                             as_table = se_rows se (pg_data db1)\<rparr>\<rparr>, db1, h2)))))"

section \<open>End\<close>

text \<open>The sessions listed after the server has stopped are destroyed, then the pool is stopped.\<close>

definition daemon_stop :: "api_env \<Rightarrow> sref list \<Rightarrow> api_state \<Rightarrow> api_state" where
  "daemon_stop env order st =
     (let st1 = fold (\<lambda>ref st. snd (api_Destroy env (ss_ID (w_store (as_world st) ref)) st)) order st
      in st1\<lparr>as_world := (as_world st1)\<lparr>w_pool := map_option pool_Stop (w_pool (as_world st1))\<rparr>\<rparr>)"

section \<open>A daemon that runs\<close>

lemma migrate_names_all:
  "migrate_names exec flt entries names db = (True, db') \<Longrightarrow>
     set names \<subseteq> set (pg_applied db') \<and> set (pg_applied db) \<subseteq> set (pg_applied db')"
proof (induction exec flt entries names db rule: migrate_names.induct)
  case (2 exec flt entries name names db)
  obtain ok db1 where one: "migrate_one exec (flt name) name (mig_up entries name) db = (ok, db1)" by fastforce
  with 2(2) have ok: ok by (cases ok) simp_all
  then have "name \<in> set (pg_applied db1)" "set (pg_applied db) \<subseteq> set (pg_applied db1)"
    using one by (auto simp: migrate_one_def pg_applied_def split: if_splits option.splits)
  with 2(1) [OF one [symmetric]] 2(2) one ok show ?case by auto
qed simp

lemma Migrate_all: "Migrate exec ok flt entries db = (True, db') \<Longrightarrow> set (mig_names entries) \<subseteq> set (pg_applied db')"
  using migrate_names_all by (fastforce simp: Migrate_def split: if_splits)

lemma daemon_start_Inr:
  assumes "daemon_start se db h = (Inr d, db', h')"
  obtains cfg g h1 l m where
    "Load (se_yaml se) (se_fs se) (se_getenv se) (se_path se) = Inr cfg" "se_open se (cf_DatabaseURL cfg)"
    "Migrate (se_exec se) (se_create_ok se) (se_flt se) (se_entries se) db = (True, db')"
    "start_gate se cfg h = (Inr g, h1)" "pickLauncher se cfg h1 = (Inr (l, m), h')"
    "d = \<lparr>dm_cfg = cfg, dm_launch = l,
          dm_state = \<lparr>as_world = start_host cfg m, as_gate = g, as_table = se_rows se (pg_data db')\<rparr>\<rparr>"
  using assms by (auto simp: daemon_start_def split: sum.splits if_splits prod.splits bool.splits)

lemma start_gate_password: "start_gate se cfg h = (Inr g, h1) \<Longrightarrow> 8 \<le> length (gt_password g)"
  by (auto simp: start_gate_def NewGate_def split: option.splits if_splits prod.splits sum.splits)

lemma pickLauncher_Inr:
  assumes "pickLauncher se cfg h = (Inr (l, m), h')"
  shows "vm_launcher l" "\<not> cf_UseMockLauncher cfg \<Longrightarrow> l = managerLauncher (se_create se) (se_wait se) \<and>
     NewManager (se_os se) (se_parse6 se) (se_ip_route se) cfg h = (Inr m, h')"
  using assms mock.vm_launcher_axioms real_vms.vm_launcher_axioms
  by (auto simp: pickLauncher_def split: if_splits prod.splits sum.splits)


text \<open>A start with the mock launcher, no configuration file but these settings, and an empty database.\<close>

definition ex_start :: "unit start_env" where
  "ex_start = \<lparr>se_yaml = (\<lambda>_ c. Some (c\<lparr>cf_PasswordFile := ''p'', cf_CookieSecretFile := ''s'', cf_UseMockLauncher := True\<rparr>)),
     se_fs = (\<lambda>_. File_data []), se_getenv = (\<lambda>_. []), se_path = ''c'', se_open = (\<lambda>_. True),
     se_exec = (\<lambda>_. Some), se_create_ok = True, se_flt = (\<lambda>_. F_none), se_entries = [], se_rows = (\<lambda>_. Map.empty),
     se_read = [''p'' \<mapsto> ''correct horse''], se_rnd = Some (replicate 32 1), se_os = (\<lambda>_ _. True), se_parse6 = (\<lambda>_. None),
     se_ip_route = None, se_create = ex_create_ok, se_wait = (\<lambda>s. (s, None)), se_mock_at = (0, 0), se_no_manager = ex_manager\<rparr>"

lemma ex_start_runs: "\<exists>d db h. daemon_start ex_start \<lparr>pg_migrations = None, pg_data = ()\<rparr> [] = (Inr d, db, h)"
proof -
  have "\<exists>c. Load (se_yaml ex_start) (se_fs ex_start) (se_getenv ex_start) (se_path ex_start) = Inr c \<and>
      cf_PasswordFile c = ''p'' \<and> cf_CookieSecretFile c = ''s'' \<and> cf_UseMockLauncher c"
    by (simp add: ex_start_def Load_def finish_load_def Let_def validate_def applyEnv_def env_str_def env_num_def env_bool_def
        Defaults_def)
  then obtain c where c: "Load (se_yaml ex_start) (se_fs ex_start) (se_getenv ex_start) (se_path ex_start) = Inr c"
    "cf_PasswordFile c = ''p''" "cf_CookieSecretFile c = ''s''" "cf_UseMockLauncher c" by blast
  have pw: "TrimSpace ''correct horse'' = ''correct horse''"
    by (rule TrimSpace_plain) (simp_all add: plain_char_def)
  have "\<exists>g h. start_gate ex_start c [] = (Inr g, h)"
    using c(2,3) by (simp add: start_gate_def ex_start_def NewGate_def pw loadOrCreateSecret_def perform_def)
  then obtain g h where g: "start_gate ex_start c [] = (Inr g, h)" by blast
  have m: "Migrate (se_exec ex_start) (se_create_ok ex_start) (se_flt ex_start) (se_entries ex_start)
      \<lparr>pg_migrations = None, pg_data = ()\<rparr> = (True, \<lparr>pg_migrations = Some [], pg_data = ()\<rparr>)"
    by (simp add: Migrate_def ex_start_def mig_names_def pg_applied_def)
  have "se_open ex_start (cf_DatabaseURL c)" by (simp add: ex_start_def)
  with c g m show ?thesis by (simp add: daemon_start_def pickLauncher_def)
qed


section \<open>A daemon that stops\<close>

definition reaped :: "sessions_table \<Rightarrow> uuid \<Rightarrow> bool" where
  "reaped t u \<longleftrightarrow> (case t u of None \<Rightarrow> True | Some row \<Rightarrow> ds_ReapedAt row \<noteq> None)"

lemma reaped_mark:
  "reaped t u \<Longrightarrow> reaped (snd (MarkSessionReaped res now k t)) u"
  "res \<noteq> DB_failed \<Longrightarrow> reaped (snd (MarkSessionReaped res now u t)) u"
proof -
  show "res \<noteq> DB_failed \<Longrightarrow> reaped (snd (MarkSessionReaped res now u t)) u"
    by (auto simp: reaped_def MarkSessionReaped_same split: option.split)
  assume r: "reaped t u"
  show "reaped (snd (MarkSessionReaped res now k t)) u"
  proof (cases "k = u")
    case True
    with r show ?thesis by (auto simp: reaped_def MarkSessionReaped_same split: option.splits)
  next
    case False
    with r show ?thesis by (simp add: reaped_def MarkSessionReaped_other)
  qed
qed

lemma api_Destroy_pool: "w_pool (as_world (snd (api_Destroy env sid st))) = w_pool (as_world st)"
  by (auto simp: api_Destroy_def host_Destroy_def host_remove_def host_teardown_def call_onGone_def upd_session_def Let_def
      split: option.splits prod.splits)

abbreviation destroy_ref :: "api_env \<Rightarrow> sref \<Rightarrow> api_state \<Rightarrow> api_state" where
  "destroy_ref env ref st \<equiv> snd (api_Destroy env (ss_ID (w_store (as_world st) ref)) st)"

lemma ran_remove:
  assumes "m k = Some r" "\<And>k'. m k' = Some r \<Longrightarrow> k' = k"
  shows "ran (m(k := None)) = ran m - {r}"
proof (intro set_eqI iffI)
  fix x
  assume "x \<in> ran (m(k := None))"
  then obtain a where a: "a \<noteq> k" "m a = Some x" by (auto simp: ran_def split: if_splits)
  then have "x \<noteq> r" using assms(2) [of a] by blast
  with a(2) show "x \<in> ran m - {r}" by (simp add: ranI)
next
  fix x
  assume "x \<in> ran m - {r}"
  then obtain a where a: "m a = Some x" "x \<noteq> r" by (auto simp: ran_def)
  then have "(m(k := None)) a = Some x" using assms(1) by auto
  then show "x \<in> ran (m(k := None))" by (rule ranI)
qed

lemma destroy_one:
  assumes "api_inv (ae_uuid_Parse env) st" "ref \<in> ran (w_live (as_world st))" "ae_mark env \<noteq> DB_failed"
    and "st1 = destroy_ref env ref st"
  shows "api_inv (ae_uuid_Parse env) st1" "ran (w_live (as_world st1)) = ran (w_live (as_world st)) - {ref}"
    "w_gone (as_world st1) = w_gone (as_world st) @ [ref]"
    "w_store (as_world st1) = (w_store (as_world st))(ref := CloseDone (w_store (as_world st) ref))"
    "\<And>x. reaped (as_table st) x \<Longrightarrow> reaped (as_table st1) x"
    "\<And>k u. k \<in> dom (w_live (as_world st)) \<Longrightarrow> ae_uuid_Parse env k = Some u \<Longrightarrow>
       k \<in> dom (w_live (as_world st1)) \<or> reaped (as_table st1) u"
proof -
  let ?k = "ss_ID (w_store (as_world st) ref)"
  have one: "k = ?k" if "w_live (as_world st) k = Some ref" for k
    using api_invE [OF assms(1) that] by metis
  with assms(2) have k: "w_live (as_world st) ?k = Some ref" by (auto simp: ran_def)
  obtain e where d: "api_Destroy env ?k st = (e, st1)" using assms(4) by (metis prod.collapse)
  note g = api_Destroy_live [OF k api_inv_onGone [OF assms(1)] d]
  obtain u where u: "ae_uuid_Parse env ?k = Some u" using api_invE [OF assms(1) k] by metis
  have t: "as_table st1 = snd (MarkSessionReaped (ae_mark env) (ae_dbnow env) u (as_table st))"
    using g(7) u by simp
  show "api_inv (ae_uuid_Parse env) st1" by (rule api_inv_Destroy [OF assms(1) k d])
  show "ran (w_live (as_world st1)) = ran (w_live (as_world st)) - {ref}"
    unfolding g(2) using ran_remove [of "w_live (as_world st)", OF k] one by blast
  show "w_gone (as_world st1) = w_gone (as_world st) @ [ref]"
    "w_store (as_world st1) = (w_store (as_world st))(ref := CloseDone (w_store (as_world st) ref))"
    using g(3,4) by simp_all
  show "reaped (as_table st1) x" if "reaped (as_table st) x" for x
    unfolding t using reaped_mark(1) [OF that] .
  show "k \<in> dom (w_live (as_world st1)) \<or> reaped (as_table st1) v"
    if "k \<in> dom (w_live (as_world st))" "ae_uuid_Parse env k = Some v" for k v
    using that u reaped_mark(2) [OF assms(3), of "ae_dbnow env" u "as_table st"]
    by (cases "k = ?k") (simp_all add: g(2) t)
qed

text \<open>After all the listed sessions: these are gone, the rest is as before.\<close>

lemma destroy_listed:
  assumes "api_inv (ae_uuid_Parse env) st" "distinct order" "set order = ran (w_live (as_world st))"
    and "ae_mark env \<noteq> DB_failed" "st' = fold (destroy_ref env) order st"
  shows "w_live (as_world st') = Map.empty \<and> w_gone (as_world st') = w_gone (as_world st) @ order \<and>
     w_pool (as_world st') = w_pool (as_world st) \<and>
     (\<forall>ref. w_store (as_world st') ref =
        (if ref \<in> set order then CloseDone (w_store (as_world st) ref) else w_store (as_world st) ref)) \<and>
     (\<forall>k u. k \<in> dom (w_live (as_world st)) \<and> ae_uuid_Parse env k = Some u \<longrightarrow> reaped (as_table st') u) \<and>
     (\<forall>u. reaped (as_table st) u \<longrightarrow> reaped (as_table st') u)"
  using assms
proof (induction order arbitrary: st)
  case Nil
  then have "w_live (as_world st) k = None" for k by (cases "w_live (as_world st) k") (auto simp: ran_def)
  then have "w_live (as_world st) = Map.empty" by blast
  with Nil show ?case by simp
next
  case (Cons ref order)
  let ?st1 = "destroy_ref env ref st"
  have "ref \<in> ran (w_live (as_world st))" using Cons.prems(3) by auto
  note one = destroy_one [OF Cons.prems(1) this Cons.prems(4) refl]
  have rest: "set order = ran (w_live (as_world ?st1))" and dist: "distinct order" "ref \<notin> set order"
    using Cons.prems(2,3) one(2) by auto
  have st': "st' = fold (destroy_ref env) order ?st1" using Cons.prems(5) by simp
  from Cons.IH [OF one(1) dist(1) rest Cons.prems(4) st'] have r: "w_live (as_world st') = Map.empty"
    "w_gone (as_world st') = w_gone (as_world ?st1) @ order" "w_pool (as_world st') = w_pool (as_world ?st1)"
    "\<And>x. w_store (as_world st') x =
       (if x \<in> set order then CloseDone (w_store (as_world ?st1) x) else w_store (as_world ?st1) x)"
    "\<And>k x. k \<in> dom (w_live (as_world ?st1)) \<Longrightarrow> ae_uuid_Parse env k = Some x \<Longrightarrow> reaped (as_table st') x"
    "\<And>x. reaped (as_table ?st1) x \<Longrightarrow> reaped (as_table st') x" by blast+
  have "reaped (as_table st') x" if "k \<in> dom (w_live (as_world st))" "ae_uuid_Parse env k = Some x" for k x
    using one(6) [OF that] r(5) [OF _ that(2)] r(6) by blast
  moreover have "w_store (as_world st') x =
      (if x \<in> set (ref # order) then CloseDone (w_store (as_world st) x) else w_store (as_world st) x)" for x
    using r(4) [of x] dist(2) by (auto simp: one(4))
  moreover have "w_gone (as_world st') = w_gone (as_world st) @ ref # order" "w_pool (as_world st') = w_pool (as_world st)"
    using r(2,3) one(3) by (simp_all add: api_Destroy_pool)
  ultimately show ?case using r(1,6) one(5) by blast
qed



text \<open>The VMs that wait in the warm pool are not sessions of the host: they outlive the daemon.\<close>

theorem warm_vms_outlive:
  assumes "api_inv (ae_uuid_Parse env) st" "host_List (as_world st) order" "ae_mark env \<noteq> DB_failed"
    and "w_pool (as_world st) = Some p"
  shows "\<exists>p'. w_pool (as_world (daemon_stop env order st)) = Some p' \<and> wp_ready p' = wp_ready p"
proof -
  have o: "distinct order" "set order = ran (w_live (as_world st))" using assms(2) by (simp_all add: host_List_def)
  show ?thesis
    using destroy_listed [OF assms(1) o assms(3) refl] assms(4) by (simp add: daemon_stop_def Let_def pool_Stop_def)
qed

end
