(* ===== verification/Keys.thy ===== *)
theory Keys
  imports Json
begin

text \<open>
  The API key pool of \<open>proxy/internal/keys/keys.go\<close>: loading the pool from the
  environment, \<open>New\<close>, \<open>Replace\<close>, the minting, registration and revocation of session
  tokens, and the resolution of a token to the secret of its key. Randomness is an
  argument of the operations that draw it.
\<close>

record api_key =
  key_ID :: string
  key_Workspace :: string
  key_Secret :: string

record key_pool =
  p_keys :: "api_key list"
  p_sessionToKey :: "string \<rightharpoonup> string"
  p_keyBySecret :: "string \<rightharpoonup> api_key"
  p_rr :: nat

datatype keys_error =
    ErrEmptyPool
  | ErrParse
  | ErrMissing nat
  | ErrKeyRevoked
  | ErrUnknownSession
  | ErrRand

definition zero_key :: api_key where
  "zero_key = \<lparr>key_ID = [], key_Workspace = [], key_Secret = []\<rparr>"

text \<open>The JSON tags of \<open>Key\<close>.\<close>

definition dec_key :: "api_key decoder" where
  "dec_key = dec_struct (\<lambda>f v k.
     if f = fold_name ''id'' then (case dec_string v (key_ID k) of (w, ok) \<Rightarrow> (k\<lparr>key_ID := w\<rparr>, ok))
     else if f = fold_name ''workspace'' then
       (case dec_string v (key_Workspace k) of (w, ok) \<Rightarrow> (k\<lparr>key_Workspace := w\<rparr>, ok))
     else if f = fold_name ''secret'' then
       (case dec_string v (key_Secret k) of (w, ok) \<Rightarrow> (k\<lparr>key_Secret := w\<rparr>, ok))
     else (k, True))"

definition dec_keys :: "api_key list decoder" where
  "dec_keys = dec_slice zero_key dec_key"

text \<open>\<open>LoadFromEnv\<close>: \<open>raw\<close> is the environment variable, empty when it is unset.\<close>

fun check_entries :: "nat \<Rightarrow> api_key list \<Rightarrow> keys_error option" where
  "check_entries i [] = None"
| "check_entries i (k # ks) =
     (if key_ID k = [] \<or> key_Secret k = [] then Some (ErrMissing i) else check_entries (Suc i) ks)"

definition LoadFromEnv :: "string \<Rightarrow> keys_error + api_key list" where
  "LoadFromEnv raw =
     (if raw = [] then Inl ErrEmptyPool
      else case unmarshal_into dec_keys [] raw of
             None \<Rightarrow> Inl ErrParse
           | Some ks \<Rightarrow>
               if ks = [] then Inl ErrEmptyPool
               else (case check_entries 0 ks of Some e \<Rightarrow> Inl e | None \<Rightarrow> Inr ks))"

text \<open>The loop of \<open>Replace\<close> that fills the index, later entries winning.\<close>

fun index_keys :: "api_key list \<Rightarrow> (string \<rightharpoonup> api_key) \<Rightarrow> (string \<rightharpoonup> api_key)" where
  "index_keys [] m = m"
| "index_keys (k # ks) m = index_keys ks (m(key_ID k \<mapsto> k))"

definition Replace :: "api_key list \<Rightarrow> key_pool \<Rightarrow> key_pool" where
  "Replace nxt p = p\<lparr>p_keys := nxt, p_keyBySecret := index_keys nxt Map.empty\<rparr>"

definition keys_New :: "api_key list \<Rightarrow> key_pool" where
  "keys_New initial =
     Replace initial \<lparr>p_keys = [], p_sessionToKey = Map.empty, p_keyBySecret = Map.empty, p_rr = 0\<rparr>"

text \<open>\<open>randomToken\<close>: the 32 random bytes are \<open>rnd\<close>; \<open>None\<close> is a failure of the generator.\<close>

definition randomToken :: "8 word list option \<Rightarrow> keys_error + string" where
  "randomToken rnd =
     (case rnd of None \<Rightarrow> Inl ErrRand | Some b \<Rightarrow> Inr (''sess_'' @ hex_encode b))"

text \<open>Round robin: \<open>key := p.keys[p.rr % len(p.keys)]; p.rr++; p.sessionToKey[token] = key.ID\<close>.\<close>

definition assign_key :: "string \<Rightarrow> key_pool \<Rightarrow> key_pool" where
  "assign_key token p =
     p\<lparr>p_rr := p_rr p + 1,
       p_sessionToKey := (p_sessionToKey p)(token \<mapsto> key_ID (p_keys p ! (p_rr p mod length (p_keys p))))\<rparr>"

definition MintSessionToken :: "8 word list option \<Rightarrow> key_pool \<Rightarrow> key_pool \<times> (keys_error + string)" where
  "MintSessionToken rnd p =
     (if p_keys p = [] then (p, Inl ErrEmptyPool)
      else case randomToken rnd of
             Inl e \<Rightarrow> (p, Inl e)
           | Inr token \<Rightarrow> (assign_key token p, Inr token))"

definition RegisterSessionToken :: "string \<Rightarrow> key_pool \<Rightarrow> key_pool \<times> (keys_error + unit)" where
  "RegisterSessionToken token p =
     (if p_keys p = [] then (p, Inl ErrEmptyPool) else (assign_key token p, Inr ()))"

definition RevokeSessionToken :: "string \<Rightarrow> key_pool \<Rightarrow> key_pool" where
  "RevokeSessionToken token p = p\<lparr>p_sessionToKey := (p_sessionToKey p)(token := None)\<rparr>"

definition SecretForSession :: "string \<Rightarrow> key_pool \<Rightarrow> keys_error + string \<times> string" where
  "SecretForSession token p =
     (case p_sessionToKey p token of
        None \<Rightarrow> Inl ErrUnknownSession
      | Some keyID \<Rightarrow>
          (case p_keyBySecret p keyID of
             None \<Rightarrow> Inl ErrKeyRevoked
           | Some k \<Rightarrow> Inr (key_Secret k, keyID)))"

record key_stats =
  st_Keys :: nat
  st_ActiveSessions :: nat
  st_LastRotation :: "go_time option"

definition pool_Stats :: "key_pool \<Rightarrow> key_stats" where
  "pool_Stats p =
     \<lparr>st_Keys = length (p_keys p), st_ActiveSessions = card (dom (p_sessionToKey p)), st_LastRotation = None\<rparr>"

text \<open>The calls of the proxy on the pool, and a sequence of them.\<close>

datatype pool_op =
    P_mint "8 word list option"
  | P_register string
  | P_revoke string
  | P_replace "api_key list"

fun pool_step :: "pool_op \<Rightarrow> key_pool \<Rightarrow> key_pool" where
  "pool_step (P_mint r) p = fst (MintSessionToken r p)"
| "pool_step (P_register t) p = fst (RegisterSessionToken t p)"
| "pool_step (P_revoke t) p = RevokeSessionToken t p"
| "pool_step (P_replace ks) p = Replace ks p"

fun pool_run :: "pool_op list \<Rightarrow> key_pool \<Rightarrow> key_pool" where
  "pool_run [] p = p"
| "pool_run (x # xs) p = pool_run xs (pool_step x p)"

fun register_all :: "string list \<Rightarrow> key_pool \<Rightarrow> key_pool" where
  "register_all [] p = p"
| "register_all (t # ts) p = register_all ts (fst (RegisterSessionToken t p))"

text \<open>The tokens an operation can give a mapping to.\<close>

fun op_token :: "pool_op \<Rightarrow> string option" where
  "op_token (P_mint (Some b)) = Some (''sess_'' @ hex_encode b)"
| "op_token (P_register t) = Some t"
| "op_token _ = None"

definition indexed :: "key_pool \<Rightarrow> bool" where
  "indexed p \<longleftrightarrow> p_keyBySecret p = index_keys (p_keys p) Map.empty"

text \<open>How many of \<open>m\<close> consecutive assignments, starting at counter \<open>r\<close>, go to entry \<open>i\<close> of \<open>n\<close>.\<close>

definition slot_count :: "nat \<Rightarrow> nat \<Rightarrow> nat \<Rightarrow> nat \<Rightarrow> nat" where
  "slot_count r n m i = card {j. j < m \<and> (r + j) mod n = i}"

definition key_json :: "api_key \<Rightarrow> json" where
  "key_json k =
     JObj [(''id'', JStr (key_ID k)), (''workspace'', JStr (key_Workspace k)), (''secret'', JStr (key_Secret k))]"

definition ascii_key :: "api_key \<Rightarrow> bool" where
  "ascii_key k \<longleftrightarrow> ascii (key_ID k) \<and> ascii (key_Workspace k) \<and> ascii (key_Secret k)"

text \<open>
  What the forwarder relies on: a revoked token no longer resolves, and revoking it does
  not touch the others.
\<close>

locale token_resolver =
  fixes resolve :: "'t \<Rightarrow> 'p \<Rightarrow> 'e + 'r"
    and revoke :: "'t \<Rightarrow> 'p \<Rightarrow> 'p"
    and unknown :: 'e
  assumes resolve_revoked: "resolve t (revoke t p) = Inl unknown"
    and resolve_other: "t \<noteq> t' \<Longrightarrow> resolve t' (revoke t p) = resolve t' p"
begin

lemma resolve_revoke_all:
  "resolve t (fold revoke ts p) = (if t \<in> set ts then Inl unknown else resolve t p)"
proof (induction ts rule: rev_induct)
  case (snoc x ts)
  then show ?case
    by (cases "x = t") (simp_all add: resolve_revoked resolve_other)
qed simp

end

interpretation pool_tokens: token_resolver SecretForSession RevokeSessionToken ErrUnknownSession
  by unfold_locales (auto simp: SecretForSession_def RevokeSessionToken_def split: option.split)

section \<open>Lemmas\<close>

lemma index_keys_map_of: "index_keys ks m = m ++ map_of (rev (map (\<lambda>k. (key_ID k, k)) ks))"
  by (induction ks arbitrary: m) simp_all

lemma index_keys_Some: "index_keys ks Map.empty kid = Some k \<Longrightarrow> k \<in> set ks \<and> key_ID k = kid"
  by (auto simp: index_keys_map_of dest!: map_of_SomeD)

lemma index_keys_None: "index_keys ks Map.empty kid = None \<longleftrightarrow> (\<forall>k\<in>set ks. key_ID k \<noteq> kid)"
  by (auto simp: index_keys_map_of map_of_eq_None_iff image_image)

lemma index_keys_distinct:
  assumes "distinct (map key_ID ks)" "k \<in> set ks"
  shows "index_keys ks Map.empty (key_ID k) = Some k"
proof -
  have "distinct (map fst (rev (map (\<lambda>k. (key_ID k, k)) ks)))"
    using assms(1) by (simp add: rev_map [symmetric] comp_def)
  then show ?thesis
    using assms(2) by (simp add: index_keys_map_of)
qed

lemma assign_key_simps [simp]:
  "p_keys (assign_key t p) = p_keys p" "p_rr (assign_key t p) = Suc (p_rr p)"
  "p_keyBySecret (assign_key t p) = p_keyBySecret p"
  "p_sessionToKey (assign_key t p) =
     (p_sessionToKey p)(t \<mapsto> key_ID (p_keys p ! (p_rr p mod length (p_keys p))))"
  by (simp_all add: assign_key_def)

lemma indexed_step: "indexed p \<Longrightarrow> indexed (pool_step x p)"
  by (cases x)
    (auto simp: indexed_def MintSessionToken_def RegisterSessionToken_def RevokeSessionToken_def Replace_def
      split: sum.split)

lemma indexed_run: "indexed p \<Longrightarrow> indexed (pool_run xs p)"
  by (induction xs p rule: pool_run.induct) (simp_all add: indexed_step)

lemma indexed_New: "indexed (keys_New ks)"
  by (simp add: indexed_def keys_New_def Replace_def)

lemma step_unmapped:
  assumes "op_token x \<noteq> Some t" "p_sessionToKey p t = None"
  shows "p_sessionToKey (pool_step x p) t = None"
proof (cases x)
  case (P_mint r)
  then show ?thesis
    using assms by (cases r) (simp_all add: MintSessionToken_def randomToken_def)
qed (use assms in \<open>auto simp: RegisterSessionToken_def RevokeSessionToken_def Replace_def\<close>)

lemma run_unmapped:
  "\<forall>x\<in>set xs. op_token x \<noteq> Some t \<Longrightarrow> p_sessionToKey p t = None \<Longrightarrow> p_sessionToKey (pool_run xs p) t = None"
  by (induction xs arbitrary: p) (simp_all add: step_unmapped)

lemma register_all_keys [simp]:
  "p_keys (register_all ts p) = p_keys p" "p_keyBySecret (register_all ts p) = p_keyBySecret p"
  by (induction ts arbitrary: p) (simp_all add: RegisterSessionToken_def)

lemma register_all_other: "t \<notin> set ts \<Longrightarrow> p_sessionToKey (register_all ts p) t = p_sessionToKey p t"
  by (induction ts arbitrary: p) (simp_all add: RegisterSessionToken_def)

lemma register_all_nth:
  assumes "p_keys p \<noteq> []" "distinct ts" "j < length ts"
  shows "p_sessionToKey (register_all ts p) (ts ! j)
       = Some (key_ID (p_keys p ! ((p_rr p + j) mod length (p_keys p))))"
  using assms
proof (induction ts arbitrary: p j)
  case (Cons t ts)
  have r: "fst (RegisterSessionToken t p) = assign_key t p"
    using Cons.prems(1) by (simp add: RegisterSessionToken_def)
  show ?case
  proof (cases j)
    case 0
    then show ?thesis
      using Cons.prems by (simp add: r register_all_other)
  next
    case (Suc i)
    then show ?thesis
      using Cons.IH [of "assign_key t p" i] Cons.prems by (simp add: r)
  qed
qed simp

lemma slot_count_add: "slot_count r n (k + m) i = slot_count r n k i + slot_count (r + k) n m i"
proof -
  have "{j. j < k + m \<and> (r + j) mod n = i}
      = {j. j < k \<and> (r + j) mod n = i} \<union> (+) k ` {j. j < m \<and> (r + k + j) mod n = i}"
  proof (intro set_eqI iffI)
    fix j
    assume j: "j \<in> {j. j < k + m \<and> (r + j) mod n = i}"
    show "j \<in> {j. j < k \<and> (r + j) mod n = i} \<union> (+) k ` {j. j < m \<and> (r + k + j) mod n = i}"
    proof (cases "j < k")
      case False
      then have "j = k + (j - k)" "j - k < m" "(r + k + (j - k)) mod n = i"
        using j by auto
      then show ?thesis
        by blast
    qed (use j in simp)
  qed (auto simp: add.assoc)
  moreover have "{j. j < k \<and> (r + j) mod n = i} \<inter> (+) k ` {j. j < m \<and> (r + k + j) mod n = i} = {}"
    by auto
  ultimately show ?thesis
    by (simp add: slot_count_def card_Un_disjoint card_image)
qed

lemma slot_count_le_1:
  assumes "m \<le> n"
  shows "slot_count r n m i \<le> 1"
proof -
  have le: "x = y" if "x \<le> y" "y < m" "(r + x) mod n = (r + y) mod n" for x y
  proof -
    have "n dvd y - x"
      using that mod_eq_dvd_iff_nat [of "r + x" "r + y" n] by simp
    then show ?thesis
      using that assms by (auto dest: dvd_imp_le)
  qed
  have "x = y" if "x < m" "y < m" "(r + x) mod n = (r + y) mod n" for x y
    using le [of x y] le [of y x] that by (cases "x \<le> y") simp_all
  then have "card {j. j < m \<and> (r + j) mod n = i} \<le> Suc 0"
    by (subst card_le_Suc0_iff_eq) auto
  then show ?thesis
    by (simp add: slot_count_def)
qed

lemma slot_count_full:
  assumes "i < n"
  shows "slot_count r n n i = 1"
proof -
  let ?j = "(i + (n - r mod n)) mod n"
  have "r + (i + (n - r mod n)) = n * (r div n) + i + n"
    using assms mod_less_divisor [of n r] mult_div_mod_eq [of n r] by linarith
  then have "(r + ?j) mod n = i"
    using assms by (simp add: mod_simps)
  moreover have "?j < n"
    using assms by simp
  ultimately have "{j. j < n \<and> (r + j) mod n = i} \<noteq> {}"
    by blast
  then have "0 < slot_count r n n i"
    by (simp add: slot_count_def card_gt_0_iff)
  then show ?thesis
    using slot_count_le_1 [of n n r i] by simp
qed

lemma slot_count_balanced:
  assumes "i < n"
  shows "m div n \<le> slot_count r n m i \<and> slot_count r n m i \<le> m div n + 1"
proof (induction m arbitrary: r rule: less_induct)
  case (less m)
  show ?case
  proof (cases "m < n")
    case True
    then show ?thesis
      using slot_count_le_1 [of m n r i] by simp
  next
    case False
    have "slot_count r n m i = 1 + slot_count (r + n) n (m - n) i"
      using slot_count_add [of r n n "m - n" i] slot_count_full [OF assms, of r] False by simp
    moreover have "m div n = 1 + (m - n) div n"
      using False assms by (simp add: le_div_geq)
    ultimately show ?thesis
      using less [of "m - n" "r + n"] False assms by simp
  qed
qed

lemma register_slots:
  assumes "p_keys p \<noteq> []" "distinct (map key_ID (p_keys p))" "distinct ts" "i < length (p_keys p)"
  shows "card {t \<in> set ts. p_sessionToKey (register_all ts p) t = Some (key_ID (p_keys p ! i))}
       = slot_count (p_rr p) (length (p_keys p)) (length ts) i"
proof -
  let ?n = "length (p_keys p)"
  have "{t \<in> set ts. p_sessionToKey (register_all ts p) t = Some (key_ID (p_keys p ! i))}
      = (!) ts ` {j. j < length ts \<and> (p_rr p + j) mod ?n = i}"
  proof (intro set_eqI iffI)
    fix t
    assume t: "t \<in> {t \<in> set ts. p_sessionToKey (register_all ts p) t = Some (key_ID (p_keys p ! i))}"
    then obtain j where j: "j < length ts" "t = ts ! j"
      by (auto simp: in_set_conv_nth)
    have "key_ID (p_keys p ! ((p_rr p + j) mod ?n)) = key_ID (p_keys p ! i)"
      using t register_all_nth [OF assms(1,3) j(1)] j(2) by simp
    then have "(p_rr p + j) mod ?n = i"
      using assms nth_eq_iff_index_eq [OF assms(2), of "(p_rr p + j) mod ?n" i] by simp
    then show "t \<in> (!) ts ` {j. j < length ts \<and> (p_rr p + j) mod ?n = i}"
      using j by blast
  qed (use register_all_nth [OF assms(1,3)] in auto)
  moreover have "inj_on ((!) ts) {j. j < length ts \<and> (p_rr p + j) mod ?n = i}"
    by (rule inj_on_nth [OF assms(3)]) auto
  ultimately show ?thesis
    by (simp add: card_image slot_count_def)
qed

lemma map_of_rev_find: "map_of (map (\<lambda>k. (key_ID k, k)) ks) kid = find (\<lambda>k. key_ID k = kid) ks"
  by (induction ks) auto

lemma index_keys_find: "index_keys ks Map.empty kid = find (\<lambda>k. key_ID k = kid) (rev ks)"
  by (simp add: index_keys_map_of rev_map map_of_rev_find)

lemma check_entries_None: "check_entries i ks = None \<longleftrightarrow> (\<forall>k\<in>set ks. key_ID k \<noteq> [] \<and> key_Secret k \<noteq> [])"
  by (induction i ks rule: check_entries.induct) auto

lemma fold_name_keys [simp]:
  "fold_name ''id'' = ''ID''" "fold_name ''workspace'' = ''WORKSPACE''" "fold_name ''secret'' = ''SECRET''"
  by code_simp+

lemma dec_key_json [simp]: "dec_key (key_json k) zero_key = (k, True)"
  by (simp add: dec_key_def dec_struct_def key_json_def dec_string_def zero_key_def)

lemma dec_keys_json [simp]: "dec_keys (JArr (map key_json ks)) [] = (ks, True)"
  by (simp add: dec_keys_def dec_slice_def comp_def list_all_iff)

lemma keys_json_readable:
  assumes "list_all ascii_key ks"
  shows "int_json (JArr (map key_json ks))" "depth (JArr (map key_json ks)) \<le> max_nesting"
proof -
  have "ascii ''id''" "ascii ''workspace''" "ascii ''secret''"
    by code_simp+
  then show "int_json (JArr (map key_json ks))"
    using assms by (auto simp: list_all_iff key_json_def ascii_key_def)
  have "depth (key_json k) = 1" for k
    by (simp add: key_json_def)
  then have "foldr (\<lambda>v n. max (depth v) n) (map key_json ks) 0 \<le> 1"
    by (subst foldr_max_le) (simp add: list_all_iff)
  then show "depth (JArr (map key_json ks)) \<le> max_nesting"
    by (simp add: max_nesting_def)
qed

lemma unmarshal_keys_json:
  "list_all ascii_key ks \<Longrightarrow> unmarshal_into dec_keys [] (print_json (JArr (map key_json ks))) = Some ks"
  using json_unmarshal_print [OF keys_json_readable] by (simp add: unmarshal_into_def del: print_json.simps)

text \<open>
  Round robin. When tokens are registered one after the other on a pool with distinct
  key ids, the \<open>j\<close>-th resolves to the secret of key \<open>(rr + j) mod n\<close>, and every one of the
  \<open>n\<close> keys serves \<open>m div n\<close> or \<open>m div n + 1\<close> of the \<open>m\<close> tokens.
\<close>

theorem keys_round_robin:
  assumes "indexed p" "p_keys p \<noteq> []" "distinct (map key_ID (p_keys p))" "distinct ts"
  shows "(\<forall>j < length ts.
            let k = p_keys p ! ((p_rr p + j) mod length (p_keys p))
            in SecretForSession (ts ! j) (register_all ts p) = Inr (key_Secret k, key_ID k))
       \<and> (\<forall>i < length (p_keys p).
            card {t \<in> set ts. p_sessionToKey (register_all ts p) t = Some (key_ID (p_keys p ! i))}
              \<in> {length ts div length (p_keys p), length ts div length (p_keys p) + 1})"
proof (intro conjI allI impI)
  fix j
  assume j: "j < length ts"
  let ?k = "p_keys p ! ((p_rr p + j) mod length (p_keys p))"
  have "index_keys (p_keys p) Map.empty (key_ID ?k) = Some ?k"
    using assms(2) by (intro index_keys_distinct [OF assms(3)] nth_mem) simp
  then show "let k = ?k in SecretForSession (ts ! j) (register_all ts p) = Inr (key_Secret k, key_ID k)"
    using register_all_nth [OF assms(2,4) j] assms(1) by (simp add: SecretForSession_def indexed_def)
next
  fix i
  assume i: "i < length (p_keys p)"
  show "card {t \<in> set ts. p_sessionToKey (register_all ts p) t = Some (key_ID (p_keys p ! i))}
      \<in> {length ts div length (p_keys p), length ts div length (p_keys p) + 1}"
    using slot_count_balanced [OF i, of "length ts" "p_rr p"] register_slots [OF assms(2-4) i] by auto
qed

theorem keys_round_robin_witness:
  "let p = keys_New [\<lparr>key_ID = ''a'', key_Workspace = [], key_Secret = ''s1''\<rparr>,
                     \<lparr>key_ID = ''b'', key_Workspace = [], key_Secret = ''s2''\<rparr>];
       q = register_all [''t0'', ''t1'', ''t2''] p
   in SecretForSession ''t2'' q = Inr (''s1'', ''a'')
    \<and> card {t \<in> set [''t0'', ''t1'', ''t2'']. p_sessionToKey q t = Some ''b''} \<in> {1, 2}"
proof -
  let ?p = "keys_New [\<lparr>key_ID = ''a'', key_Workspace = [], key_Secret = ''s1''\<rparr>,
                      \<lparr>key_ID = ''b'', key_Workspace = [], key_Secret = ''s2''\<rparr>]"
  have p: "indexed ?p" "p_keys ?p \<noteq> []" "distinct (map key_ID (p_keys ?p))" "distinct [''t0'', ''t1'', ''t2'']"
    by (simp_all add: indexed_New) (simp_all add: keys_New_def Replace_def)
  have s: "p_rr ?p = 0" "length (p_keys ?p) = 2" "p_keys ?p ! 0 = \<lparr>key_ID = ''a'', key_Workspace = [], key_Secret = ''s1''\<rparr>"
    "p_keys ?p ! 1 = \<lparr>key_ID = ''b'', key_Workspace = [], key_Secret = ''s2''\<rparr>"
    by (simp_all add: keys_New_def Replace_def)
  note R = keys_round_robin [OF p]
  have "SecretForSession ''t2'' (register_all [''t0'', ''t1'', ''t2''] ?p) = Inr (''s1'', ''a'')"
    using spec [OF conjunct1 [OF R], of 2] s by (simp add: Let_def del: register_all.simps)
  moreover have "card {t \<in> set [''t0'', ''t1'', ''t2''].
      p_sessionToKey (register_all [''t0'', ''t1'', ''t2''] ?p) t = Some ''b''} \<in> {1, Suc 1}"
    using spec [OF conjunct2 [OF R], of 1] s by (simp del: register_all.simps)
  ultimately show ?thesis
    by (simp only: Let_def simp_thms numeral_2_eq_2 One_nat_def)
qed

text \<open>
  C30: rotation. Whatever happened since the pool was built, a token resolves only to the
  secret of a key that is in the pool now; and after \<open>Replace\<close> a mapped token resolves to
  the new secret of its key id (the last such entry) or, when the id is gone, to
  \<open>ErrKeyRevoked\<close>.
\<close>

theorem keys_rotation:
  shows "(SecretForSession t (pool_run xs (keys_New ks)) = Inr (sec, kid) \<longrightarrow>
            (\<exists>k \<in> set (p_keys (pool_run xs (keys_New ks))). key_ID k = kid \<and> key_Secret k = sec))
       \<and> SecretForSession t (Replace nxt (pool_run xs (keys_New ks)))
           = (case p_sessionToKey (pool_run xs (keys_New ks)) t of
                None \<Rightarrow> Inl ErrUnknownSession
              | Some kid \<Rightarrow>
                  (case find (\<lambda>k. key_ID k = kid) (rev nxt) of
                     None \<Rightarrow> Inl ErrKeyRevoked
                   | Some k \<Rightarrow> Inr (key_Secret k, kid)))"
proof
  show "SecretForSession t (pool_run xs (keys_New ks)) = Inr (sec, kid) \<longrightarrow>
          (\<exists>k \<in> set (p_keys (pool_run xs (keys_New ks))). key_ID k = kid \<and> key_Secret k = sec)"
    using indexed_run [OF indexed_New, of xs ks]
    by (auto simp: SecretForSession_def indexed_def split: option.splits dest!: index_keys_Some)
qed (auto simp: SecretForSession_def Replace_def index_keys_find split: option.split)

theorem keys_rotation_witness:
  "SecretForSession ''t0''
     (Replace [\<lparr>key_ID = ''a'', key_Workspace = [], key_Secret = ''new''\<rparr>]
       (pool_run [P_register ''t0''] (keys_New [\<lparr>key_ID = ''a'', key_Workspace = [], key_Secret = ''old''\<rparr>])))
   = Inr (''new'', ''a'')
   \<and> (\<exists>k \<in> set (p_keys (pool_run [P_register ''t0'']
                 (keys_New [\<lparr>key_ID = ''a'', key_Workspace = [], key_Secret = ''old''\<rparr>]))).
        key_ID k = ''a'' \<and> key_Secret k = ''old'')"
  using keys_rotation [of "''t0''" "[P_register ''t0'']"
      "[\<lparr>key_ID = ''a'', key_Workspace = [], key_Secret = ''old''\<rparr>]" "''old''" "''a''"
      "[\<lparr>key_ID = ''a'', key_Workspace = [], key_Secret = ''new''\<rparr>]"]
  by (simp add: keys_New_def Replace_def RegisterSessionToken_def SecretForSession_def)

text \<open>
  Revocation. Once a token is revoked it is unknown, and it stays unknown through any
  further calls that do not mint or register that very token.
\<close>

theorem keys_revoked_unknown:
  assumes "\<forall>x \<in> set xs. op_token x \<noteq> Some t"
  shows "SecretForSession t (pool_run xs (RevokeSessionToken t p)) = Inl ErrUnknownSession"
  using run_unmapped [OF assms, of "RevokeSessionToken t p"]
  by (simp add: SecretForSession_def RevokeSessionToken_def)

theorem keys_revoked_unknown_witness:
  "SecretForSession ''t0'' (pool_run [P_register ''t1'', P_replace [], P_mint None]
      (RevokeSessionToken ''t0'' (keys_New []))) = Inl ErrUnknownSession"
  by (rule keys_revoked_unknown) simp

text \<open>
  Loading. A list accepted by \<open>LoadFromEnv\<close> is not empty and every entry has an id and
  a secret; and the JSON text of such a list of ASCII keys loads as that list.
\<close>

theorem keys_LoadFromEnv:
  shows "(LoadFromEnv raw = Inr ks \<longrightarrow> ks \<noteq> [] \<and> (\<forall>k\<in>set ks. key_ID k \<noteq> [] \<and> key_Secret k \<noteq> []))
       \<and> (list_all ascii_key ks \<and> ks \<noteq> [] \<and> (\<forall>k\<in>set ks. key_ID k \<noteq> [] \<and> key_Secret k \<noteq> []) \<longrightarrow>
            LoadFromEnv (print_json (JArr (map key_json ks))) = Inr ks)"
proof
  show "LoadFromEnv raw = Inr ks \<longrightarrow> ks \<noteq> [] \<and> (\<forall>k\<in>set ks. key_ID k \<noteq> [] \<and> key_Secret k \<noteq> [])"
    using check_entries_None [of 0 ks]
    by (auto simp: LoadFromEnv_def split: if_splits option.splits)
  show "list_all ascii_key ks \<and> ks \<noteq> [] \<and> (\<forall>k\<in>set ks. key_ID k \<noteq> [] \<and> key_Secret k \<noteq> []) \<longrightarrow>
          LoadFromEnv (print_json (JArr (map key_json ks))) = Inr ks"
    using check_entries_None [of 0 ks] unmarshal_keys_json [of ks]
    by (auto simp: LoadFromEnv_def)
qed

theorem keys_LoadFromEnv_witness:
  "LoadFromEnv (print_json (JArr (map key_json [\<lparr>key_ID = ''k1'', key_Workspace = ''w'', key_Secret = ''sk''\<rparr>])))
     = Inr [\<lparr>key_ID = ''k1'', key_Workspace = ''w'', key_Secret = ''sk''\<rparr>]"
proof -
  have "list_all ascii_key [\<lparr>key_ID = ''k1'', key_Workspace = ''w'', key_Secret = ''sk''\<rparr>]"
    by (simp add: ascii_key_def ascii_def)
  then show ?thesis
    using keys_LoadFromEnv [of "[]" "[\<lparr>key_ID = ''k1'', key_Workspace = ''w'', key_Secret = ''sk''\<rparr>]"]
    by simp
qed

end
