(* ===== verification/Quota.thy ===== *)
theory Quota
  imports Prelude
begin

text \<open>
  The per-session quota manager of \<open>proxy/internal/quota/quota.go\<close>: \<open>Limits\<close>, \<open>Usage\<close>,
  the buckets and the operations \<open>New\<close>, \<open>Reserve\<close>, \<open>Commit\<close>, \<open>Refund\<close>, \<open>Usage\<close> and
  \<open>Reset\<close>. Every operation runs under the mutex, so it is one function of the state and of
  the clock; concurrent requests are sequences of these operations. Counters are
  \<open>int64\<close> and wrap.
\<close>

record limits =
  MaxTokensIn :: int
  MaxTokensOut :: int
  MaxRequests :: int
  MaxRequestsPerMinute :: int

definition DefaultLimits :: limits where
  "DefaultLimits = \<lparr>MaxTokensIn = 60000, MaxTokensOut = 120000, MaxRequests = 60,
     MaxRequestsPerMinute = 12\<rparr>"

record usage =
  TokensIn :: int
  TokensOut :: int
  Requests :: int

definition no_usage :: usage where
  "no_usage = \<lparr>TokensIn = 0, TokensOut = 0, Requests = 0\<rparr>"

datatype quota_code = CodeTokensIn | CodeTokensOut | CodeRequests | CodeRateLimit

fun code_string :: "quota_code \<Rightarrow> string" where
  "code_string CodeTokensIn = ''tokens_in_exhausted''"
| "code_string CodeTokensOut = ''tokens_out_exhausted''"
| "code_string CodeRequests = ''requests_exhausted''"
| "code_string CodeRateLimit = ''rate_limit_per_minute''"

record quota_error =
  qe_code :: quota_code
  qe_retry :: duration
  qe_session :: string

record bucket =
  b_usage :: usage
  b_windowStart :: go_time
  b_windowCount :: int

record quota_manager =
  q_limits :: limits
  q_buckets :: "string \<rightharpoonup> bucket"

definition quota_New :: "limits \<Rightarrow> quota_manager" where
  "quota_New l =
     (let l = (if MaxTokensIn l \<le> 0 then DefaultLimits else l)
      in \<lparr>q_limits = l, q_buckets = Map.empty\<rparr>)"

text \<open>\<open>get\<close>: the bucket of a session, created empty with a window starting now.\<close>

definition get_bucket :: "go_time \<Rightarrow> string \<Rightarrow> quota_manager \<Rightarrow> bucket" where
  "get_bucket now sid m =
     (case q_buckets m sid of
        Some b \<Rightarrow> b
      | None \<Rightarrow> \<lparr>b_usage = no_usage, b_windowStart = now, b_windowCount = 0\<rparr>)"

definition put_bucket :: "string \<Rightarrow> bucket \<Rightarrow> quota_manager \<Rightarrow> quota_manager" where
  "put_bucket sid b m = m\<lparr>q_buckets := (q_buckets m)(sid \<mapsto> b)\<rparr>"

text \<open>The start of \<open>Reserve\<close>: open a new window when a minute has passed.\<close>

definition roll_window :: "go_time \<Rightarrow> bucket \<Rightarrow> bucket" where
  "roll_window now b =
     (if Minute \<le> time_sub now (b_windowStart b)
      then b\<lparr>b_windowStart := now, b_windowCount := 0\<rparr> else b)"

text \<open>The retry hint of a rate-limited request: the rest of the window, at least a second.\<close>

definition retry_after :: "go_time \<Rightarrow> bucket \<Rightarrow> duration" where
  "retry_after now b =
     (let retry = wrap64 (Minute - time_sub now (b_windowStart b))
      in if retry < Second then Second else retry)"

text \<open>
  \<open>Reserve\<close> reads the clock twice: \<open>t0\<close> is the reading inside \<open>get\<close>, which only a new
  bucket uses, and \<open>now\<close> the reading after it.
\<close>

definition Reserve :: "go_time \<Rightarrow> go_time \<Rightarrow> string \<Rightarrow> quota_manager \<Rightarrow> quota_manager \<times> (quota_error + unit)" where
  "Reserve t0 now sid m =
     (let b = roll_window now (get_bucket t0 sid m);
          m' = put_bucket sid b m
      in if MaxRequestsPerMinute (q_limits m) \<le> b_windowCount b then
           (m', Inl \<lparr>qe_code = CodeRateLimit, qe_retry = retry_after now b, qe_session = sid\<rparr>)
         else if MaxRequests (q_limits m) \<le> Requests (b_usage b) then
           (m', Inl \<lparr>qe_code = CodeRequests, qe_retry = 0, qe_session = sid\<rparr>)
         else if MaxTokensIn (q_limits m) \<le> TokensIn (b_usage b) then
           (m', Inl \<lparr>qe_code = CodeTokensIn, qe_retry = 0, qe_session = sid\<rparr>)
         else if MaxTokensOut (q_limits m) \<le> TokensOut (b_usage b) then
           (m', Inl \<lparr>qe_code = CodeTokensOut, qe_retry = 0, qe_session = sid\<rparr>)
         else
           (put_bucket sid (b\<lparr>b_windowCount := wrap64 (b_windowCount b + 1)\<rparr>) m, Inr ()))"

definition Commit :: "go_time \<Rightarrow> string \<Rightarrow> int \<Rightarrow> int \<Rightarrow> quota_manager \<Rightarrow> quota_manager" where
  "Commit now sid requestTokens responseTokens m =
     (let b = get_bucket now sid m; u = b_usage b
      in put_bucket sid
           (b\<lparr>b_usage :=
                \<lparr>TokensIn = wrap64 (TokensIn u + requestTokens),
                 TokensOut = wrap64 (TokensOut u + responseTokens),
                 Requests = wrap64 (Requests u + 1)\<rparr>\<rparr>) m)"

definition Refund :: "go_time \<Rightarrow> string \<Rightarrow> quota_manager \<Rightarrow> quota_manager" where
  "Refund now sid m =
     (let b = get_bucket now sid m
      in put_bucket sid
           (if 0 < b_windowCount b then b\<lparr>b_windowCount := b_windowCount b - 1\<rparr> else b) m)"

definition Usage :: "go_time \<Rightarrow> string \<Rightarrow> quota_manager \<Rightarrow> quota_manager \<times> usage" where
  "Usage now sid m =
     (let b = get_bucket now sid m in (put_bucket sid b m, b_usage b))"

definition Reset :: "string \<Rightarrow> quota_manager \<Rightarrow> quota_manager" where
  "Reset sid m = m\<lparr>q_buckets := (q_buckets m)(sid := None)\<rparr>"

text \<open>A schedule of operations, each with the clock reading it sees.\<close>

datatype quota_op =
    Op_reserve go_time go_time string
  | Op_commit go_time string int int
  | Op_refund go_time string
  | Op_usage go_time string
  | Op_reset string

fun quota_step :: "quota_op \<Rightarrow> quota_manager \<Rightarrow> quota_manager" where
  "quota_step (Op_reserve t0 t s) m = fst (Reserve t0 t s m)"
| "quota_step (Op_commit t s i out) m = Commit t s i out m"
| "quota_step (Op_refund t s) m = Refund t s m"
| "quota_step (Op_usage t s) m = fst (Usage t s m)"
| "quota_step (Op_reset s) m = Reset s m"

fun op_session :: "quota_op \<Rightarrow> string" where
  "op_session (Op_reserve t0 t s) = s"
| "op_session (Op_commit t s i out) = s"
| "op_session (Op_refund t s) = s"
| "op_session (Op_usage t s) = s"
| "op_session (Op_reset s) = s"

fun quota_run :: "quota_op list \<Rightarrow> quota_manager \<Rightarrow> quota_manager" where
  "quota_run [] m = m"
| "quota_run (x # xs) m = quota_run xs (quota_step x m)"

text \<open>Number of requests of one session that a schedule admits.\<close>

fun admits :: "string \<Rightarrow> quota_op \<Rightarrow> quota_manager \<Rightarrow> nat" where
  "admits sid (Op_reserve t0 t s) m = (if s = sid \<and> snd (Reserve t0 t s m) = Inr () then 1 else 0)"
| "admits sid _ m = 0"

fun admitted :: "string \<Rightarrow> quota_op list \<Rightarrow> quota_manager \<Rightarrow> nat" where
  "admitted sid [] m = 0"
| "admitted sid (x # xs) m = admits sid x m + admitted sid xs (quota_step x m)"

text \<open>
  The requests of one session in flight at the proxy: an admitted request is committed or
  refunded later, and other operations may come in between. \<open>k\<close> is the largest number of
  requests the client has open at the same time.
\<close>

record quota_conc =
  qc_mgr :: quota_manager
  qc_open :: nat

inductive quota_conc_step :: "string \<Rightarrow> nat \<Rightarrow> quota_conc \<Rightarrow> quota_conc \<Rightarrow> bool" for sid k where
  admit: "Reserve t0 t sid (qc_mgr c) = (m', Inr ()) \<Longrightarrow> qc_open c < k \<Longrightarrow>
    quota_conc_step sid k c \<lparr>qc_mgr = m', qc_open = Suc (qc_open c)\<rparr>"
| reject: "Reserve t0 t sid (qc_mgr c) = (m', Inl e) \<Longrightarrow>
    quota_conc_step sid k c (c\<lparr>qc_mgr := m'\<rparr>)"
| finish: "0 < qc_open c \<Longrightarrow>
    quota_conc_step sid k c \<lparr>qc_mgr = Commit t sid i out (qc_mgr c), qc_open = qc_open c - 1\<rparr>"
| abort: "0 < qc_open c \<Longrightarrow>
    quota_conc_step sid k c \<lparr>qc_mgr = Refund t sid (qc_mgr c), qc_open = qc_open c - 1\<rparr>"
| look: "quota_conc_step sid k c (c\<lparr>qc_mgr := fst (Usage t sid (qc_mgr c))\<rparr>)"
| other: "op_session x \<noteq> sid \<Longrightarrow> quota_conc_step sid k c (c\<lparr>qc_mgr := quota_step x (qc_mgr c)\<rparr>)"

definition session_usage :: "quota_manager \<Rightarrow> string \<Rightarrow> usage" where
  "session_usage m sid = (case q_buckets m sid of None \<Rightarrow> no_usage | Some b \<Rightarrow> b_usage b)"

definition requests_start :: "string \<Rightarrow> nat \<Rightarrow> quota_conc \<Rightarrow> bool" where
  "requests_start sid k c \<longleftrightarrow>
     (\<exists>l. qc_mgr c = quota_New l) \<and> qc_open c = 0 \<and>
     MaxRequests (q_limits (qc_mgr c)) + int k \<le> 2 ^ 63"

definition requests_inv :: "string \<Rightarrow> nat \<Rightarrow> quota_conc \<Rightarrow> bool" where
  "requests_inv sid k c \<longleftrightarrow>
     MaxRequests (q_limits (qc_mgr c)) + int k \<le> 2 ^ 63 \<and> qc_open c \<le> k \<and>
     0 \<le> Requests (session_usage (qc_mgr c) sid) \<and>
     Requests (session_usage (qc_mgr c) sid) + int (qc_open c)
       \<le> max 0 (MaxRequests (q_limits (qc_mgr c)) - 1 + int k)"

definition window_start :: "quota_manager \<Rightarrow> bool" where
  "window_start m \<longleftrightarrow> (\<exists>l. m = quota_New l) \<and> int64_range (MaxRequestsPerMinute (q_limits m))"

definition window_inv :: "quota_manager \<Rightarrow> bool" where
  "window_inv m \<longleftrightarrow>
     int64_range (MaxRequestsPerMinute (q_limits m)) \<and>
     (\<forall>sid b. q_buckets m sid = Some b \<longrightarrow>
        0 \<le> b_windowCount b \<and> b_windowCount b \<le> max 0 (MaxRequestsPerMinute (q_limits m)))"

definition any_quota_step :: "quota_manager \<Rightarrow> quota_manager \<Rightarrow> bool" where
  "any_quota_step m m' \<longleftrightarrow> (\<exists>x. m' = quota_step x m)"

section \<open>Single operations\<close>

lemma put_bucket_simps [simp]:
  "q_limits (put_bucket sid b m) = q_limits m"
  "q_buckets (put_bucket sid b m) sid = Some b"
  "s \<noteq> sid \<Longrightarrow> q_buckets (put_bucket sid b m) s = q_buckets m s"
  by (simp_all add: put_bucket_def)

lemma roll_window_usage [simp]: "b_usage (roll_window now b) = b_usage b"
  by (simp add: roll_window_def)

lemma get_bucket_usage [simp]: "b_usage (get_bucket now sid m) = session_usage m sid"
  by (simp add: get_bucket_def session_usage_def split: option.splits)

lemma session_usage_put [simp]:
  "session_usage (put_bucket sid b m) sid = b_usage b"
  "s \<noteq> sid \<Longrightarrow> session_usage (put_bucket sid b m) s = session_usage m s"
  by (simp_all add: session_usage_def)

text \<open>Every branch of \<open>Reserve\<close> writes the rolled bucket; only an admission counts.\<close>

lemma Reserve_cases:
  obtains (rate) b where "Reserve t0 now sid m = (put_bucket sid b m,
      Inl \<lparr>qe_code = CodeRateLimit, qe_retry = retry_after now b, qe_session = sid\<rparr>)"
      "b = roll_window now (get_bucket t0 sid m)" "MaxRequestsPerMinute (q_limits m) \<le> b_windowCount b"
    | (cap) b c where "Reserve t0 now sid m = (put_bucket sid b m,
      Inl \<lparr>qe_code = c, qe_retry = 0, qe_session = sid\<rparr>)"
      "b = roll_window now (get_bucket t0 sid m)" "b_windowCount b < MaxRequestsPerMinute (q_limits m)"
      "c = CodeRequests \<and> MaxRequests (q_limits m) \<le> Requests (session_usage m sid) \<or>
       c = CodeTokensIn \<and> MaxTokensIn (q_limits m) \<le> TokensIn (session_usage m sid) \<or>
       c = CodeTokensOut \<and> MaxTokensOut (q_limits m) \<le> TokensOut (session_usage m sid)"
    | (ok) b where "Reserve t0 now sid m =
      (put_bucket sid (b\<lparr>b_windowCount := wrap64 (b_windowCount b + 1)\<rparr>) m, Inr ())"
      "b = roll_window now (get_bucket t0 sid m)" "b_windowCount b < MaxRequestsPerMinute (q_limits m)"
      "Requests (session_usage m sid) < MaxRequests (q_limits m)"
      "TokensIn (session_usage m sid) < MaxTokensIn (q_limits m)"
      "TokensOut (session_usage m sid) < MaxTokensOut (q_limits m)"
  unfolding Reserve_def Let_def
  by (cases "MaxRequestsPerMinute (q_limits m) \<le> b_windowCount (roll_window now (get_bucket t0 sid m))";
      cases "MaxRequests (q_limits m) \<le> Requests (session_usage m sid)";
      cases "MaxTokensIn (q_limits m) \<le> TokensIn (session_usage m sid)";
      cases "MaxTokensOut (q_limits m) \<le> TokensOut (session_usage m sid)") auto

lemma quota_step_limits [simp]: "q_limits (quota_step x m) = q_limits m"
proof (cases x)
  case (Op_reserve t0 t s)
  then show ?thesis by (cases rule: Reserve_cases [of t0 t s m]) auto
qed (simp_all add: Commit_def Refund_def Usage_def Reset_def Let_def)

lemma quota_step_other [frame]:
  "op_session x \<noteq> sid \<Longrightarrow> q_buckets (quota_step x m) sid = q_buckets m sid"
proof (cases x)
  case (Op_reserve t0 t s)
  moreover assume "op_session x \<noteq> sid"
  ultimately show ?thesis by (cases rule: Reserve_cases [of t0 t s m]) auto
qed (auto simp: Commit_def Refund_def Usage_def Reset_def Let_def put_bucket_def)

section \<open>The rate limit of a window\<close>

definition bucket_ok :: "limits \<Rightarrow> bucket \<Rightarrow> bool" where
  "bucket_ok l b \<longleftrightarrow> 0 \<le> b_windowCount b \<and> b_windowCount b \<le> max 0 (MaxRequestsPerMinute l)"

lemma window_inv_alt:
  "window_inv m \<longleftrightarrow> int64_range (MaxRequestsPerMinute (q_limits m)) \<and>
     (\<forall>sid b. q_buckets m sid = Some b \<longrightarrow> bucket_ok (q_limits m) b)"
  by (simp add: window_inv_def bucket_ok_def)

lemma bucket_ok_get: "window_inv m \<Longrightarrow> bucket_ok (q_limits m) (get_bucket t sid m)"
  by (auto simp: window_inv_alt get_bucket_def bucket_ok_def split: option.splits)

lemma bucket_ok_roll: "bucket_ok l b \<Longrightarrow> bucket_ok l (roll_window t b)"
  by (simp add: roll_window_def bucket_ok_def)

lemma window_inv_put: "window_inv m \<Longrightarrow> bucket_ok (q_limits m) b \<Longrightarrow> window_inv (put_bucket sid b m)"
  by (auto simp: window_inv_alt put_bucket_def)

lemma window_inv_step: "window_inv m \<Longrightarrow> window_inv (quota_step x m)"
proof (cases x)
  case (Op_reserve t0 t s)
  assume inv: "window_inv m"
  have b: "bucket_ok (q_limits m) (roll_window t (get_bucket t0 s m))"
    using inv by (intro bucket_ok_roll bucket_ok_get)
  show ?thesis
  proof (cases rule: Reserve_cases [of t0 t s m])
    case (ok b)
    have "int64_range (b_windowCount b + 1)"
      using ok(2,3) b inv by (auto simp: bucket_ok_def window_inv_def int64_range_def)
    then have "bucket_ok (q_limits m) (b\<lparr>b_windowCount := wrap64 (b_windowCount b + 1)\<rparr>)"
      using ok(2,3) b by (simp add: bucket_ok_def)
    with ok inv Op_reserve show ?thesis by (simp add: window_inv_put)
  qed (use inv b Op_reserve in \<open>simp_all add: window_inv_put\<close>)
next
  case (Op_commit t s i out)
  moreover assume "window_inv m"
  ultimately show ?thesis
    using bucket_ok_get [of m t s] by (auto simp: Commit_def Let_def bucket_ok_def intro!: window_inv_put)
next
  case (Op_refund t s)
  moreover assume "window_inv m"
  ultimately show ?thesis
    using bucket_ok_get [of m t s] by (auto simp: Refund_def Let_def bucket_ok_def intro!: window_inv_put)
next
  case (Op_usage t s)
  moreover assume "window_inv m"
  ultimately show ?thesis
    using bucket_ok_get [of m t s] by (auto simp: Usage_def Let_def intro!: window_inv_put)
next
  case (Op_reset s)
  moreover assume "window_inv m"
  ultimately show ?thesis by (auto simp: Reset_def window_inv_alt)
qed

lemma window_start_New: "int64_range (MaxRequestsPerMinute (q_limits (quota_New l))) \<Longrightarrow> window_start (quota_New l)"
  unfolding window_start_def by blast

lemma window_start_inv: "window_start m \<Longrightarrow> window_inv m"
  by (auto simp: window_start_def window_inv_def quota_New_def Let_def)

interpretation quota_window: invariant_system window_start any_quota_step window_inv
  by unfold_locales (auto simp: any_quota_step_def intro: window_start_inv window_inv_step)

section \<open>The request cap with requests in flight\<close>

lemma Usage_requests [simp]: "session_usage (fst (Usage t s m)) sid = session_usage m sid"
  by (cases "s = sid") (simp_all add: Usage_def Let_def)

lemma Refund_requests [simp]: "session_usage (Refund t s m) sid = session_usage m sid"
  by (cases "s = sid") (simp_all add: Refund_def Let_def)

lemma Reserve_requests [simp]: "session_usage (fst (Reserve t0 t s m)) sid = session_usage m sid"
  by (cases "s = sid"; cases rule: Reserve_cases [of t0 t s m]) simp_all

lemma Commit_requests:
  "session_usage (Commit t sid i out m) sid =
     \<lparr>TokensIn = wrap64 (TokensIn (session_usage m sid) + i),
      TokensOut = wrap64 (TokensOut (session_usage m sid) + out),
      Requests = wrap64 (Requests (session_usage m sid) + 1)\<rparr>"
  by (simp add: Commit_def Let_def)

lemma op_limits [simp]:
  "q_limits (fst (Reserve t0 t s m)) = q_limits m" "q_limits (Commit t s i out m) = q_limits m"
  "q_limits (Refund t s m) = q_limits m" "q_limits (fst (Usage t s m)) = q_limits m"
  using quota_step_limits [of "Op_reserve t0 t s" m] quota_step_limits [of "Op_commit t s i out" m]
    quota_step_limits [of "Op_refund t s" m] quota_step_limits [of "Op_usage t s" m]
  by simp_all

lemma requests_inv_step: "quota_conc_step sid k c c' \<Longrightarrow> requests_inv sid k c \<Longrightarrow> requests_inv sid k c'"
proof (induction rule: quota_conc_step.induct)
  case (admit t0 t c m')
  have m': "m' = fst (Reserve t0 t sid (qc_mgr c))" using admit.hyps by simp
  have "Requests (session_usage (qc_mgr c) sid) < MaxRequests (q_limits (qc_mgr c))"
    by (cases rule: Reserve_cases [of t0 t sid "qc_mgr c"]) (use admit.hyps in auto)
  with admit show ?case by (auto simp: requests_inv_def m')
next
  case (reject t0 t c m' e)
  then have "m' = fst (Reserve t0 t sid (qc_mgr c))" by simp
  with reject show ?case by (simp add: requests_inv_def)
next
  case (finish c t i out)
  let ?r = "Requests (session_usage (qc_mgr c) sid)"
  have "?r + 1 \<le> max 0 (MaxRequests (q_limits (qc_mgr c)) - 1 + int k)"
    using finish by (auto simp: requests_inv_def)
  then have "int64_range (?r + 1)"
    using finish by (auto simp: requests_inv_def int64_range_def)
  with finish show ?case
    by (auto simp: requests_inv_def Commit_requests of_nat_diff)
next
  case (abort c t)
  then show ?case by (auto simp: requests_inv_def of_nat_diff)
next
  case (look c t)
  then show ?case by (simp add: requests_inv_def)
next
  case (other x c)
  then show ?case by (simp add: requests_inv_def session_usage_def quota_step_other)
qed

lemma requests_start_New:
  "MaxRequests (q_limits (quota_New l)) + int k \<le> 2 ^ 63 \<Longrightarrow> requests_start sid k \<lparr>qc_mgr = quota_New l, qc_open = 0\<rparr>"
  unfolding requests_start_def by auto

lemma requests_start_inv: "requests_start sid k c \<Longrightarrow> requests_inv sid k c"
  by (auto simp: requests_start_def requests_inv_def quota_New_def session_usage_def no_usage_def Let_def)

interpretation quota_requests: invariant_system "requests_start sid k" "quota_conc_step sid k" "requests_inv sid k"
  for sid k
  by unfold_locales (auto intro: requests_start_inv requests_inv_step)

section \<open>Admissions within one minute\<close>

text \<open>
  \<open>slots\<close> bounds what a session can still be admitted while the clock stays in the minute
  that starts at \<open>T\<close>: the rest of the current window, and a whole further window when the
  current one started before \<open>T\<close>. No operation but \<open>Refund\<close> and \<open>Reset\<close> raises it.
\<close>

definition rpm :: "quota_manager \<Rightarrow> int" where
  "rpm m = max 0 (MaxRequestsPerMinute (q_limits m))"

definition slots :: "go_time \<Rightarrow> string \<Rightarrow> quota_manager \<Rightarrow> int" where
  "slots T sid m =
     (case q_buckets m sid of
        None \<Rightarrow> 2 * rpm m
      | Some b \<Rightarrow> rpm m - b_windowCount b + (if T \<le> b_windowStart b then 0 else rpm m))"

fun within_minute :: "go_time \<Rightarrow> string \<Rightarrow> quota_op \<Rightarrow> bool" where
  "within_minute T sid (Op_reserve t0 t s) \<longleftrightarrow>
     s = sid \<longrightarrow> T \<le> t0 \<and> t0 < T + Minute \<and> T \<le> t \<and> t < T + Minute"
| "within_minute T sid (Op_refund t s) \<longleftrightarrow> s \<noteq> sid"
| "within_minute T sid (Op_reset s) \<longleftrightarrow> s \<noteq> sid"
| "within_minute T sid _ \<longleftrightarrow> True"

lemma roll_window_alt:
  "roll_window now b =
     (if Minute \<le> now - b_windowStart b
      then b\<lparr>b_windowStart := now, b_windowCount := 0\<rparr> else b)"
  using time_sub_ge_iff [of Minute now "b_windowStart b"]
  by (simp add: roll_window_def Minute_def Second_def max_duration_def)

lemma rpm_simps [simp]: "0 \<le> rpm m" "rpm (quota_step x m) = rpm m" "rpm (put_bucket sid b m) = rpm m"
  by (simp_all add: rpm_def)

lemma slots_put:
  "slots T sid (put_bucket sid b m) =
     rpm m - b_windowCount b + (if T \<le> b_windowStart b then 0 else rpm m)"
  by (simp add: slots_def)

lemma slots_other: "op_session x \<noteq> sid \<Longrightarrow> slots T sid (quota_step x m) = slots T sid m"
  by (simp add: slots_def quota_step_other split: option.split)

lemma window_count_rpm: "window_inv m \<Longrightarrow> q_buckets m sid = Some b \<Longrightarrow>
    0 \<le> b_windowCount b \<and> b_windowCount b \<le> rpm m"
  by (simp add: window_inv_def rpm_def)

lemma slots_get: "slots T sid (put_bucket sid (get_bucket t sid m) m) \<le> slots T sid m"
  by (auto simp: slots_put slots_def get_bucket_def split: option.splits)

lemma slots_Reserve:
  assumes inv: "window_inv m" and min: "within_minute T sid (Op_reserve t0 t sid)"
  shows "int (admits sid (Op_reserve t0 t sid) m) + slots T sid (quota_step (Op_reserve t0 t sid) m)
    \<le> slots T sid m"
proof -
  define b where "b = roll_window t (get_bucket t0 sid m)"
  have rng: "0 \<le> b_windowCount b" "b_windowCount b \<le> rpm m"
    using bucket_ok_roll [OF bucket_ok_get [OF inv]] by (auto simp: b_def bucket_ok_def rpm_def)
  have before: "rpm m - b_windowCount b + (if T \<le> b_windowStart b then 0 else rpm m) \<le> slots T sid m"
  proof (cases "q_buckets m sid")
    case None
    with min rng show ?thesis
      by (auto simp: b_def slots_def get_bucket_def roll_window_alt split: if_splits)
  next
    case (Some b0)
    with inv have "0 \<le> b_windowCount b0" "b_windowCount b0 \<le> rpm m"
      using window_count_rpm by blast+
    with Some min show ?thesis
      by (auto simp: b_def slots_def get_bucket_def roll_window_alt)
  qed
  show ?thesis
  proof (cases rule: Reserve_cases [of t0 t sid m])
    case (ok b')
    have "int64_range (b_windowCount b + 1)"
      using ok(2,3) rng inv by (auto simp: b_def window_inv_def int64_range_def)
    then have "slots T sid (quota_step (Op_reserve t0 t sid) m)
        = rpm m - (b_windowCount b + 1) + (if T \<le> b_windowStart b then 0 else rpm m)"
      using ok(1,2) by (simp add: slots_put b_def)
    with ok(1) before show ?thesis by simp
  qed (use before in \<open>simp_all add: slots_put b_def\<close>)
qed

lemma slots_step:
  assumes inv: "window_inv m" and min: "within_minute T sid x"
  shows "int (admits sid x m) + slots T sid (quota_step x m) \<le> slots T sid m"
proof (cases "op_session x = sid")
  case False
  then have "admits sid x m = 0" by (cases x) auto
  with False show ?thesis by (simp add: slots_other)
next
  case True
  show ?thesis
  proof (cases x)
    case (Op_reserve t0 t s)
    with True min inv slots_Reserve [of m T sid t0 t] show ?thesis by simp
  next
    case (Op_commit t s i out)
    with True show ?thesis
      using slots_get [of T sid t m] by (simp add: slots_put Commit_def Let_def)
  next
    case (Op_usage t s)
    with True show ?thesis
      using slots_get [of T sid t m] by (simp add: Usage_def Let_def)
  qed (use min True in simp_all)
qed

lemma admitted_slots:
  "window_inv m \<Longrightarrow> list_all (within_minute T sid) xs \<Longrightarrow> int (admitted sid xs m) \<le> slots T sid m"
proof (induction xs arbitrary: m)
  case Nil
  have "0 \<le> slots T sid m"
    using window_count_rpm [OF Nil.prems(1)] by (force simp: slots_def split: option.splits)
  then show ?case by simp
next
  case (Cons x xs)
  have "int (admitted sid xs (quota_step x m)) \<le> slots T sid (quota_step x m)"
    using Cons.IH [OF window_inv_step [OF Cons.prems(1)]] Cons.prems(2) by simp
  with slots_step [OF Cons.prems(1), of T sid x] Cons.prems(2) show ?case by simp
qed

lemma slots_le: "window_inv m \<Longrightarrow> slots T sid m \<le> 2 * rpm m"
  using window_count_rpm [of m sid] rpm_simps(1) [of m]
  by (force simp: slots_def split: option.splits)

section \<open>Exhausted sessions\<close>

definition exhausted :: "quota_manager \<Rightarrow> string \<Rightarrow> bool" where
  "exhausted m sid \<longleftrightarrow>
     MaxRequests (q_limits m) \<le> Requests (session_usage m sid) \<or>
     MaxTokensIn (q_limits m) \<le> TokensIn (session_usage m sid) \<or>
     MaxTokensOut (q_limits m) \<le> TokensOut (session_usage m sid)"

text \<open>A schedule without a reset of the session whose counters stay in the range of \<open>int64\<close>.\<close>

fun counters_fit :: "string \<Rightarrow> quota_op list \<Rightarrow> quota_manager \<Rightarrow> bool" where
  "counters_fit sid [] m \<longleftrightarrow> True"
| "counters_fit sid (x # xs) m \<longleftrightarrow>
     counters_fit sid xs (quota_step x m) \<and>
     (case x of
        Op_reset s \<Rightarrow> s \<noteq> sid
      | Op_commit t s i out \<Rightarrow> s = sid \<longrightarrow>
          0 \<le> i \<and> 0 \<le> out \<and>
          TokensIn (session_usage m sid) + i < 2 ^ 63 \<and> - (2 ^ 63) \<le> TokensIn (session_usage m sid) \<and>
          TokensOut (session_usage m sid) + out < 2 ^ 63 \<and> - (2 ^ 63) \<le> TokensOut (session_usage m sid) \<and>
          Requests (session_usage m sid) + 1 < 2 ^ 63 \<and> - (2 ^ 63) \<le> Requests (session_usage m sid)
      | _ \<Rightarrow> True)"

lemma exhausted_not_admitted: "exhausted m sid \<Longrightarrow> admits sid x m = 0"
  by (cases x; cases rule: Reserve_cases [of _ _ sid m]) (auto simp: exhausted_def Reserve_def Let_def)

lemma session_usage_other: "op_session x \<noteq> sid \<Longrightarrow> session_usage (quota_step x m) sid = session_usage m sid"
  by (simp add: session_usage_def quota_step_other)

lemma exhausted_step:
  assumes "exhausted m sid" "counters_fit sid (x # xs) m"
  shows "exhausted (quota_step x m) sid"
proof (cases "op_session x = sid")
  case False
  then show ?thesis using assms(1) by (simp add: exhausted_def session_usage_other)
next
  case True
  show ?thesis
  proof (cases x)
    case (Op_commit t s i out)
    with True assms show ?thesis
      by (auto simp: exhausted_def Commit_requests int64_range_def)
  next
    case (Op_reset s)
    with True assms show ?thesis by simp
  qed (use True assms(1) in \<open>simp_all add: exhausted_def\<close>)
qed

lemma exhausted_run: "exhausted m sid \<Longrightarrow> counters_fit sid xs m \<Longrightarrow> admitted sid xs m = 0"
proof (induction xs arbitrary: m)
  case Nil
  then show ?case by simp
next
  case (Cons x xs)
  have "exhausted (quota_step x m) sid" using Cons.prems by (rule exhausted_step)
  with Cons show ?case by (simp add: exhausted_not_admitted)
qed

section \<open>Properties\<close>

definition small_limits :: limits where
  "small_limits = \<lparr>MaxTokensIn = 100, MaxTokensOut = 100, MaxRequests = 1, MaxRequestsPerMinute = 1\<rparr>"

definition burst_limits :: limits where
  "burst_limits = \<lparr>MaxTokensIn = 100, MaxTokensOut = 100, MaxRequests = 9, MaxRequestsPerMinute = 1\<rparr>"

lemmas quota_eval = Reserve_def Commit_def Refund_def Usage_def Let_def get_bucket_def put_bucket_def
  roll_window_alt retry_after_def quota_New_def no_usage_def Minute_def Second_def wrap64_def
  small_limits_def burst_limits_def



text \<open>
  C29: a session whose client keeps at most k requests open has at most
  \<open>MaxRequests - 1 + k\<close> requests committed or in flight, in every interleaving with other
  sessions. A sequential client (k = 1) never passes the cap; the witness shows that two
  concurrent requests do pass a cap of one.
\<close>

theorem quota_requests_bound:
  assumes "reach (requests_start sid k) (quota_conc_step sid k) c"
  shows "Requests (session_usage (qc_mgr c) sid) + int (qc_open c)
    \<le> max 0 (MaxRequests (q_limits (qc_mgr c)) - 1 + int k)"
  using quota_requests.reach_inv [OF assms] by (simp add: requests_inv_def)

theorem quota_requests_bound_witness:
  "\<exists>c. reach (requests_start ''s'' 2) (quota_conc_step ''s'' 2) c \<and>
     MaxRequests (q_limits (qc_mgr c)) = 1 \<and> Requests (session_usage (qc_mgr c) ''s'') = 2 \<and>
     Requests (session_usage (qc_mgr c) ''s'') + int (qc_open c)
       \<le> max 0 (MaxRequests (q_limits (qc_mgr c)) - 1 + int 2)"
proof -
  let ?l = "small_limits\<lparr>MaxRequestsPerMinute := 9\<rparr>"
  define m0 where "m0 = quota_New ?l"
  define m1 where "m1 = fst (Reserve 0 0 ''s'' m0)"
  define m2 where "m2 = fst (Reserve 0 0 ''s'' m1)"
  define m3 where "m3 = Commit 0 ''s'' 1 1 m2"
  define m4 where "m4 = Commit 0 ''s'' 1 1 m3"
  let ?R = "reach (requests_start ''s'' 2) (quota_conc_step ''s'' 2)"
  have r0: "?R \<lparr>qc_mgr = m0, qc_open = 0\<rparr>"
    unfolding m0_def
    by (intro reach_start requests_start_New) (simp add: quota_New_def small_limits_def)
  have s1: "Reserve 0 0 ''s'' m0 = (m1, Inr ())"
    by (simp add: m1_def m0_def quota_eval)
  have s2: "Reserve 0 0 ''s'' m1 = (m2, Inr ())"
    by (simp add: m2_def m1_def m0_def quota_eval)
  have r1: "?R \<lparr>qc_mgr = m1, qc_open = 1\<rparr>"
    using reach_step [OF r0 quota_conc_step.admit, of 0 0 m1] s1 by simp
  have r2: "?R \<lparr>qc_mgr = m2, qc_open = 2\<rparr>"
    using reach_step [OF r1 quota_conc_step.admit, of 0 0 m2] s2 by (simp add: numeral_2_eq_2)
  have r3: "?R \<lparr>qc_mgr = m3, qc_open = 1\<rparr>"
    using reach_step [OF r2 quota_conc_step.finish, of 0 1 1] by (simp add: m3_def)
  have r4: "?R \<lparr>qc_mgr = m4, qc_open = 0\<rparr>"
    using reach_step [OF r3 quota_conc_step.finish, of 0 1 1] by (simp add: m4_def)
  have l: "MaxRequests (q_limits m4) = 1"
    by (simp add: m4_def m3_def m2_def m1_def m0_def quota_New_def small_limits_def Let_def)
  have u: "Requests (session_usage m4 ''s'') = 2"
    by (simp add: m4_def m3_def m2_def m1_def m0_def session_usage_def quota_eval)
  from quota_requests_bound [OF r4] r4 l u show ?thesis by force
qed

text \<open>
  A rejected request changes no usage counter; a rate-limit rejection carries a retry
  hint between one second and one minute and every other rejection the hint 0, provided
  the clock does not run backwards behind the start of the window.
\<close>

theorem quota_reject_effect:
  assumes "Reserve t0 now sid m = (m', Inl e)" and "b_windowStart (get_bucket t0 sid m) \<le> now"
  shows "(\<forall>s. session_usage m' s = session_usage m s) \<and> qe_session e = sid \<and>
    (if qe_code e = CodeRateLimit then Second \<le> qe_retry e \<and> qe_retry e \<le> Minute else qe_retry e = 0)"
proof -
  have usage: "session_usage m' s = session_usage m s" for s
    using Reserve_requests [of t0 now sid m s] assms(1) by simp
  show ?thesis
  proof (cases rule: Reserve_cases [of t0 now sid m])
    case (rate b)
    have start: "b_windowStart b \<le> now" using assms(2) rate(2) by (simp add: roll_window_alt)
    define d where "d = time_sub now (b_windowStart b)"
    have d: "0 \<le> d" "d \<le> max_duration"
      unfolding d_def using start by (simp, simp add: time_sub_def max_duration_def min_duration_def)
    then have "int64_range (Minute - d)"
      by (simp add: int64_range_def max_duration_def Minute_def Second_def)
    then have "Second \<le> retry_after now b \<and> retry_after now b \<le> Minute"
      using d by (auto simp: retry_after_def Let_def Minute_def Second_def d_def [symmetric])
    with rate usage assms(1) show ?thesis by auto
  qed (use usage assms(1) in auto)
qed

theorem quota_reject_effect_witness:
  "\<exists>m' e. Reserve 0 0 ''s'' (fst (Reserve 0 0 ''s'' (quota_New burst_limits))) = (m', Inl e) \<and>
     qe_code e = CodeRateLimit \<and> Second \<le> qe_retry e"
proof -
  let ?m = "fst (Reserve 0 0 ''s'' (quota_New burst_limits))"
  obtain m' r where res: "Reserve 0 0 ''s'' ?m = (m', r)" by (metis surj_pair)
  have "\<exists>e. r = Inl e \<and> qe_code e = CodeRateLimit" using res by (auto simp: quota_eval)
  then obtain e where e: "r = Inl e" "qe_code e = CodeRateLimit" by blast
  have "b_windowStart (get_bucket 0 ''s'' ?m) \<le> 0" by (simp add: quota_eval)
  from quota_reject_effect [OF _ this] res e show ?thesis by force
qed

text \<open>
  Once a session has used up its requests, input tokens or output tokens, no schedule
  admits it again until it is reset, as long as its counters stay in the range of \<open>int64\<close>.
\<close>

theorem quota_exhausted_sticky:
  assumes "exhausted m sid" and "counters_fit sid xs m"
  shows "admitted sid xs m = 0"
  using assms by (rule exhausted_run)

theorem quota_exhausted_sticky_witness:
  "exhausted (Commit 0 ''s'' 5 5 (quota_New small_limits)) ''s'' \<and>
   admitted ''s'' [Op_reserve 0 0 ''s'', Op_commit 0 ''s'' 1 1, Op_reserve 9 9 ''s'']
     (Commit 0 ''s'' 5 5 (quota_New small_limits)) = 0"
proof -
  let ?m = "Commit 0 ''s'' 5 5 (quota_New small_limits)"
  let ?xs = "[Op_reserve 0 0 ''s'', Op_commit 0 ''s'' 1 1, Op_reserve 9 9 ''s'']"
  have e: "exhausted ?m ''s''" by (simp add: exhausted_def session_usage_def quota_eval)
  have "counters_fit ''s'' ?xs ?m" by (simp add: session_usage_def quota_eval)
  from quota_exhausted_sticky [OF e this] e show ?thesis by simp
qed

text \<open>
  Two edge cases of the code. The token counters wrap: after commits whose sum passes the
  range of \<open>int64\<close> an exhausted session is admitted again. A refund of a request reserved in
  an earlier window frees a slot of the current one, so a window can hold more admitted
  requests than the limit.
\<close>

lemma quota_tokens_wrap:
  "exhausted (Commit 0 ''s'' (2 ^ 63 - 1) 0 (quota_New burst_limits)) ''s'' \<and>
   snd (Reserve 0 0 ''s'' (Commit 0 ''s'' 1 0 (Commit 0 ''s'' (2 ^ 63 - 1) 0 (quota_New burst_limits)))) = Inr ()"
  by (simp add: exhausted_def session_usage_def quota_eval)

lemma quota_refund_other_window:
  "admitted ''s'' [Op_reserve 60000000000 60000000000 ''s'', Op_refund 60000000001 ''s'',
      Op_reserve 60000000002 60000000002 ''s''] (fst (Reserve 0 0 ''s'' (quota_New burst_limits))) = 2"
  by (simp add: quota_eval)

end
