(* ===== verification/Audit_Log.thy ===== *)
theory Audit_Log
  imports Prelude
begin

text \<open>
  The audit log of \<open>proxy/internal/audit/audit.go\<close>: the record, the \<open>Sink\<close> interface as
  a locale, and its two implementations, the sink in memory and the one that inserts into
  the table \<open>proxy_audit_log\<close>. The database driver is the parameter \<open>exec\<close> of the
  latter.
\<close>

record audit_record =
  TS :: go_time
  SessionID :: string
  Endpoint :: string
  RequestTokens :: int
  ResponseTokens :: int
  CostUSDMicros :: int
  Status :: int

section \<open>InMemorySink\<close>

record InMemorySink =
  records :: "audit_record list"

definition NewInMemorySink :: InMemorySink where
  "NewInMemorySink = \<lparr>records = []\<rparr>"

definition mem_Write :: "audit_record \<Rightarrow> InMemorySink \<Rightarrow> InMemorySink \<times> string option" where
  "mem_Write r s = (s\<lparr>records := records s @ [r]\<rparr>, None)"

definition All :: "InMemorySink \<Rightarrow> audit_record list" where
  "All s = records s"

definition Len :: "InMemorySink \<Rightarrow> nat" where
  "Len s = length (records s)"

section \<open>SQLSink\<close>

text \<open>The statement of \<open>SQLSink.Write\<close>: the row of seven parameters, in the order of the query.\<close>

datatype sql_value = SqlTime go_time | SqlText string | SqlInt int

definition insert_args :: "audit_record \<Rightarrow> sql_value list" where
  "insert_args r =
     [SqlTime (TS r), SqlText (SessionID r), SqlText (Endpoint r), SqlInt (RequestTokens r),
      SqlInt (ResponseTokens r), SqlInt (CostUSDMicros r), SqlInt (Status r)]"

text \<open>The handle is \<open>None\<close> for a nil \<open>*sql.DB\<close>; \<open>exec\<close> runs the insert and may fail.\<close>

definition sql_Write ::
  "(sql_value list \<Rightarrow> 'db \<Rightarrow> 'db \<times> string option) \<Rightarrow> audit_record \<Rightarrow> 'db option \<Rightarrow> 'db option \<times> string option" where
  "sql_Write exec r db =
     (case db of
        None \<Rightarrow> (None, Some ''audit: nil db'')
      | Some d \<Rightarrow> (case exec (insert_args r) d of (d', err) \<Rightarrow> (Some d', err)))"

text \<open>The row read back by the column types of \<open>Schema\<close>.\<close>

fun row_record :: "sql_value list \<Rightarrow> audit_record option" where
  "row_record [SqlTime t, SqlText sid, SqlText ep, SqlInt i, SqlInt j, SqlInt c, SqlInt st] =
     Some \<lparr>TS = t, SessionID = sid, Endpoint = ep, RequestTokens = i, ResponseTokens = j,
           CostUSDMicros = c, Status = st\<rparr>"
| "row_record _ = None"

text \<open>
  A table with the bounds of the columns of \<open>Schema\<close>: \<open>bigint\<close> for the counters,
  \<open>integer\<close> for the status. An insert out of range is rejected and changes nothing.
\<close>

definition int32_range :: "int \<Rightarrow> bool" where
  "int32_range i \<longleftrightarrow> - (2 ^ 31) \<le> i \<and> i < 2 ^ 31"

definition fits_schema :: "audit_record \<Rightarrow> bool" where
  "fits_schema r \<longleftrightarrow> int64_range (RequestTokens r) \<and> int64_range (ResponseTokens r)
     \<and> int64_range (CostUSDMicros r) \<and> int32_range (Status r)"

definition table_exec :: "sql_value list \<Rightarrow> audit_record list \<Rightarrow> audit_record list \<times> string option" where
  "table_exec args rows =
     (case row_record args of
        Some r \<Rightarrow> if fits_schema r then (rows @ [r], None) else (rows, Some ''out of range'')
      | None \<Rightarrow> (rows, Some ''bad arguments''))"

fun sink_rows :: "audit_record list option \<Rightarrow> audit_record list" where
  "sink_rows None = []"
| "sink_rows (Some rows) = rows"

section \<open>The interface\<close>

text \<open>
  What the server relies on: a write that reports success appends exactly its record, one
  that reports an error changes nothing, and no write touches the rows already there.
\<close>

locale audit_sink =
  fixes put :: "audit_record \<Rightarrow> 's \<Rightarrow> 's \<times> string option"
    and rows :: "'s \<Rightarrow> audit_record list"
  assumes write_ok: "put r s = (s', None) \<Longrightarrow> rows s' = rows s @ [r]"
    and write_err: "put r s = (s', Some e) \<Longrightarrow> rows s' = rows s"
begin

primrec write_all :: "audit_record list \<Rightarrow> 's \<Rightarrow> 's" where
  "write_all [] s = s"
| "write_all (r # rs) s = write_all rs (fst (put r s))"

primrec accepted :: "audit_record list \<Rightarrow> 's \<Rightarrow> audit_record list" where
  "accepted [] s = []"
| "accepted (r # rs) s =
     (if snd (put r s) = None then [r] else []) @ accepted rs (fst (put r s))"

lemma rows_write: "rows (fst (put r s)) = rows s @ (if snd (put r s) = None then [r] else [])"
  by (cases "put r s"; cases "snd (put r s)") (simp_all add: write_ok write_err)

lemma write_all_rows: "rows (write_all rs s) = rows s @ accepted rs s"
  by (induction rs arbitrary: s) (simp_all add: rows_write)

lemma append_only: "take (length (rows s)) (rows (write_all rs s)) = rows s"
  by (simp add: write_all_rows)

lemma at_most_once: "length (rows (write_all rs s)) \<le> length (rows s) + length rs"
proof -
  have "length (accepted rs s) \<le> length rs"
    by (induction rs arbitrary: s) (simp_all add: le_SucI)
  then show ?thesis
    by (simp add: write_all_rows)
qed

end

lemma row_record_args [simp]: "row_record (insert_args r) = Some r"
  by (simp add: insert_args_def)

lemma sql_Write_simps:
  "sql_Write exec r None = (None, Some ''audit: nil db'')"
  "sql_Write exec r (Some d) = (Some (fst (exec (insert_args r) d)), snd (exec (insert_args r) d))"
  by (simp_all add: sql_Write_def case_prod_beta)

interpretation mem_sink: audit_sink mem_Write All
  by unfold_locales (auto simp: mem_Write_def All_def)

interpretation sql_sink: audit_sink "sql_Write table_exec" sink_rows
  by unfold_locales (auto simp: sql_Write_def table_exec_def split: option.splits if_splits)

lemma mem_write_all: "All (mem_sink.write_all rs s) = All s @ rs"
proof -
  have "mem_sink.accepted rs s = rs"
    by (induction rs arbitrary: s) (simp_all add: mem_Write_def)
  then show ?thesis
    by (simp add: mem_sink.write_all_rows)
qed

lemma sql_accepted: "sql_sink.accepted rs (Some rows) = filter fits_schema rs"
  by (induction rs arbitrary: rows) (simp_all add: sql_Write_simps table_exec_def)

lemma sql_write_all: "sink_rows (sql_sink.write_all rs (Some rows)) = rows @ filter fits_schema rs"
  by (simp add: sql_sink.write_all_rows sql_accepted)

text \<open>
  The log is append-only. A sequence of writes leaves the earlier rows as they are and
  adds, in order, every record to the sink in memory, and every record that fits the
  columns of \<open>proxy_audit_log\<close> to the table.
\<close>

theorem audit_append_only:
  "All (mem_sink.write_all rs s) = All s @ rs
   \<and> sink_rows (sql_sink.write_all rs (Some rows)) = rows @ filter fits_schema rs
   \<and> sink_rows (sql_sink.write_all rs None) = []"
proof -
  have "sql_sink.accepted rs None = []"
    by (induction rs) (simp_all add: sql_Write_simps)
  then show ?thesis
    by (simp add: mem_write_all sql_sink.write_all_rows sql_accepted)
qed

end
