(* ===== verification/Proxy_Server.thy ===== *)
theory Proxy_Server
  imports Http Keys Quota Audit_Log
begin

text \<open>
  The HTTP server of \<open>proxy/internal/server/server.go\<close>: construction, routing, the
  forwarding handler with its authentication, quota, upstream call, streaming and audit,
  the administrative handlers, and the drain of in-flight requests before a rotation.
  Clock readings, the request id generator, the acceptance of a method and URL by
  \<open>http.NewRequest\<close> and the upstream's answer are fields of an environment record.
\<close>

record server =
  s_pool :: key_pool
  s_quota :: quota_manager
  s_audit :: "audit_record list"
  s_inflight :: int
  s_admin :: string
  s_upstream :: string

text \<open>The requests for audit writes are kept in the order they are emitted.\<close>

record up_request =
  ur_Method :: string
  ur_URL :: string
  ur_Header :: header
  ur_Body :: string

record up_response =
  up_Status :: int
  up_Header :: header
  up_Body :: body_reader

record fwd_env =
  fe_uuid :: string
  fe_t0 :: go_time
  fe_now :: go_time
  fe_done :: go_time
  fe_newreq :: "string \<Rightarrow> string \<Rightarrow> bool"
  fe_do :: "up_request \<Rightarrow> string + up_response"

section \<open>Helpers\<close>

definition defaultUpstream :: string where
  "defaultUpstream = ''https://api.anthropic.com''"

definition firstNonEmpty :: "string \<Rightarrow> string \<Rightarrow> string" where
  "firstNonEmpty a b = (if a \<noteq> [] then a else b)"

definition strippedHeaders :: "string list" where
  "strippedHeaders =
     [''Connection'', ''Keep-Alive'', ''Proxy-Authenticate'', ''Proxy-Authorization'', ''Te'',
      ''Trailer'', ''Transfer-Encoding'', ''Upgrade'', ''Authorization'', ''X-Api-Key'']"

definition copyForwardHeaders :: "header \<Rightarrow> header \<Rightarrow> header" where
  "copyForwardHeaders dst src =
     add_headers (filter (\<lambda>(k, _). CanonicalHeaderKey k \<notin> set strippedHeaders) src) dst"

definition bearerToken :: "http_request \<Rightarrow> string option" where
  "bearerToken r =
     (let h = header_Get (rq_Header r) ''Authorization''
      in if HasPrefix h ''Bearer '' then Some (TrimSpace (TrimPrefix h ''Bearer '')) else None)"

definition writeError :: "int \<Rightarrow> string \<Rightarrow> string \<Rightarrow> int \<Rightarrow> string \<Rightarrow> response_writer \<Rightarrow> response_writer" where
  "writeError status code message retryAfter reqID w =
     rs_write
       (print_json (JObj ([(''code'', JStr code), (''message'', JStr message), (''request_id'', JStr reqID)]
          @ (if retryAfter > 0 then [(''retry_after_seconds'', JNum (FormatInt retryAfter))] else []))) @ [CHR 0x0A])
       (WriteHeader status (set_header ''Content-Type'' ''application/json'' w))"

definition emitAudit :: "audit_record \<Rightarrow> server \<Rightarrow> server" where
  "emitAudit r s = s\<lparr>s_audit := s_audit s @ [r]\<rparr>"

section \<open>New\<close>

datatype server_error = Bad_upstream | Nil_pool | Nil_quota

text \<open>
  The optional fields of \<open>Config\<close> are options. A missing sink is replaced by one in
  memory, and the HTTP client and logger by their defaults, which the model does not hold.
\<close>

record server_config =
  cfg_Upstream :: string
  cfg_Pool :: "key_pool option"
  cfg_Quota :: "quota_manager option"
  cfg_Audit :: "InMemorySink option"
  cfg_AdminToken :: string

definition server_New :: "(string \<Rightarrow> string option) \<Rightarrow> server_config \<Rightarrow> server_error + server" where
  "server_New url_parse cfg =
     (let upstream = (if cfg_Upstream cfg = [] then defaultUpstream else cfg_Upstream cfg)
      in case url_parse upstream of
           None \<Rightarrow> Inl Bad_upstream
         | Some u \<Rightarrow>
             (case (cfg_Pool cfg, cfg_Quota cfg) of
                (None, _) \<Rightarrow> Inl Nil_pool
              | (_, None) \<Rightarrow> Inl Nil_quota
              | (Some p, Some q) \<Rightarrow>
                  Inr \<lparr>s_pool = p, s_quota = q,
                       s_audit = All (case cfg_Audit cfg of None \<Rightarrow> NewInMemorySink | Some a \<Rightarrow> a),
                       s_inflight = 0, s_admin = cfg_AdminToken cfg, s_upstream = u\<rparr>))"

section \<open>handleForward\<close>

definition quota_record :: "go_time \<Rightarrow> string \<Rightarrow> string \<Rightarrow> int \<Rightarrow> audit_record" where
  "quota_record now sid path status =
     \<lparr>TS = now, SessionID = sid, Endpoint = path, RequestTokens = 0, ResponseTokens = 0,
      CostUSDMicros = 0, Status = status\<rparr>"

definition upstream_request :: "http_request \<Rightarrow> string \<Rightarrow> string \<Rightarrow> string \<Rightarrow> up_request" where
  "upstream_request r url secret body =
     \<lparr>ur_Method = rq_Method r, ur_URL = url,
      ur_Header = header_Set ''anthropic-version''
                    (firstNonEmpty (header_Get (rq_Header r) ''anthropic-version'') ''2023-06-01'')
                    (header_Set ''x-api-key'' secret (copyForwardHeaders [] (rq_Header r))),
      ur_Body = body\<rparr>"

text \<open>The answer of the upstream is copied to the client, then charged and logged.\<close>

definition relay ::
  "fwd_env \<Rightarrow> http_request \<Rightarrow> string \<Rightarrow> up_response \<Rightarrow> response_writer \<Rightarrow> server \<Rightarrow> server \<times> response_writer" where
  "relay e r sid up w s =
     (let w1 = WriteHeader (up_Status up) (w\<lparr>rs_header := add_headers (up_Header up) (rs_header w)\<rparr>);
          isSSE = HasPrefix (header_Get (up_Header up) ''Content-Type'') ''text/event-stream'';
          (client, usage, _, _) = streamBody isSSE (up_Body up) (rs_client w1)
      in (emitAudit
            \<lparr>TS = fe_done e, SessionID = sid, Endpoint = rq_Path r, RequestTokens = u_request usage,
             ResponseTokens = u_response usage, CostUSDMicros = estimateCostMicros usage,
             Status = up_Status up\<rparr>
            (s\<lparr>s_quota := Commit (fe_done e) sid (u_request usage) (u_response usage) (s_quota s)\<rparr>),
          w1\<lparr>rs_client := client\<rparr>))"

text \<open>The part of the handler after a successful reservation; the last component is what was sent upstream.\<close>

definition forward_reserved ::
  "fwd_env \<Rightarrow> http_request \<Rightarrow> string \<Rightarrow> string \<Rightarrow> string \<Rightarrow> response_writer \<Rightarrow> server
   \<Rightarrow> server \<times> response_writer \<times> up_request list" where
  "forward_reserved e r reqID sid secret w s =
     (let refunded = s\<lparr>s_quota := Refund (fe_done e) sid (s_quota s)\<rparr>;
          (body, rerr) = (case rq_Body r of None \<Rightarrow> ([], None) | Some b \<Rightarrow> read_limited (2 ^ 20) b)
      in case rerr of
           Some err \<Rightarrow> (refunded, writeError 400 ''bad_request'' (''read body: '' @ err) 0 reqID w, [])
         | None \<Rightarrow>
             if \<not> fe_newreq e (rq_Method r) (s_upstream s @ rq_Path r) then
               (refunded, writeError 500 ''internal'' ''build upstream request'' 0 reqID w, [])
             else
               (let up = upstream_request r (s_upstream s @ rq_Path r) secret body
                in case fe_do e up of
                     Inl err \<Rightarrow>
                       (emitAudit (quota_record (fe_done e) sid (rq_Path r) 502) refunded,
                        writeError 502 ''internal'' (''upstream error: '' @ err) 0 reqID w, [up])
                   | Inr resp \<Rightarrow> (case relay e r sid resp w s of (s', w') \<Rightarrow> (s', w', [up]))))"

definition retry_seconds :: "quota_error \<Rightarrow> int" where
  "retry_seconds q = qe_retry q div Second"

definition forward_inner ::
  "fwd_env \<Rightarrow> http_request \<Rightarrow> response_writer \<Rightarrow> server \<Rightarrow> server \<times> response_writer \<times> up_request list" where
  "forward_inner e r w0 s =
     (let hdr = header_Get (rq_Header r) ''X-Request-Id'';
          reqID = (if hdr = [] then fe_uuid e else hdr);
          w = set_header ''X-Request-Id'' reqID w0
      in case bearerToken r of
           None \<Rightarrow> (s, writeError 401 ''auth_required'' ''missing bearer token'' 0 reqID w, [])
         | Some sid \<Rightarrow>
             (case SecretForSession sid (s_pool s) of
                Inl ErrUnknownSession \<Rightarrow> (s, writeError 401 ''auth_invalid'' ''unknown session token'' 0 reqID w, [])
              | Inl ErrKeyRevoked \<Rightarrow> (s, writeError 503 ''internal'' ''session key revoked'' 5 reqID w, [])
              | Inl _ \<Rightarrow> (s, writeError 500 ''internal'' ''key resolve failed'' 0 reqID w, [])
              | Inr (secret, keyID) \<Rightarrow>
                  (let w1 = set_header ''X-Proxy-Key-Id'' keyID w
                   in case Reserve (fe_t0 e) (fe_now e) sid (s_quota s) of
                        (q, Inl qerr) \<Rightarrow>
                          (let retry = retry_seconds qerr;
                               w2 = (if retry > 0 then set_header ''Retry-After'' (FormatInt retry) w1 else w1)
                           in (emitAudit (quota_record (fe_now e) sid (rq_Path r) 429) (s\<lparr>s_quota := q\<rparr>),
                               writeError 429 ''rate_limited'' (code_string (qe_code qerr)) retry reqID w2, []))
                      | (q, Inr _) \<Rightarrow> forward_reserved e r reqID sid secret w1 (s\<lparr>s_quota := q\<rparr>))))"

definition handleForward ::
  "fwd_env \<Rightarrow> http_request \<Rightarrow> response_writer \<Rightarrow> server \<Rightarrow> server \<times> response_writer \<times> up_request list" where
  "handleForward e r w s =
     (case forward_inner e r w (s\<lparr>s_inflight := s_inflight s + 1\<rparr>) of
        (s', w', ups) \<Rightarrow> (s'\<lparr>s_inflight := s_inflight s' - 1\<rparr>, w', ups))"

section \<open>Administration and routing\<close>

definition checkAdmin :: "http_request \<Rightarrow> response_writer \<Rightarrow> server \<Rightarrow> response_writer + unit" where
  "checkAdmin r w s =
     (if s_admin s = [] then Inl (http_Error ''admin disabled'' 404 w)
      else if (case bearerToken r of None \<Rightarrow> [] | Some t \<Rightarrow> t) \<noteq> s_admin s then Inl (http_Error ''forbidden'' 403 w)
      else Inr ())"

definition request_text :: "http_request \<Rightarrow> string" where
  "request_text r = (case rq_Body r of None \<Rightarrow> [] | Some b \<Rightarrow> br_bytes b)"

text \<open>
  \<open>handleAdminRotate\<close> in one piece; how it waits for the in-flight requests is the step
  relation below. The text of a decoding error is a parameter.
\<close>

definition handleAdminRotate :: "string \<Rightarrow> http_request \<Rightarrow> response_writer \<Rightarrow> server \<Rightarrow> server \<times> response_writer" where
  "handleAdminRotate err r w s =
     (case checkAdmin r w s of
        Inl w' \<Rightarrow> (s, w')
      | Inr _ \<Rightarrow>
          (case decode_into dec_keys [] (request_text r) of
             None \<Rightarrow> (s, http_Error (''bad body: '' @ err) 400 w)
           | Some nxt \<Rightarrow>
               if nxt = [] then (s, http_Error ''cannot rotate to empty pool'' 400 w)
               else (s\<lparr>s_pool := Replace nxt (s_pool s)\<rparr>,
                     rs_write (print_json (JObj [(''ok'', JBool True)])) (WriteHeader 200 w))))"

definition dec_session_id :: "string decoder" where
  "dec_session_id = dec_struct (\<lambda>f v x. if f = fold_name ''session_id'' then dec_string v x else (x, True))"

text \<open>The error texts; \<open>err\<close> is the text of the wrapped decoder or generator error.\<close>

fun keys_error_text :: "string \<Rightarrow> keys_error \<Rightarrow> string" where
  "keys_error_text err ErrEmptyPool = ''keys: pool is empty''"
| "keys_error_text err ErrKeyRevoked = ''keys: session key has been rotated out''"
| "keys_error_text err ErrUnknownSession = ''keys: unknown session token''"
| "keys_error_text err (ErrMissing i) = ''keys: entry '' @ show_nat i @ '' missing id or secret''"
| "keys_error_text err ErrParse = ''keys: parse ANTHROPIC_API_KEYS: '' @ err"
| "keys_error_text err ErrRand = err"

definition handleAdminMint ::
  "string \<Rightarrow> 8 word list option \<Rightarrow> http_request \<Rightarrow> response_writer \<Rightarrow> server \<Rightarrow> server \<times> response_writer" where
  "handleAdminMint rerr rnd r w s =
     (case checkAdmin r w s of
        Inl w' \<Rightarrow> (s, w')
      | Inr _ \<Rightarrow>
          (case decode_into dec_session_id [] (request_text r) of
             None \<Rightarrow> (s, http_Error ''bad body'' 400 w)
           | Some _ \<Rightarrow>
               (case MintSessionToken rnd (s_pool s) of
                  (p, Inl err) \<Rightarrow> (s\<lparr>s_pool := p\<rparr>, http_Error (''mint: '' @ keys_error_text rerr err) 500 w)
                | (p, Inr tok) \<Rightarrow>
                    (s\<lparr>s_pool := p\<rparr>,
                     rs_write (print_json (JObj [(''token'', JStr tok)]) @ [CHR 0x0A])
                       (set_header ''Content-Type'' ''application/json'' w)))))"

definition handleHealth :: "response_writer \<Rightarrow> response_writer" where
  "handleHealth w = rs_write (print_json (JObj [(''ok'', JBool True)])) (WriteHeader 200 w)"

datatype route = R_forward | R_redirect | R_rotate | R_mint | R_health | R_not_found

text \<open>
  The patterns registered by \<open>routes\<close>, for a path the mux does not have to clean:
  \<open>/v1/\<close> is a subtree, which \<open>/v1\<close> is redirected to; the others are exact.
\<close>

definition route_of :: "string \<Rightarrow> route" where
  "route_of path =
     (if path = ''/admin/rotate'' then R_rotate
      else if path = ''/admin/mint'' then R_mint
      else if path = ''/healthz'' then R_health
      else if HasPrefix path ''/v1/'' then R_forward
      else if path = ''/v1'' then R_redirect
      else R_not_found)"

section \<open>Draining before a rotation\<close>

text \<open>
  The interleaving of forwards and of a rotation. Every forward increments \<open>inflight\<close> when
  it begins and decrements it when it ends, both under the mutex; the rotation starts a
  goroutine that waits for \<open>inflight\<close> to be zero, goes on when that goroutine is done or
  after 30 seconds, and then replaces the pool. \<open>dr_before\<close> are the forwards that were in
  flight when the rotation began.
\<close>

datatype rotation = Idle | Draining "api_key list" | Drained "api_key list" | Timed_out "api_key list"

record drain =
  dr_active :: "nat set"
  dr_inflight :: int
  dr_rot :: rotation
  dr_before :: "nat set"
  dr_pool :: key_pool

inductive drain_step :: "drain \<Rightarrow> drain \<Rightarrow> bool" where
  begin_fwd: "i \<notin> dr_active d \<Longrightarrow> i \<notin> dr_before d \<Longrightarrow>
     drain_step d (d\<lparr>dr_active := insert i (dr_active d), dr_inflight := dr_inflight d + 1\<rparr>)"
| end_fwd: "i \<in> dr_active d \<Longrightarrow>
     drain_step d (d\<lparr>dr_active := dr_active d - {i}, dr_inflight := dr_inflight d - 1\<rparr>)"
| rotate: "dr_rot d = Idle \<Longrightarrow> nxt \<noteq> [] \<Longrightarrow>
     drain_step d (d\<lparr>dr_rot := Draining nxt, dr_before := dr_active d\<rparr>)"
| drained: "dr_rot d = Draining nxt \<Longrightarrow> \<not> 0 < dr_inflight d \<Longrightarrow> drain_step d (d\<lparr>dr_rot := Drained nxt\<rparr>)"
| timeout: "dr_rot d = Draining nxt \<Longrightarrow> drain_step d (d\<lparr>dr_rot := Timed_out nxt\<rparr>)"
| swap: "dr_rot d = Drained nxt \<or> dr_rot d = Timed_out nxt \<Longrightarrow>
     drain_step d (d\<lparr>dr_rot := Idle, dr_before := {}, dr_pool := Replace nxt (dr_pool d)\<rparr>)"

definition drain_start :: "drain \<Rightarrow> bool" where
  "drain_start d \<longleftrightarrow> dr_active d = {} \<and> dr_inflight d = 0 \<and> dr_rot d = Idle \<and> dr_before d = {}
     \<and> p_keys (dr_pool d) \<noteq> []"

definition rotation_keys :: "rotation \<Rightarrow> api_key list option" where
  "rotation_keys x =
     (case x of Idle \<Rightarrow> None | Draining ks \<Rightarrow> Some ks | Drained ks \<Rightarrow> Some ks | Timed_out ks \<Rightarrow> Some ks)"

definition drain_inv :: "drain \<Rightarrow> bool" where
  "drain_inv d \<longleftrightarrow> finite (dr_active d) \<and> dr_inflight d = int (card (dr_active d))
     \<and> (\<forall>nxt. dr_rot d = Drained nxt \<longrightarrow> dr_before d \<inter> dr_active d = {})
     \<and> (\<forall>nxt. rotation_keys (dr_rot d) = Some nxt \<longrightarrow> nxt \<noteq> [])
     \<and> p_keys (dr_pool d) \<noteq> []"

section \<open>Specification\<close>

text \<open>The session, secret and key id a request resolves to.\<close>

definition resolved :: "http_request \<Rightarrow> server \<Rightarrow> (string \<times> string \<times> string) option" where
  "resolved r s =
     (case bearerToken r of
        None \<Rightarrow> None
      | Some sid \<Rightarrow>
          (case SecretForSession sid (s_pool s) of
             Inl _ \<Rightarrow> None
           | Inr (secret, keyID) \<Rightarrow> Some (sid, secret, keyID)))"

definition request_body :: "http_request \<Rightarrow> string" where
  "request_body r = (case rq_Body r of None \<Rightarrow> [] | Some b \<Rightarrow> fst (read_limited (2 ^ 20) b))"

definition request_id :: "fwd_env \<Rightarrow> http_request \<Rightarrow> string" where
  "request_id e r =
     (let hdr = header_Get (rq_Header r) ''X-Request-Id'' in if hdr = [] then fe_uuid e else hdr)"

definition the_request :: "http_request \<Rightarrow> string \<Rightarrow> server \<Rightarrow> up_request" where
  "the_request r secret s = upstream_request r (s_upstream s @ rq_Path r) secret (request_body r)"

definition prepared :: "fwd_env \<Rightarrow> http_request \<Rightarrow> string \<Rightarrow> response_writer \<Rightarrow> response_writer" where
  "prepared e r keyID w = set_header ''X-Proxy-Key-Id'' keyID (set_header ''X-Request-Id'' (request_id e r) w)"

text \<open>A proxy with one key and one session, and a request of that session.\<close>

definition ex_server :: server where
  "ex_server =
     \<lparr>s_pool = register_all [''tok''] (keys_New [\<lparr>key_ID = ''a'', key_Workspace = [], key_Secret = ''sk''\<rparr>]),
      s_quota = quota_New DefaultLimits, s_audit = [], s_inflight = 0, s_admin = ''adm'',
      s_upstream = ''https://up''\<rparr>"

definition ex_request :: "string \<Rightarrow> http_request" where
  "ex_request tok =
     \<lparr>rq_Method = ''POST'', rq_Path = ''/v1/messages'',
      rq_Header = [(''Authorization'', [''Bearer '' @ tok]), (''X-Custom'', [''1''])], rq_Body = None\<rparr>"

definition ex_env :: "(string + up_response) \<Rightarrow> fwd_env" where
  "ex_env ans =
     \<lparr>fe_uuid = ''u'', fe_t0 = 0, fe_now = 0, fe_done = 1, fe_newreq = (\<lambda>_ _. True), fe_do = (\<lambda>_. ans)\<rparr>"

definition ex_response :: up_response where
  "ex_response =
     \<lparr>up_Status = 200, up_Header = [(''Content-Type'', [''application/json''])],
      up_Body = \<lparr>br_chunks = [''[]''], br_err = None\<rparr>\<rparr>"

definition ex_client :: client_writer where
  "ex_client = \<lparr>cw_out = [], cw_flushed = 0, cw_flusher = True, cw_left = None\<rparr>"

section \<open>Lemmas\<close>

lemma emitAudit_simps [simp]:
  "s_pool (emitAudit r s) = s_pool s" "s_quota (emitAudit r s) = s_quota s"
  "s_audit (emitAudit r s) = s_audit s @ [r]" "s_inflight (emitAudit r s) = s_inflight s"
  "s_admin (emitAudit r s) = s_admin s" "s_upstream (emitAudit r s) = s_upstream s"
  by (simp_all add: emitAudit_def)

lemma emitAudit_upd [simp]:
  "(emitAudit r s)\<lparr>s_inflight := n\<rparr> = emitAudit r (s\<lparr>s_inflight := n\<rparr>)"
  by (simp add: emitAudit_def)

lemma writeError_status [simp]:
  "rs_status w = 0 \<Longrightarrow> st \<noteq> 0 \<Longrightarrow> rs_status (writeError st code msg retry reqID w) = st"
  by (simp add: writeError_def)

lemma forward_reserved_cases:
  obtains
    (aborted') w' where
      "forward_reserved e r reqID sid secret w s = (s\<lparr>s_quota := Refund (fe_done e) sid (s_quota s)\<rparr>, w', [])"
      "rs_status w = 0 \<Longrightarrow> rs_status w' \<in> {400, 500}"
      "(\<exists>b err. rq_Body r = Some b \<and> snd (read_limited (2 ^ 20) b) = Some err)
         \<or> \<not> fe_newreq e (rq_Method r) (s_upstream s @ rq_Path r)"
  | (failed') err w' where "fe_do e (the_request r secret s) = Inl err"
      "forward_reserved e r reqID sid secret w s =
         (emitAudit (quota_record (fe_done e) sid (rq_Path r) 502)
            (s\<lparr>s_quota := Refund (fe_done e) sid (s_quota s)\<rparr>), w', [the_request r secret s])"
      "rs_status w = 0 \<Longrightarrow> rs_status w' = 502"
  | (answered') resp where "fe_do e (the_request r secret s) = Inr resp"
      "forward_reserved e r reqID sid secret w s =
         (case relay e r sid resp w s of (s', w') \<Rightarrow> (s', w', [the_request r secret s]))"
proof (cases "case rq_Body r of None \<Rightarrow> ([], None) | Some b \<Rightarrow> read_limited (2 ^ 20) b")
  case (Pair body rerr)
  have body: "request_body r = body"
    using Pair by (simp add: request_body_def split: option.splits)
  consider (err) err where "rerr = Some err"
    | (url) "rerr = None" "\<not> fe_newreq e (rq_Method r) (s_upstream s @ rq_Path r)"
    | (sent) "rerr = None" "fe_newreq e (rq_Method r) (s_upstream s @ rq_Path r)"
    by (cases rerr) auto
  then show ?thesis
  proof cases
    case sent
    then show ?thesis
      using body Pair failed' answered'
      by (cases "fe_do e (the_request r secret s)")
        (auto simp: forward_reserved_def Let_def the_request_def)
  next
    case err
    then have "\<exists>b err. rq_Body r = Some b \<and> snd (read_limited (2 ^ 20) b) = Some err"
      using Pair by (cases "rq_Body r") auto
    then show ?thesis
      using err Pair by (intro aborted') (auto simp: forward_reserved_def Let_def)
  next
    case url
    then show ?thesis
      using Pair by (intro aborted') (auto simp: forward_reserved_def Let_def)
  qed
qed

lemma forward_cases [case_names unresolved limited aborted failed answered]:
  obtains
    (unresolved) w' where "resolved r s = None" "handleForward e r w s = (s, w', [])"
      "rs_status w = 0 \<Longrightarrow> rs_status w' =
         (case bearerToken r of
            Some sid \<Rightarrow> (case SecretForSession sid (s_pool s) of Inl ErrKeyRevoked \<Rightarrow> 503 | _ \<Rightarrow> 401)
          | None \<Rightarrow> 401)"
  | (limited) sid secret kid q qerr w' where "resolved r s = Some (sid, secret, kid)"
      "Reserve (fe_t0 e) (fe_now e) sid (s_quota s) = (q, Inl qerr)"
      "handleForward e r w s =
         (emitAudit (quota_record (fe_now e) sid (rq_Path r) 429) (s\<lparr>s_quota := q\<rparr>), w', [])"
      "rs_status w = 0 \<Longrightarrow> rs_status w' = 429"
  | (aborted) sid secret kid q w' where "resolved r s = Some (sid, secret, kid)"
      "Reserve (fe_t0 e) (fe_now e) sid (s_quota s) = (q, Inr ())"
      "handleForward e r w s = (s\<lparr>s_quota := Refund (fe_done e) sid q\<rparr>, w', [])"
      "rs_status w = 0 \<Longrightarrow> rs_status w' \<in> {400, 500}"
      "(\<exists>b err. rq_Body r = Some b \<and> snd (read_limited (2 ^ 20) b) = Some err)
         \<or> \<not> fe_newreq e (rq_Method r) (s_upstream s @ rq_Path r)"
  | (failed) sid secret kid q w' err where "resolved r s = Some (sid, secret, kid)"
      "Reserve (fe_t0 e) (fe_now e) sid (s_quota s) = (q, Inr ())"
      "fe_do e (the_request r secret s) = Inl err"
      "handleForward e r w s =
         (emitAudit (quota_record (fe_done e) sid (rq_Path r) 502)
            (s\<lparr>s_quota := Refund (fe_done e) sid q\<rparr>), w', [the_request r secret s])"
      "rs_status w = 0 \<Longrightarrow> rs_status w' = 502"
  | (answered) sid secret kid q resp where "resolved r s = Some (sid, secret, kid)"
      "Reserve (fe_t0 e) (fe_now e) sid (s_quota s) = (q, Inr ())"
      "fe_do e (the_request r secret s) = Inr resp"
      "handleForward e r w s =
         (case relay e r sid resp (prepared e r kid w) (s\<lparr>s_quota := q\<rparr>) of
            (s', w') \<Rightarrow> (s', w', [the_request r secret s]))"
proof (cases "bearerToken r")
  case None
  then show ?thesis
    by (intro unresolved) (auto simp: resolved_def handleForward_def forward_inner_def Let_def)
next
  case (Some sid)
  note tok = Some
  show ?thesis
  proof (cases "SecretForSession sid (s_pool s)")
    case (Inl err)
    then have "err = ErrUnknownSession \<or> err = ErrKeyRevoked"
      by (auto simp: SecretForSession_def split: option.splits)
    then show ?thesis
      using tok Inl
      by (elim disjE; intro unresolved) (auto simp: resolved_def handleForward_def forward_inner_def Let_def)
  next
    case (Inr x)
    obtain secret kid where x: "x = (secret, kid)"
      by (cases x)
    have res: "resolved r s = Some (sid, secret, kid)"
      using tok Inr x by (simp add: resolved_def)
    obtain q y where R: "Reserve (fe_t0 e) (fe_now e) sid (s_quota s) = (q, y)"
      by (cases "Reserve (fe_t0 e) (fe_now e) sid (s_quota s)")
    show ?thesis
    proof (cases y)
      case (Inl qerr)
      show ?thesis
        by (rule limited [OF res R [unfolded Inl]])
          (auto simp: handleForward_def forward_inner_def Let_def tok Inr x R Inl)
    next
      case y: (Inr u)
      define w1 where "w1 = prepared e r kid w"
      have f: "handleForward e r w s =
        (case forward_reserved e r (request_id e r) sid secret w1 (s\<lparr>s_inflight := s_inflight s + 1, s_quota := q\<rparr>) of
           (s', w', ups) \<Rightarrow> (s'\<lparr>s_inflight := s_inflight s' - 1\<rparr>, w', ups))"
        by (simp add: handleForward_def forward_inner_def Let_def tok Inr x R y w1_def prepared_def request_id_def)
      have w1: "rs_status w1 = rs_status w"
        by (simp add: w1_def prepared_def)
      have R': "Reserve (fe_t0 e) (fe_now e) sid (s_quota s) = (q, Inr ())"
        using R y by simp
      let ?s = "s\<lparr>s_inflight := s_inflight s + 1, s_quota := q\<rparr>"
      have the: "the_request r secret ?s = the_request r secret s"
        by (simp add: the_request_def)
      show ?thesis
      proof (cases rule: forward_reserved_cases [of e r "request_id e r" sid secret w1 ?s])
        case (aborted' w')
        then show ?thesis
          using w1 by (intro aborted [OF res R']) (simp_all add: f)
      next
        case (failed' err w')
        then show ?thesis
          using w1 the by (intro failed [OF res R', of err]) (simp_all add: f)
      next
        case (answered' resp)
        then show ?thesis
          using the
          by (intro answered [OF res R', of resp]) (simp_all add: f w1_def relay_def Let_def split: prod.split)
      qed
    qed
  qed
qed

lemma Reserve_refund:
  assumes "window_inv m" "Reserve t0 now sid m = (q, Inr ())"
  shows "Refund t sid q = put_bucket sid (roll_window now (get_bucket t0 sid m)) m"
proof (cases rule: Reserve_cases [of t0 now sid m])
  case (ok b)
  have "bucket_ok (q_limits m) b"
    unfolding ok(2) by (intro bucket_ok_roll bucket_ok_get assms(1))
  then have "wrap64 (b_windowCount b + 1) = b_windowCount b + 1" "0 \<le> b_windowCount b"
    using ok(3) assms(1) by (auto simp: bucket_ok_def window_inv_def int64_range_def intro!: wrap64_id)
  then show ?thesis
    using ok(1,2) assms(2) by (auto simp: Refund_def Let_def get_bucket_def put_bucket_def)
qed (use assms(2) in simp_all)

lemma Reserve_frame:
  assumes "Reserve t0 now sid m = (q, x)" "other \<noteq> sid"
  shows "q_buckets q other = q_buckets m other"
  using quota_step_other [of "Op_reserve t0 now sid" other m] assms by simp

lemma Reserve_usage: "Reserve t0 now sid m = (q, x) \<Longrightarrow> session_usage q other = session_usage m other"
  by (metis Reserve_requests fst_conv)

lemma relay_server:
  assumes "streamBody (HasPrefix (header_Get (up_Header resp) ''Content-Type'') ''text/event-stream'')
      (up_Body resp) (rs_client w) = (client, u, cap, err)"
  shows "relay e r sid resp w s =
      (emitAudit \<lparr>TS = fe_done e, SessionID = sid, Endpoint = rq_Path r, RequestTokens = u_request u,
          ResponseTokens = u_response u, CostUSDMicros = estimateCostMicros u, Status = up_Status resp\<rparr>
        (s\<lparr>s_quota := Commit (fe_done e) sid (u_request u) (u_response u) (s_quota s)\<rparr>),
       (WriteHeader (up_Status resp) (w\<lparr>rs_header := add_headers (up_Header resp) (rs_header w)\<rparr>))\<lparr>rs_client := client\<rparr>)"
  using assms by (simp add: relay_def Let_def)

lemma canonical_keys [simp]:
  "CanonicalHeaderKey ''x-api-key'' = ''X-Api-Key''"
  "CanonicalHeaderKey ''anthropic-version'' = ''Anthropic-Version''"
  by code_simp+

lemma filter_forwarded:
  "filter (\<lambda>(k', _). CanonicalHeaderKey k' = c) (filter (\<lambda>(k, _). CanonicalHeaderKey k \<notin> S) h) =
     (if c \<in> S then [] else filter (\<lambda>(k', _). CanonicalHeaderKey k' = c) h)"
  by (induction h) auto

lemma copyForwardHeaders_values:
  "header_values (copyForwardHeaders [] h) k =
     (if CanonicalHeaderKey k \<in> set strippedHeaders then []
      else concat (map snd (filter (\<lambda>(k', _). CanonicalHeaderKey k' = CanonicalHeaderKey k) h)))"
  unfolding copyForwardHeaders_def add_headers_values filter_forwarded by (simp add: header_values_def)

lemma the_request_headers:
  "header_values (ur_Header (the_request r secret s)) k =
     (let c = CanonicalHeaderKey k
      in if c = ''Anthropic-Version'' then
           [firstNonEmpty (header_Get (rq_Header r) ''anthropic-version'') ''2023-06-01'']
         else if c = ''X-Api-Key'' then [secret]
         else if c \<in> set strippedHeaders then []
         else concat (map snd (filter (\<lambda>(k', _). CanonicalHeaderKey k' = c) (rq_Header r))))"
  unfolding the_request_def upstream_request_def up_request.simps header_Set_values copyForwardHeaders_values Let_def
  by (auto simp: strippedHeaders_def)

lemma drain_inv_step: "drain_step d d' \<Longrightarrow> drain_inv d \<Longrightarrow> drain_inv d'"
proof (induction rule: drain_step.induct)
  case (end_fwd i d)
  then have "0 < card (dr_active d)"
    by (auto simp: drain_inv_def card_gt_0_iff)
  then show ?case
    using end_fwd by (auto simp: drain_inv_def)
qed (auto simp: drain_inv_def rotation_keys_def Replace_def card_insert_if split: rotation.splits)

lemma drain_start_inv: "drain_start d \<Longrightarrow> drain_inv d"
  by (simp add: drain_start_def drain_inv_def rotation_keys_def)

interpretation draining: invariant_system drain_start drain_step drain_inv
  by unfold_locales (auto intro: drain_inv_step drain_start_inv)


lemma ex_token: "bearerToken (ex_request ''tok'') = Some ''tok''" "bearerToken (ex_request ''bad'') = Some ''bad''"
proof -
  have "CanonicalHeaderKey ''Authorization'' = ''Authorization''"
    by code_simp
  moreover have "TrimSpace ''tok'' = ''tok''" "TrimSpace ''bad'' = ''bad''"
    by (rule TrimSpace_plain; simp add: plain_char_def)+
  ultimately show "bearerToken (ex_request ''tok'') = Some ''tok''" "bearerToken (ex_request ''bad'') = Some ''bad''"
    by (simp_all add: bearerToken_def ex_request_def header_Get_def header_values_def Let_def HasPrefix_def TrimPrefix_def)
qed

lemma ex_pool: "SecretForSession ''tok'' (s_pool ex_server) = Inr (''sk'', ''a'')"
  "SecretForSession ''bad'' (s_pool ex_server) = Inl ErrUnknownSession"
  by (simp_all add: ex_server_def keys_New_def Replace_def RegisterSessionToken_def SecretForSession_def)

lemma ex_resolved: "resolved (ex_request ''tok'') ex_server = Some (''tok'', ''sk'', ''a'')"
  "resolved (ex_request ''bad'') ex_server = None"
  by (simp_all add: resolved_def ex_token ex_pool)

lemma ex_reserve: "\<exists>q. Reserve 0 0 ''tok'' (s_quota ex_server) = (q, Inr ())"
  by (simp add: ex_server_def quota_New_def DefaultLimits_def Reserve_def Let_def get_bucket_def roll_window_def
      no_usage_def put_bucket_def time_sub_def Minute_def Second_def max_duration_def min_duration_def)

lemma ex_status [simp]: "rs_status (new_response c) = 0" "rs_client (new_response c) = c"
  by (simp_all add: new_response_def)

lemma ex_window: "window_inv (s_quota ex_server)"
  by (simp add: ex_server_def quota_New_def DefaultLimits_def window_inv_def int64_range_def)

lemma ex_sent: "snd (snd (handleForward (ex_env ans) (ex_request ''tok'') w ex_server)) = [the_request (ex_request ''tok'') ''sk'' ex_server]"
proof (cases rule: forward_cases [of "ex_request ''tok''" ex_server "ex_env ans" w])
  case (limited sid secret kid q qerr w')
  then show ?thesis
    using ex_resolved ex_reserve by (auto simp: ex_env_def)
next
  case (aborted sid secret kid q w')
  then show ?thesis
    by (simp add: ex_env_def ex_request_def)
next
  case (answered sid secret kid q resp)
  then show ?thesis
    using ex_resolved by (simp split: prod.split)
qed (use ex_resolved in simp_all)




text \<open>
  C23: accounting. For a request of a resolved session, the buckets of all other sessions
  are untouched. If the upstream answered, the session is charged one request and exactly
  the usage seen in the body, and one audit record holds that usage, its cost and the
  upstream's status. In every other case its usage is unchanged, and if the reservation had
  been granted its slot of the minute is given back.
\<close>

theorem forward_accounting:
  assumes "window_inv (s_quota s)" "resolved r s = Some (sid, secret, kid)"
    and "handleForward e r w s = (s', w', ups)"
  shows "(\<forall>other. other \<noteq> sid \<longrightarrow> q_buckets (s_quota s') other = q_buckets (s_quota s) other)
       \<and> (case ups of
            [] \<Rightarrow> session_usage (s_quota s') sid = session_usage (s_quota s) sid
               \<and> (snd (Reserve (fe_t0 e) (fe_now e) sid (s_quota s)) = Inr () \<longrightarrow>
                    q_buckets (s_quota s') sid
                      = Some (roll_window (fe_now e) (get_bucket (fe_t0 e) sid (s_quota s))))
          | up # _ \<Rightarrow>
              (case fe_do e up of
                 Inl _ \<Rightarrow> q_buckets (s_quota s') sid
                            = Some (roll_window (fe_now e) (get_bucket (fe_t0 e) sid (s_quota s)))
                        \<and> s_audit s' = s_audit s @ [quota_record (fe_done e) sid (rq_Path r) 502]
               | Inr resp \<Rightarrow>
                   (let u = fst (snd (streamBody (HasPrefix (header_Get (up_Header resp) ''Content-Type'') ''text/event-stream'')
                                        (up_Body resp) (rs_client w)));
                        old = session_usage (s_quota s) sid
                    in session_usage (s_quota s') sid =
                         \<lparr>TokensIn = wrap64 (TokensIn old + u_request u),
                          TokensOut = wrap64 (TokensOut old + u_response u), Requests = wrap64 (Requests old + 1)\<rparr>
                     \<and> s_audit s' = s_audit s @
                         [\<lparr>TS = fe_done e, SessionID = sid, Endpoint = rq_Path r, RequestTokens = u_request u,
                           ResponseTokens = u_response u, CostUSDMicros = estimateCostMicros u,
                           Status = up_Status resp\<rparr>])))"
proof (cases rule: forward_cases [of r s e w])
  case (limited sid' secret' kid' q qerr w'')
  then show ?thesis
    using assms(2,3) by (auto simp: Reserve_frame Reserve_usage)
next
  case (aborted sid' secret' kid' q w'')
  have "s' = s\<lparr>s_quota := put_bucket sid (roll_window (fe_now e) (get_bucket (fe_t0 e) sid (s_quota s))) (s_quota s)\<rparr>"
    and "ups = []"
    using aborted assms(2,3) Reserve_refund [OF assms(1), of "fe_t0 e" "fe_now e" sid q] by auto
  then show ?thesis
    by simp
next
  case (failed sid' secret' kid' q w'' err)
  then show ?thesis
    using assms(2,3) Reserve_refund [OF assms(1), of "fe_t0 e" "fe_now e" sid q] by auto
next
  case (answered sid' secret' kid' q resp)
  obtain client u cap err where st: "streamBody (HasPrefix (header_Get (up_Header resp) ''Content-Type'') ''text/event-stream'')
      (up_Body resp) (rs_client w) = (client, u, cap, err)"
    by (metis prod_cases4)
  then have st': "streamBody (HasPrefix (header_Get (up_Header resp) ''Content-Type'') ''text/event-stream'')
      (up_Body resp) (rs_client (prepared e r kid w)) = (client, u, cap, err)"
    by (simp add: prepared_def)
  have q: "session_usage q sid = session_usage (s_quota s) sid"
    "\<And>other. other \<noteq> sid \<Longrightarrow> q_buckets q other = q_buckets (s_quota s) other"
    using answered(1,2) assms(2) Reserve_usage Reserve_frame by auto
  show ?thesis
    using answered assms(2,3) relay_server [OF st'] q
    by (auto simp: st Let_def Commit_def)
qed (use assms(2) in simp_all)

theorem forward_accounting_witness:
  "case handleForward (ex_env (Inl ''refused'')) (ex_request ''tok'') (new_response ex_client) ex_server of
     (s', w', ups) \<Rightarrow> s_audit s' = s_audit ex_server @ [quota_record 1 ''tok'' ''/v1/messages'' 502]"
proof (cases "handleForward (ex_env (Inl ''refused'')) (ex_request ''tok'') (new_response ex_client) ex_server")
  case (fields s' w' ups)
  have "ups = [the_request (ex_request ''tok'') ''sk'' ex_server]"
    using ex_sent [of "Inl ''refused''" "new_response ex_client"] fields by simp
  then show ?thesis
    using forward_accounting [OF ex_window ex_resolved(1) fields] fields
    by (simp add: ex_env_def ex_request_def)
qed

text \<open>
  C24: the client sees the upstream's answer. When the upstream answers, the response has
  its status, and the bytes written to the client are those of its body, up to a failure
  of the client's connection.
\<close>

theorem forward_transparent:
  assumes "handleForward e r w s = (s', w', [up])" "fe_do e up = Inr resp"
    and "rs_status w = 0" "up_Status resp \<noteq> 0"
  shows "rs_status w' = up_Status resp
       \<and> cw_out (rs_client w') = cw_out (rs_client w) @ cw_take (rs_client w) (br_bytes (up_Body resp))"
proof (cases rule: forward_cases [of r s e w])
  case (answered sid secret kid q resp')
  let ?sse = "HasPrefix (header_Get (up_Header resp) ''Content-Type'') ''text/event-stream''"
  obtain client u cap err where st: "streamBody ?sse (up_Body resp) (rs_client w) = (client, u, cap, err)"
    by (metis prod_cases4)
  then have st': "streamBody ?sse (up_Body resp) (rs_client (prepared e r kid w)) = (client, u, cap, err)"
    by (simp add: prepared_def)
  have "resp' = resp"
    using answered(3,4) assms(1,2) by (auto split: prod.splits)
  then show ?thesis
    using answered(4) assms streamBody_client(1) [OF st] relay_server [OF st']
    by (auto simp: prepared_def)
qed (use assms in auto)

theorem forward_transparent_witness:
  "case handleForward (ex_env (Inr ex_response)) (ex_request ''tok'') (new_response ex_client) ex_server of
     (s', w', ups) \<Rightarrow> rs_status w' = 200 \<and> cw_out (rs_client w') = ''[]''"
proof (cases "handleForward (ex_env (Inr ex_response)) (ex_request ''tok'') (new_response ex_client) ex_server")
  case (fields s' w' ups)
  have "ups = [the_request (ex_request ''tok'') ''sk'' ex_server]"
    using ex_sent [of "Inr ex_response" "new_response ex_client"] fields by simp
  then have "handleForward (ex_env (Inr ex_response)) (ex_request ''tok'') (new_response ex_client) ex_server
      = (s', w', [the_request (ex_request ''tok'') ''sk'' ex_server])"
    using fields by simp
  from forward_transparent [OF this, of ex_response] show ?thesis
    using fields by (simp add: ex_env_def ex_response_def ex_client_def cw_take_def br_bytes_def)
qed

text \<open>
  C25: rotation drains. In every interleaving the counter is the number of forwards in
  flight, the pool is never emptied, and a rotation that went on because the drain
  finished swaps the pool only after every forward that was in flight when it began has
  ended. (One that timed out may swap earlier.)
\<close>

theorem rotation_drains:
  assumes "reach drain_start drain_step d"
  shows "dr_inflight d = int (card (dr_active d)) \<and> p_keys (dr_pool d) \<noteq> []
       \<and> (\<forall>nxt. dr_rot d = Drained nxt \<longrightarrow> dr_before d \<inter> dr_active d = {})"
  using draining.reach_inv [OF assms] by (simp add: drain_inv_def)

theorem rotation_drains_witness:
  "\<exists>d. dr_rot d = Drained [\<lparr>key_ID = ''b'', key_Workspace = [], key_Secret = ''s2''\<rparr>]
      \<and> dr_before d \<inter> dr_active d = {} \<and> dr_before d = {0} \<and> reach drain_start drain_step d"
proof -
  let ?new = "[\<lparr>key_ID = ''b'', key_Workspace = [], key_Secret = ''s2''\<rparr>]"
  define d0 where "d0 = \<lparr>dr_active = {}, dr_inflight = 0, dr_rot = Idle, dr_before = {},
      dr_pool = keys_New [\<lparr>key_ID = ''a'', key_Workspace = [], key_Secret = ''s1''\<rparr>]\<rparr>"
  define d1 where "d1 = d0\<lparr>dr_active := {0}, dr_inflight := 1\<rparr>"
  define d2 where "d2 = d1\<lparr>dr_rot := Draining ?new, dr_before := {0}\<rparr>"
  define d3 where "d3 = d2\<lparr>dr_active := {}, dr_inflight := 0\<rparr>"
  define d4 where "d4 = d3\<lparr>dr_rot := Drained ?new\<rparr>"
  have "reach drain_start drain_step d0"
    by (rule reach_start) (simp add: d0_def drain_start_def keys_New_def Replace_def)
  then have "reach drain_start drain_step d1"
    by (rule reach_step) (use begin_fwd [of 0 d0] in \<open>simp add: d0_def d1_def\<close>)
  then have "reach drain_start drain_step d2"
    by (rule reach_step) (use rotate [of d1 ?new] in \<open>simp add: d0_def d1_def d2_def\<close>)
  then have "reach drain_start drain_step d3"
    by (rule reach_step) (use end_fwd [of 0 d2] in \<open>simp add: d0_def d1_def d2_def d3_def\<close>)
  then have r: "reach drain_start drain_step d4"
    by (rule reach_step) (use drained [of d3 ?new] in \<open>simp add: d0_def d1_def d2_def d3_def d4_def\<close>)
  have "dr_rot d4 = Drained ?new" "dr_before d4 = {0}"
    by (simp_all add: d4_def d3_def d2_def d1_def d0_def)
  then show ?thesis
    using rotation_drains [OF r] r by blast
qed

text \<open>
  C27: administration. Without the configured token the administrative handlers change
  nothing and answer 404 (no token configured) or 403; and a rotation never empties the
  pool.
\<close>

theorem admin_guarded:
  assumes "rs_status w = 0"
  shows "(s_admin s = [] \<or> bearerToken r \<noteq> Some (s_admin s) \<longrightarrow>
            fst (handleAdminRotate err r w s) = s \<and> fst (handleAdminMint rerr rnd r w s) = s
          \<and> rs_status (snd (handleAdminRotate err r w s)) \<in> {403, 404}
          \<and> rs_status (snd (handleAdminMint rerr rnd r w s)) \<in> {403, 404})
       \<and> (p_keys (s_pool s) \<noteq> [] \<longrightarrow> p_keys (s_pool (fst (handleAdminRotate err r w s))) \<noteq> [])"
proof -
  have guard: "\<exists>w'. checkAdmin r w s = Inl w' \<and> rs_status w' \<in> {403, 404}"
    if "s_admin s = [] \<or> bearerToken r \<noteq> Some (s_admin s)"
    using that assms by (cases "bearerToken r") (auto simp: checkAdmin_def)
  have "p_keys (s_pool (fst (handleAdminRotate err r w s))) \<noteq> []" if "p_keys (s_pool s) \<noteq> []"
    using that by (auto simp: handleAdminRotate_def Replace_def split: sum.split option.split)
  then show ?thesis
    using guard by (auto simp: handleAdminRotate_def handleAdminMint_def)
qed

theorem admin_guarded_witness:
  "fst (handleAdminRotate [] (ex_request ''bad'') (new_response ex_client) ex_server) = ex_server
   \<and> p_keys (s_pool ex_server) \<noteq> []"
proof -
  have "s_admin ex_server = ''adm''" "p_keys (s_pool ex_server) \<noteq> []"
    by (simp_all add: ex_server_def keys_New_def Replace_def RegisterSessionToken_def)
  then show ?thesis
    using admin_guarded [of "new_response ex_client" ex_server "ex_request ''bad''" "[]" "[]" None]
    by (simp add: ex_token)
qed

lemma sess_token_plain: "TrimSpace (''sess_'' @ hex_encode bs) = ''sess_'' @ hex_encode bs"
proof (rule TrimSpace_plain)
  have "plain_char (last (hex_encode bs))" if "bs \<noteq> []"
  proof -
    have "hex_encode bs \<noteq> []"
      using that length_hex_encode [of bs] by (metis length_0_conv mult_is_0 zero_neq_numeral)
    then show ?thesis
      using hex_encode_chars [of "last (hex_encode bs)" bs] digit_char_plain by auto
  qed
  then show "plain_char (last (''sess_'' @ hex_encode bs))"
    by (cases bs) (auto simp: last_append plain_char_def)
qed (simp_all add: plain_char_def)

lemma decode_session_id: "ascii sid \<Longrightarrow> decode_into dec_session_id [] (print_json (JObj [(''session_id'', JStr sid)])) = Some sid"
proof -
  assume a: "ascii sid"
  have "ascii ''session_id''"
    by code_simp
  then have "json_decode (print_json (JObj [(''session_id'', JStr sid)]) @ []) = Some (JObj [(''session_id'', JStr sid)], [])"
    using a by (intro json_roundtrip) (simp_all add: max_nesting_def)
  then show ?thesis
    by (simp add: decode_into_def dec_session_id_def dec_struct_def dec_string_def del: print_json.simps)
qed

text \<open>
  Minting. With the administrator's token and a well-formed body, \<open>/admin/mint\<close>
  answers with a fresh token, and a forwarded request that carries it as its bearer token
  resolves to the secret of the key whose turn it is in the round robin.
\<close>

theorem mint_resolves:
  assumes "s_admin s \<noteq> []" "bearerToken r = Some (s_admin s)" "ascii sid"
    and "request_text r = print_json (JObj [(''session_id'', JStr sid)])"
    and "indexed (s_pool s)" "p_keys (s_pool s) \<noteq> []" "distinct (map key_ID (p_keys (s_pool s)))"
    and "header_Get (rq_Header r') ''Authorization'' = ''Bearer '' @ ''sess_'' @ hex_encode bs"
  shows "let k = p_keys (s_pool s) ! (p_rr (s_pool s) mod length (p_keys (s_pool s)));
             (s', w') = handleAdminMint rerr (Some bs) r (new_response ex_client) s
         in resolved r' s' = Some (''sess_'' @ hex_encode bs, key_Secret k, key_ID k)
          \<and> cw_out (rs_client w') = print_json (JObj [(''token'', JStr (''sess_'' @ hex_encode bs))]) @ [CHR 0x0A]"
proof -
  let ?tok = "''sess_'' @ hex_encode bs"
  let ?k = "p_keys (s_pool s) ! (p_rr (s_pool s) mod length (p_keys (s_pool s)))"
  have "handleAdminMint rerr (Some bs) r (new_response ex_client) s =
    (s\<lparr>s_pool := assign_key ?tok (s_pool s)\<rparr>,
     rs_write (print_json (JObj [(''token'', JStr ?tok)]) @ [CHR 0x0A])
       (set_header ''Content-Type'' ''application/json'' (new_response ex_client)))"
    using assms(1-4,6) decode_session_id [OF assms(3)]
    by (simp add: handleAdminMint_def checkAdmin_def MintSessionToken_def randomToken_def del: print_json.simps)
  moreover have "bearerToken r' = Some ?tok"
    using assms(8) sess_token_plain [of bs] by (simp add: bearerToken_def Let_def HasPrefix_def TrimPrefix_def)
  moreover have "SecretForSession ?tok (assign_key ?tok (s_pool s)) = Inr (key_Secret ?k, key_ID ?k)"
  proof -
    have "index_keys (p_keys (s_pool s)) Map.empty (key_ID ?k) = Some ?k"
      using assms(6) by (intro index_keys_distinct [OF assms(7)] nth_mem) simp
    then show ?thesis
      using assms(5) by (simp add: SecretForSession_def indexed_def)
  qed
  ultimately show ?thesis
    by (simp add: resolved_def rs_write_def Let_def cw_write_def ex_client_def)
qed

theorem mint_resolves_witness:
  "resolved (ex_request (''sess_'' @ hex_encode [1, 255]))
     (fst (handleAdminMint [] (Some [1, 255])
        ((ex_request ''adm'')\<lparr>rq_Body := Some \<lparr>br_chunks = [print_json (JObj [(''session_id'', JStr ''s'')])], br_err = None\<rparr>\<rparr>)
        (new_response ex_client) ex_server))
   = Some (''sess_'' @ hex_encode [1, 255], ''sk'', ''a'')"
proof -
  let ?r = "(ex_request ''adm'')\<lparr>rq_Body := Some \<lparr>br_chunks = [print_json (JObj [(''session_id'', JStr ''s'')])], br_err = None\<rparr>\<rparr>"
  let ?r' = "ex_request (''sess_'' @ hex_encode [1, 255])"
  have c: "CanonicalHeaderKey ''Authorization'' = ''Authorization''"
    by code_simp
  have t: "TrimSpace ''adm'' = ''adm''"
    by (rule TrimSpace_plain) (simp_all add: plain_char_def)
  have "s_admin ex_server \<noteq> []" "bearerToken ?r = Some (s_admin ex_server)" "ascii ''s''"
    "request_text ?r = print_json (JObj [(''session_id'', JStr ''s'')])"
    "header_Get (rq_Header ?r') ''Authorization'' = ''Bearer '' @ ''sess_'' @ hex_encode [1, 255]"
    by (simp_all add: ex_server_def ex_request_def bearerToken_def header_Get_def header_values_def c t Let_def
        HasPrefix_def TrimPrefix_def request_text_def br_bytes_def ascii_def)
  moreover have "indexed (s_pool ex_server)" "p_keys (s_pool ex_server) \<noteq> []" "distinct (map key_ID (p_keys (s_pool ex_server)))"
    "p_keys (s_pool ex_server) ! (p_rr (s_pool ex_server) mod length (p_keys (s_pool ex_server))) = \<lparr>key_ID = ''a'', key_Workspace = [], key_Secret = ''sk''\<rparr>"
    by (simp_all add: ex_server_def keys_New_def Replace_def RegisterSessionToken_def indexed_def)
  ultimately show ?thesis
    using mint_resolves [of ex_server ?r "''s''" ?r' "[1, 255]" "[]"] by (simp add: Let_def split: prod.splits del: print_json.simps)
qed

end
