(* ===== verification/Proxy_Main.thy ===== *)
theory Proxy_Main
  imports Proxy_Server
begin

text \<open>
  The start of the proxy, \<open>proxy/cmd/claude-proxy/main.go\<close>: flags with defaults from the
  environment, keys, the audit sink, the server and the transport, or the reason of an exit. What
  \<open>url.Parse\<close> accepts and what the database answers are arguments; logging, signals and the HTTP
  server itself are left out.
\<close>

section \<open>Flags\<close>

definition envOr :: "(string \<Rightarrow> string) \<Rightarrow> string \<Rightarrow> string \<Rightarrow> string" where
  "envOr getenv k d = (let v = TrimSpace (getenv k) in if v \<noteq> [] then v else d)"

text \<open>What the command line gives; \<open>None\<close> when the flag is absent.\<close>

record proxy_flags =
  pf_listen :: "string option"
  pf_tlsCert :: "string option"
  pf_tlsKey :: "string option"
  pf_plain :: bool
  pf_upstream :: "string option"
  pf_pgURL :: "string option"

definition flag_value :: "string option \<Rightarrow> string \<Rightarrow> string" where
  "flag_value given d = (case given of Some v \<Rightarrow> v | None \<Rightarrow> d)"

section \<open>Start\<close>

datatype proxy_exit = X_keys keys_error | X_open | X_ping | X_schema | X_server server_error | X_tls

datatype proxy_sink = Memory_sink | SQL_sink string

record proxy_running =
  pr_listen :: string
  pr_server :: server
  pr_sink :: proxy_sink
  pr_tls :: "(string \<times> string) option"

record pg_answers =
  pa_open :: "string \<Rightarrow> bool"
  pa_ping :: "string \<Rightarrow> bool"
  pa_schema :: "string \<Rightarrow> bool"

definition proxy_audit :: "pg_answers \<Rightarrow> string \<Rightarrow> proxy_exit + proxy_sink" where
  "proxy_audit pg pgURL =
     (if pgURL \<noteq> [] then
        if \<not> pa_open pg pgURL then Inl X_open
        else if \<not> pa_ping pg pgURL then Inl X_ping
        else if \<not> pa_schema pg pgURL then Inl X_schema
        else Inr (SQL_sink pgURL)
      else Inr Memory_sink)"

definition proxy_transport :: "proxy_flags \<Rightarrow> (string \<Rightarrow> string) \<Rightarrow> proxy_exit + (string \<times> string) option" where
  "proxy_transport fl getenv =
     (let tlsCert = flag_value (pf_tlsCert fl) (getenv ''PROXY_TLS_CERT_FILE'');
          tlsKey = flag_value (pf_tlsKey fl) (getenv ''PROXY_TLS_KEY_FILE'')
      in if \<not> pf_plain fl then if tlsCert = [] \<or> tlsKey = [] then Inl X_tls else Inr (Some (tlsCert, tlsKey))
         else Inr None)"

definition proxy_config :: "proxy_flags \<Rightarrow> (string \<Rightarrow> string) \<Rightarrow> api_key list \<Rightarrow> server_config" where
  "proxy_config fl getenv ks =
     \<lparr>cfg_Upstream = flag_value (pf_upstream fl) (envOr getenv ''PROXY_UPSTREAM'' ''https://api.anthropic.com''),
      cfg_Pool = Some (keys_New ks), cfg_Quota = Some (quota_New DefaultLimits), cfg_Audit = Some NewInMemorySink,
      cfg_AdminToken = getenv ''PROXY_ADMIN_TOKEN''\<rparr>"

definition proxy_main ::
  "(string \<Rightarrow> string option) \<Rightarrow> pg_answers \<Rightarrow> proxy_flags \<Rightarrow> (string \<Rightarrow> string) \<Rightarrow> proxy_exit + proxy_running" where
  "proxy_main url_parse pg fl getenv =
     (case LoadFromEnv (getenv ''ANTHROPIC_API_KEYS'') of
        Inl e \<Rightarrow> Inl (X_keys e)
      | Inr ks \<Rightarrow>
          (case proxy_audit pg (flag_value (pf_pgURL fl) (getenv ''POSTGRES_URL'')) of
             Inl e \<Rightarrow> Inl e
           | Inr sink \<Rightarrow>
               (case server_New url_parse (proxy_config fl getenv ks) of
                  Inl e \<Rightarrow> Inl (X_server e)
                | Inr srv \<Rightarrow>
                    (case proxy_transport fl getenv of
                       Inl e \<Rightarrow> Inl e
                     | Inr tls \<Rightarrow>
                         Inr \<lparr>pr_listen = flag_value (pf_listen fl) '':8443'', pr_server = srv, pr_sink = sink,
                              pr_tls = tls\<rparr>))))"

section \<open>A proxy that runs\<close>

lemma LoadFromEnv_keys:
  assumes "LoadFromEnv raw = Inr ks"
  shows "ks \<noteq> []" "list_all (\<lambda>k. key_ID k \<noteq> [] \<and> key_Secret k \<noteq> []) ks"
  using assms by (auto simp: LoadFromEnv_def check_entries_None list_all_iff split: if_splits option.splits)

lemma index_keys_values: "index_keys ks m x = Some k \<Longrightarrow> k \<in> set ks \<or> m x = Some k"
  by (induction ks m rule: index_keys.induct) (fastforce split: if_splits)+


definition ex_proxy_env :: "string \<Rightarrow> string" where
  "ex_proxy_env k =
     (if k = ''ANTHROPIC_API_KEYS'' then
        print_json (JArr [key_json \<lparr>key_ID = ''k'', key_Workspace = [], key_Secret = ''s''\<rparr>])
      else if k = ''PROXY_TLS_CERT_FILE'' then ''c'' else if k = ''PROXY_TLS_KEY_FILE'' then ''d'' else [])"

definition ex_flags :: proxy_flags where
  "ex_flags = \<lparr>pf_listen = None, pf_tlsCert = None, pf_tlsKey = None, pf_plain = False, pf_upstream = None, pf_pgURL = Some ''pg''\<rparr>"

definition ex_pg :: pg_answers where
  "ex_pg = \<lparr>pa_open = (\<lambda>_. True), pa_ping = (\<lambda>_. True), pa_schema = (\<lambda>_. True)\<rparr>"

lemma ex_proxy_keys:
  "LoadFromEnv (ex_proxy_env ''ANTHROPIC_API_KEYS'') = Inr [\<lparr>key_ID = ''k'', key_Workspace = [], key_Secret = ''s''\<rparr>]"
proof -
  let ?ks = "[\<lparr>key_ID = ''k'', key_Workspace = [], key_Secret = ''s''\<rparr>]"
  have "list_all ascii_key ?ks" by code_simp
  then have "unmarshal_into dec_keys [] (print_json (JArr (map key_json ?ks))) = Some ?ks" by (rule unmarshal_keys_json)
  then have "unmarshal_into dec_keys [] (ex_proxy_env ''ANTHROPIC_API_KEYS'') = Some ?ks"
    by (simp add: ex_proxy_env_def del: print_json.simps)
  moreover have "ex_proxy_env ''ANTHROPIC_API_KEYS'' \<noteq> []" by (simp add: ex_proxy_env_def)
  ultimately show ?thesis by (simp add: LoadFromEnv_def)
qed


end
