(* ===== verification/Proxy_Drain.thy ===== *)
theory Proxy_Drain
  imports Proxy_Server
begin

text \<open>
  The end of a rotation: once no new forwards and no further rotations begin, the wait of
  \<open>handleAdminRotate\<close> and the forwards in flight come to an end, by a measure that every step
  makes smaller, and the new keys are in place.
\<close>

text \<open>The steps of a server that winds down: forwards end, and the rotation goes on.\<close>

inductive wind_down :: "drain \<Rightarrow> drain \<Rightarrow> bool" where
  down_end: "i \<in> dr_active d \<Longrightarrow>
     wind_down d (d\<lparr>dr_active := dr_active d - {i}, dr_inflight := dr_inflight d - 1\<rparr>)"
| down_drained: "dr_rot d = Draining nxt \<Longrightarrow> \<not> 0 < dr_inflight d \<Longrightarrow> wind_down d (d\<lparr>dr_rot := Drained nxt\<rparr>)"
| down_timeout: "dr_rot d = Draining nxt \<Longrightarrow> wind_down d (d\<lparr>dr_rot := Timed_out nxt\<rparr>)"
| down_swap: "dr_rot d = Drained nxt \<or> dr_rot d = Timed_out nxt \<Longrightarrow>
     wind_down d (d\<lparr>dr_rot := Idle, dr_before := {}, dr_pool := Replace nxt (dr_pool d)\<rparr>)"

lemma wind_down_step: "wind_down d d' \<Longrightarrow> drain_step d d'"
  by (induction rule: wind_down.induct) (blast intro: drain_step.intros)+

definition rotation_work :: "rotation \<Rightarrow> nat" where
  "rotation_work x = (case x of Idle \<Rightarrow> 0 | Draining ks \<Rightarrow> 2 | Drained ks \<Rightarrow> 1 | Timed_out ks \<Rightarrow> 1)"

definition drain_work :: "drain \<Rightarrow> nat" where
  "drain_work d = card (dr_active d) + rotation_work (dr_rot d)"

lemma wind_down_work: "wind_down d d' \<Longrightarrow> drain_inv d \<Longrightarrow> drain_work d = Suc (drain_work d')"
proof (induction rule: wind_down.induct)
  case (down_end i d)
  then have "card (dr_active d) = Suc (card (dr_active d - {i}))"
    by (intro card.remove) (simp_all add: drain_inv_def)
  then show ?case by (simp add: drain_work_def)
qed (auto simp: drain_work_def rotation_work_def)

lemma wind_down_stuck:
  assumes "drain_inv d" "\<nexists>d'. wind_down d d'"
  shows "dr_rot d = Idle" "dr_active d = {}" "dr_inflight d = 0"
proof -
  show "dr_rot d = Idle" using assms(2) by (cases "dr_rot d") (blast intro: wind_down.intros)+
  show "dr_active d = {}" using assms(2) by (blast intro: down_end)
  with assms(1) show "dr_inflight d = 0" by (simp add: drain_inv_def)
qed

text \<open>The keys the pool will have when the rotation is over.\<close>

definition final_keys :: "drain \<Rightarrow> api_key list" where
  "final_keys d = (case rotation_keys (dr_rot d) of Some nxt \<Rightarrow> nxt | None \<Rightarrow> p_keys (dr_pool d))"

lemma wind_down_keys: "wind_down d d' \<Longrightarrow> final_keys d' = final_keys d"
  by (induction rule: wind_down.induct) (auto simp: final_keys_def rotation_keys_def Replace_def split: rotation.split)

lemma wind_down_run:
  "(wind_down ^^ n) d d' \<Longrightarrow> drain_inv d \<Longrightarrow>
     drain_inv d' \<and> drain_work d = n + drain_work d' \<and> final_keys d' = final_keys d"
proof (induction n arbitrary: d')
  case (Suc n)
  then obtain e where e: "(wind_down ^^ n) d e" "wind_down e d'" by auto
  with Suc have "drain_inv e" "drain_work d = n + drain_work e" "final_keys e = final_keys d" by blast+
  with e(2) show ?case
    using wind_down_work wind_down_keys drain_inv_step [OF wind_down_step] by fastforce
qed simp



end
