(* ===== verification/Firewall.thy ===== *)
theory Firewall
  imports Netalloc
begin

text \<open>
  The packet filter of the VM bridge, \<open>infra/nftables/microvm.rules\<close>, with the script that fills
  its sets, \<open>infra/nftables/refresh-sets.sh\<close>. The rules are data, evaluated the way nftables
  evaluates a table: rules in order, a jump returns when the chain it went to has no verdict, accept
  and drop end the evaluation, and a base chain without verdict has its policy. Connection
  tracking and the rate limit of the log rule belong to the kernel and are arguments.
\<close>

section \<open>Rules\<close>

datatype nf_match =
  Iifname string | Oifname string | Ct_established_related | Daddr_set string | Daddr_in "ip4 list"
| Udp_dport nat | Tcp_dport nat | Limit_rate

datatype nf_action = Nf_accept | Nf_drop | Nf_jump string | Nf_log

type_synonym nf_rule = "nf_match list \<times> nf_action"

datatype nf_hook = Hook_input | Hook_forward | Hook_output

datatype nf_proto = Udp | Tcp | Other_proto

text \<open>
  A packet; an IPv6 packet has no IPv4 destination. \<open>pk_conn\<close> is the connection the kernel counts
  it to, in either direction, and for a related one the connection it is related to.
\<close>

record packet =
  pk_iif :: string
  pk_oif :: string
  pk_daddr :: "ip4 option"
  pk_proto :: nf_proto
  pk_dport :: nat
  pk_conn :: nat

type_synonym nf_sets = "string \<Rightarrow> ip4_prefix list"

definition v4 :: "nat \<Rightarrow> nat \<Rightarrow> nat \<Rightarrow> nat \<Rightarrow> ip4" where
  "v4 a b c d = word_of_nat (((a * 256 + b) * 256 + c) * 256 + d)"

definition host32 :: "ip4 \<Rightarrow> ip4_prefix" where
  "host32 a = \<lparr>pfx_addr = a, pfx_bits = 32\<rparr>"

text \<open>The sets as the file declares them.\<close>

definition microvm_sets :: nf_sets where
  "microvm_sets name =
     (if name = ''proxy_v4'' then [host32 (v4 172 20 0 1)]
      else if name = ''vm_subnet_v4'' then [\<lparr>pfx_addr = v4 172 20 0 0, pfx_bits = 24\<rparr>]
      else [])"

definition vm_egress :: "nf_rule list" where
  "vm_egress =
     [([Ct_established_related], Nf_accept),
      ([Daddr_set ''vm_subnet_v4''], Nf_drop),
      ([Daddr_in [v4 1 1 1 1, v4 8 8 8 8], Udp_dport 53], Nf_accept),
      ([Daddr_in [v4 1 1 1 1, v4 8 8 8 8], Tcp_dport 53], Nf_accept),
      ([Daddr_set ''proxy_v4'', Tcp_dport 8443], Nf_accept),
      ([Daddr_set ''anthropic_v4'', Tcp_dport 443], Nf_accept),
      ([Daddr_set ''apt_v4'', Tcp_dport 443], Nf_accept),
      ([Limit_rate], Nf_log),
      ([], Nf_drop)]"

definition vm_ingress :: "nf_rule list" where
  "vm_ingress = [([Ct_established_related], Nf_accept), ([], Nf_drop)]"

definition microvm_chain :: "string \<Rightarrow> nf_rule list" where
  "microvm_chain name = (if name = ''vm_egress'' then vm_egress else if name = ''vm_ingress'' then vm_ingress else [])"

text \<open>The base chains; all three have the policy accept.\<close>

definition microvm_base :: "nf_hook \<Rightarrow> nf_rule list" where
  "microvm_base hook =
     (case hook of
        Hook_forward \<Rightarrow> [([Iifname ''fc-br0''], Nf_jump ''vm_egress''), ([Oifname ''fc-br0''], Nf_jump ''vm_ingress'')]
      | _ \<Rightarrow> [])"

section \<open>Evaluation\<close>

definition in_set :: "nf_sets \<Rightarrow> string \<Rightarrow> ip4 \<Rightarrow> bool" where
  "in_set sets name a \<longleftrightarrow> list_ex (\<lambda>p. prefix_contains p a) (sets name)"

fun nf_matches :: "nf_sets \<Rightarrow> bool \<Rightarrow> bool \<Rightarrow> packet \<Rightarrow> nf_match \<Rightarrow> bool" where
  "nf_matches sets est rated p (Iifname n) = (pk_iif p = n)"
| "nf_matches sets est rated p (Oifname n) = (pk_oif p = n)"
| "nf_matches sets est rated p Ct_established_related = est"
| "nf_matches sets est rated p (Daddr_set s) = (case pk_daddr p of None \<Rightarrow> False | Some a \<Rightarrow> in_set sets s a)"
| "nf_matches sets est rated p (Daddr_in as) = (case pk_daddr p of None \<Rightarrow> False | Some a \<Rightarrow> a \<in> set as)"
| "nf_matches sets est rated p (Udp_dport n) = (pk_proto p = Udp \<and> pk_dport p = n)"
| "nf_matches sets est rated p (Tcp_dport n) = (pk_proto p = Tcp \<and> pk_dport p = n)"
| "nf_matches sets est rated p Limit_rate = rated"

text \<open>
  The verdict of a list of rules, \<open>Some True\<close> for accept, \<open>None\<close> when the end is reached. The
  depth of jumps is limited, as in the kernel; here one level is used.
\<close>

fun nf_rules :: "(nf_match \<Rightarrow> bool) \<Rightarrow> (string \<Rightarrow> nf_rule list) \<Rightarrow> nat \<Rightarrow> nf_rule list \<Rightarrow> bool option" where
  "nf_rules m chain depth [] = None"
| "nf_rules m chain depth ((ms, act) # rs) =
     (if \<not> list_all m ms then nf_rules m chain depth rs
      else case act of
             Nf_accept \<Rightarrow> Some True
           | Nf_drop \<Rightarrow> Some False
           | Nf_log \<Rightarrow> nf_rules m chain depth rs
           | Nf_jump c \<Rightarrow>
               (case depth of
                  0 \<Rightarrow> Some False
                | Suc d \<Rightarrow>
                    (case nf_rules m chain d (chain c) of
                       Some v \<Rightarrow> Some v
                     | None \<Rightarrow> nf_rules m chain depth rs)))"

definition jump_stack :: nat where
  "jump_stack = 16"

definition nf_accepts :: "nf_sets \<Rightarrow> bool \<Rightarrow> bool \<Rightarrow> nf_hook \<Rightarrow> packet \<Rightarrow> bool" where
  "nf_accepts sets est rated hook p =
     (case nf_rules (nf_matches sets est rated p) microvm_chain jump_stack (microvm_base hook) of
        Some v \<Rightarrow> v
      | None \<Rightarrow> True)"

section \<open>Filling the sets\<close>

definition anthropic_hosts :: "string list" where
  "anthropic_hosts = [''api.anthropic.com'']"

definition apt_hosts :: "string list" where
  "apt_hosts = [''archive.ubuntu.com'', ''security.ubuntu.com'', ''deb.debian.org'']"

text \<open>One transaction of \<open>nft\<close>: flush and add, or nothing when it fails.\<close>

definition flush_and_fill :: "bool \<Rightarrow> string \<Rightarrow> ip4 list \<Rightarrow> nf_sets \<Rightarrow> bool \<times> nf_sets" where
  "flush_and_fill ok name ips sets = (if ok then (True, sets(name := map host32 ips)) else (False, sets))"

text \<open>
  The script, which ends at the first failing command; \<open>resolve\<close> gives the sorted addresses of a
  host, none when the resolution fails.
\<close>

definition refresh_sets :: "(string \<Rightarrow> ip4 list) \<Rightarrow> bool \<Rightarrow> bool \<Rightarrow> nf_sets \<Rightarrow> bool \<times> nf_sets" where
  "refresh_sets resolve ok1 ok2 sets =
     (case flush_and_fill ok1 ''anthropic_v4'' (concat (map resolve anthropic_hosts)) sets of
        (False, s) \<Rightarrow> (False, s)
      | (True, s) \<Rightarrow> flush_and_fill ok2 ''apt_v4'' (concat (map resolve apt_hosts)) s)"

section \<open>What gets through\<close>

definition bridge :: string where
  "bridge = ''fc-br0''"

definition on_bridge :: "packet \<Rightarrow> bool" where
  "on_bridge p \<longleftrightarrow> pk_iif p = bridge \<or> pk_oif p = bridge"

text \<open>The allowlist for a first packet from a VM, for any contents of the sets.\<close>

definition allowed_egress :: "nf_sets \<Rightarrow> packet \<Rightarrow> bool" where
  "allowed_egress sets p \<longleftrightarrow>
     (\<exists>a. pk_daddr p = Some a \<and> \<not> in_set sets ''vm_subnet_v4'' a \<and>
        (a \<in> {v4 1 1 1 1, v4 8 8 8 8} \<and> pk_proto p \<in> {Udp, Tcp} \<and> pk_dport p = 53 \<or>
         pk_proto p = Tcp \<and> pk_dport p = 8443 \<and> in_set sets ''proxy_v4'' a \<or>
         pk_proto p = Tcp \<and> pk_dport p = 443 \<and> (in_set sets ''anthropic_v4'' a \<or> in_set sets ''apt_v4'' a)))"

lemma egress_verdict:
  "nf_rules (nf_matches sets est rated p) chain d vm_egress = Some (est \<or> allowed_egress sets p)"
proof (cases "pk_daddr p")
  case None
  then show ?thesis by (simp add: vm_egress_def allowed_egress_def)
next
  case (Some a)
  let ?in = "\<lambda>n. in_set sets n a"
  show ?thesis
    by (cases "pk_proto p"; cases "?in ''vm_subnet_v4''"; cases est)
      (simp_all add: vm_egress_def allowed_egress_def Some, blast)
qed

lemma ingress_verdict: "nf_rules (nf_matches sets est rated p) chain d vm_ingress = Some est"
  by (simp add: vm_ingress_def)

lemma forward_verdict:
  "nf_accepts sets est rated Hook_forward p =
     (if pk_iif p = bridge then est \<or> allowed_egress sets p else if pk_oif p = bridge then est else True)"
proof -
  have j: "jump_stack = Suc 15" by (simp add: jump_stack_def)
  show ?thesis
    unfolding nf_accepts_def j microvm_base_def by (simp add: microvm_chain_def egress_verdict ingress_verdict bridge_def)
qed

text \<open>The rule for the proxy is never reached by a packet it matches: its address is in the VM subnet.\<close>

lemma prefix_contains_host32: "prefix_contains (host32 a) b \<longleftrightarrow> b = a"
  by (simp add: prefix_contains_def host32_def word_xor_eq_0_iff)

lemma proxy_in_subnet: "in_set microvm_sets ''proxy_v4'' a \<Longrightarrow> in_set microvm_sets ''vm_subnet_v4'' a"
proof -
  assume "in_set microvm_sets ''proxy_v4'' a"
  then have "a = v4 172 20 0 1" by (simp add: in_set_def microvm_sets_def prefix_contains_host32)
  moreover have "prefix_contains \<lparr>pfx_addr = v4 172 20 0 0, pfx_bits = 24\<rparr> (v4 172 20 0 1)"
    by (simp add: prefix_contains_def v4_def)
  ultimately show "in_set microvm_sets ''vm_subnet_v4'' a" by (simp add: in_set_def microvm_sets_def)
qed

lemma proxy_rule_shadowed:
  assumes "pk_daddr p = Some (v4 172 20 0 1)" "pk_iif p = bridge"
  shows "\<not> nf_accepts microvm_sets False rated Hook_forward p"
proof -
  have "in_set microvm_sets ''proxy_v4'' (v4 172 20 0 1)" by (simp add: in_set_def microvm_sets_def prefix_contains_host32)
  then have "in_set microvm_sets ''vm_subnet_v4'' (v4 172 20 0 1)" by (rule proxy_in_subnet)
  with assms show ?thesis by (simp add: forward_verdict allowed_egress_def)
qed

text \<open>Packets for the host itself pass another hook, where nothing is filtered.\<close>

lemma host_open: "nf_accepts sets est rated Hook_input p"
  by (simp add: nf_accepts_def microvm_base_def)

section \<open>Histories\<close>

datatype nf_event = Ev_packet packet | Ev_refresh "string \<Rightarrow> ip4 list" bool bool

text \<open>
  Forwarded packets and refreshes in any order. Connection tracking sees the packets accepted so
  far; it takes a packet for established or related only if its connection has one of them.
\<close>

fun nf_step :: "(packet list \<Rightarrow> packet \<Rightarrow> bool) \<Rightarrow> (packet list \<Rightarrow> packet \<Rightarrow> bool) \<Rightarrow> nf_event \<Rightarrow>
    nf_sets \<times> packet list \<Rightarrow> nf_sets \<times> packet list" where
  "nf_step ct rated (Ev_packet p) (sets, acc) =
     (sets, if nf_accepts sets (ct acc p) (rated acc p) Hook_forward p then acc @ [p] else acc)"
| "nf_step ct rated (Ev_refresh resolve ok1 ok2) (sets, acc) = (snd (refresh_sets resolve ok1 ok2 sets), acc)"

definition nf_run :: "(packet list \<Rightarrow> packet \<Rightarrow> bool) \<Rightarrow> (packet list \<Rightarrow> packet \<Rightarrow> bool) \<Rightarrow> nf_event list \<Rightarrow>
    nf_sets \<times> packet list" where
  "nf_run ct rated es = fold (nf_step ct rated) es (microvm_sets, [])"

definition conntrack_ok :: "(packet list \<Rightarrow> packet \<Rightarrow> bool) \<Rightarrow> bool" where
  "conntrack_ok ct \<longleftrightarrow> (\<forall>acc p. ct acc p \<longrightarrow> (\<exists>q \<in> set acc. pk_conn q = pk_conn p))"

text \<open>The addresses the listed hosts ever resolved to.\<close>

fun resolved_by :: "nf_event \<Rightarrow> ip4 set" where
  "resolved_by (Ev_packet p) = {}"
| "resolved_by (Ev_refresh resolve ok1 ok2) = (\<Union>h \<in> set (anthropic_hosts @ apt_hosts). set (resolve h))"

definition resolved_ever :: "nf_event list \<Rightarrow> ip4 set" where
  "resolved_ever es = (\<Union>e \<in> set es. resolved_by e)"

definition opened :: "ip4 set \<Rightarrow> packet \<Rightarrow> bool" where
  "opened R q \<longleftrightarrow>
     pk_iif q = bridge \<and>
     (\<exists>a. pk_daddr q = Some a \<and> \<not> prefix_contains \<lparr>pfx_addr = v4 172 20 0 0, pfx_bits = 24\<rparr> a \<and>
        (a \<in> {v4 1 1 1 1, v4 8 8 8 8} \<and> pk_proto q \<in> {Udp, Tcp} \<and> pk_dport q = 53 \<or>
         a \<in> R \<and> pk_proto q = Tcp \<and> pk_dport q = 443))"

lemma opened_mono: "opened R q \<Longrightarrow> R \<subseteq> R' \<Longrightarrow> opened R' q"
  unfolding opened_def by blast

definition sets_ok :: "ip4 set \<Rightarrow> nf_sets \<Rightarrow> bool" where
  "sets_ok R sets \<longleftrightarrow>
     sets ''proxy_v4'' = microvm_sets ''proxy_v4'' \<and> sets ''vm_subnet_v4'' = microvm_sets ''vm_subnet_v4'' \<and>
     set (sets ''anthropic_v4'') \<union> set (sets ''apt_v4'') \<subseteq> host32 ` R"

lemma refresh_sets_ok:
  assumes "sets_ok R sets" "R \<subseteq> R'" "(\<Union>h \<in> set (anthropic_hosts @ apt_hosts). set (resolve h)) \<subseteq> R'"
  shows "sets_ok R' (snd (refresh_sets resolve ok1 ok2 sets))"
  using assms image_mono [OF assms(2), of host32]
  by (cases ok1; cases ok2) (auto simp: sets_ok_def refresh_sets_def flush_and_fill_def)

lemma allowed_opened:
  assumes "sets_ok R sets" "allowed_egress sets p" "pk_iif p = bridge"
  shows "opened R p"
proof -
  have s: "in_set sets ''vm_subnet_v4'' = in_set microvm_sets ''vm_subnet_v4''"
    "in_set sets ''proxy_v4'' = in_set microvm_sets ''proxy_v4''"
    using assms(1) by (simp_all add: in_set_def sets_ok_def fun_eq_iff)
  have r: "a \<in> R" if "in_set sets ''anthropic_v4'' a \<or> in_set sets ''apt_v4'' a" for a
    using that assms(1) by (auto simp: in_set_def sets_ok_def list_ex_iff prefix_contains_host32)
  have v: "in_set microvm_sets ''vm_subnet_v4'' = prefix_contains \<lparr>pfx_addr = v4 172 20 0 0, pfx_bits = 24\<rparr>"
    by (simp add: in_set_def microvm_sets_def fun_eq_iff)
  show ?thesis
    using assms(2,3) proxy_in_subnet r unfolding allowed_egress_def opened_def s v [symmetric] by blast
qed

definition nf_inv :: "ip4 set \<Rightarrow> nf_sets \<times> packet list \<Rightarrow> bool" where
  "nf_inv R st \<longleftrightarrow>
     sets_ok R (fst st) \<and>
     (\<forall>p \<in> set (snd st). \<exists>q \<in> set (snd st). pk_conn q = pk_conn p \<and> (\<not> on_bridge q \<or> opened R q))"

lemma nf_inv_step:
  assumes "conntrack_ok ct" "nf_inv R st"
  shows "nf_inv (R \<union> resolved_by e) (nf_step ct rated e st)"
proof -
  obtain sets acc where st: "st = (sets, acc)" by fastforce
  have s: "sets_ok R sets" and i: "\<And>p. p \<in> set acc \<Longrightarrow> \<exists>q \<in> set acc. pk_conn q = pk_conn p \<and> (\<not> on_bridge q \<or> opened R q)"
    using assms(2) by (simp_all add: nf_inv_def st)
  show ?thesis
  proof (cases e)
    case (Ev_refresh resolve ok1 ok2)
    have "sets_ok (R \<union> resolved_by e) (snd (refresh_sets resolve ok1 ok2 sets))"
      by (rule refresh_sets_ok [OF s]) (auto simp: Ev_refresh)
    moreover have "\<exists>q \<in> set acc. pk_conn q = pk_conn p \<and> (\<not> on_bridge q \<or> opened (R \<union> resolved_by e) q)"
      if "p \<in> set acc" for p
      using i [OF that] opened_mono [of R _ "R \<union> resolved_by e"] by blast
    ultimately show ?thesis by (simp add: nf_inv_def st Ev_refresh)
  next
    case (Ev_packet p)
    have "\<exists>q \<in> set (acc @ [p]). pk_conn q = pk_conn p \<and> (\<not> on_bridge q \<or> opened R q)"
      if a: "nf_accepts sets (ct acc p) (rated acc p) Hook_forward p"
    proof (cases "ct acc p")
      case True
      then obtain q where "q \<in> set acc" "pk_conn q = pk_conn p" using assms(1) unfolding conntrack_ok_def by blast
      with i [of q] show ?thesis by fastforce
    next
      case False
      then have "\<not> on_bridge p \<or> opened R p"
        using a allowed_opened [OF s, of p] by (auto simp: forward_verdict on_bridge_def split: if_splits)
      then show ?thesis by auto
    qed
    then show ?thesis using s i by (fastforce simp: nf_inv_def st Ev_packet)
  qed
qed

lemma nf_inv_run:
  assumes "conntrack_ok ct"
  shows "nf_inv (resolved_ever es) (nf_run ct rated es)"
proof (induction es rule: rev_induct)
  case Nil
  then show ?case by (simp add: nf_run_def nf_inv_def sets_ok_def microvm_sets_def resolved_ever_def)
next
  case (snoc e es)
  have "resolved_ever (es @ [e]) = resolved_ever es \<union> resolved_by e" by (auto simp: resolved_ever_def)
  with nf_inv_step [OF assms snoc] show ?case by (simp add: nf_run_def)
qed

lemma accepted_seen: "set (snd (nf_run ct rated es)) \<subseteq> {p. Ev_packet p \<in> set es}"
proof (induction es rule: rev_induct)
  case (snoc e es)
  obtain sets acc where "nf_run ct rated es = (sets, acc)" by fastforce
  with snoc show ?case by (cases e) (auto simp: nf_run_def split: if_splits)
qed (simp add: nf_run_def)


definition ex_packet :: "ip4 \<Rightarrow> packet" where
  "ex_packet a = \<lparr>pk_iif = ''fc-br0'', pk_oif = ''eth0'', pk_daddr = Some a, pk_proto = Tcp, pk_dport = 443, pk_conn = 5\<rparr>"

definition ex_events :: "nf_event list" where
  "ex_events = [Ev_refresh (\<lambda>_. [v4 9 9 9 9]) True True, Ev_packet (ex_packet (v4 9 9 9 9)), Ev_packet (ex_packet (v4 172 20 0 3))]"


text \<open>
  VMs do not reach each other: a first packet to any address the allocator has ever leased for the
  subnet of the default configuration is dropped.
\<close>

theorem vm_to_vm_dropped:
  assumes "l \<in> set (snd (alloc_run ops (new_from_prefix \<lparr>pfx_addr = v4 172 20 0 0, pfx_bits = 24\<rparr>)))"
    and "pk_iif p = ''fc-br0''" "pk_daddr p = Some (lease_ip l)"
  shows "\<not> nf_accepts microvm_sets False rated Hook_forward p"
proof -
  have "in_set microvm_sets ''vm_subnet_v4'' (lease_ip l)"
    using netalloc_lease_in_subnet [OF assms(1)] by (simp add: in_set_def microvm_sets_def)
  with assms(2,3) show ?thesis by (simp add: forward_verdict allowed_egress_def bridge_def)
qed

end
