(* ===== verification/Vm_Process.thy ===== *)
theory Vm_Process
  imports Vm_Manager
begin

text \<open>
  The interface \<open>VMProcess\<close> of \<open>control-plane/internal/session/session.go\<close> as far as stopping
  goes, with its two implementations, the plain and the jailed process; and the listener of
  \<open>vsock_listener.go\<close> over all its rounds.
\<close>

section \<open>Stopping a VM\<close>

text \<open>The process of a jailed VM, \<open>control-plane/internal/vm/jailer.go\<close>.\<close>

definition jail_Stop :: "bool \<Rightarrow> duration option \<Rightarrow> signal list" where
  "jail_Stop started exits =
     (if \<not> started then []
      else SIGTERM # (case exits of
                        Some d \<Rightarrow> if d \<le> 5 * Second then [] else [SIGKILL]
                      | None \<Rightarrow> [SIGKILL]))"

text \<open>
  What a client of the interface relies on: nothing is signalled that was not started, the first
  signal asks the VM to end, and it is killed exactly when it does not within five seconds.
\<close>

locale vm_process =
  fixes stop :: "bool \<Rightarrow> duration option \<Rightarrow> signal list"
  assumes stop_absent: "stop False exits = []"
    and stop_asks: "\<exists>rest. stop True exits = SIGTERM # rest \<and> SIGTERM \<notin> set rest"
    and stop_kills: "SIGKILL \<in> set (stop True exits) \<longleftrightarrow> (\<forall>d. exits = Some d \<longrightarrow> 5 * Second < d)"
begin

lemma stop_ends: "(\<exists>d \<le> 5 * Second. exits = Some d) \<or> SIGKILL \<in> set (stop True exits)"
  using stop_kills [of exits] by (cases exits) auto

lemma stop_gentle: "d \<le> 5 * Second \<Longrightarrow> stop True (Some d) = [SIGTERM]"
proof -
  assume d: "d \<le> 5 * Second"
  obtain rest where r: "stop True (Some d) = SIGTERM # rest" "SIGTERM \<notin> set rest" using stop_asks by blast
  have "SIGKILL \<notin> set rest" using stop_kills [of "Some d"] d r(1) by auto
  with r(2) have "rest = []" by (cases rest) (auto, metis signal.exhaust)
  with r(1) show "stop True (Some d) = [SIGTERM]" by simp
qed

end

interpretation plain_process: vm_process Stop
  by unfold_locales (auto simp: Stop_def split: option.splits)

interpretation jailed_process: vm_process jail_Stop
  by unfold_locales (auto simp: jail_Stop_def split: option.splits)

section \<open>The listener\<close>

text \<open>
  The rounds of the accept loop, each with the session at that moment and what \<open>Accept\<close> returned:
  the connections handed over, and whether the loop has ended.
\<close>

fun listen_loop :: "(session \<times> accept_result) list \<Rightarrow> nat list \<times> bool" where
  "listen_loop [] = ([], False)"
| "listen_loop ((s, a) # rounds) =
     (case listen_round s a of
        L_return \<Rightarrow> ([], True)
      | L_continue \<Rightarrow> listen_loop rounds
      | L_handle c \<Rightarrow> (case listen_loop rounds of (cs, ended) \<Rightarrow> (c # cs, ended)))"

text \<open>Without a listener nothing is accepted, and the session never becomes ready.\<close>

definition startVsockListener ::
  "bool \<Rightarrow> string \<Rightarrow> (session \<times> accept_result) list \<Rightarrow> (string \<times> nat list \<times> bool) option" where
  "startVsockListener listens udsPath rounds =
     (if \<not> listens then None else Some (vsock_addr udsPath, listen_loop rounds))"

text \<open>The listener does not outlive its session, and serves what was accepted before, in order.\<close>

definition accepted_conns :: "(session \<times> accept_result) list \<Rightarrow> nat list" where
  "accepted_conns rounds = concat (map (\<lambda>(s, a). case a of Accepted c \<Rightarrow> [c] | _ \<Rightarrow> []) rounds)"

lemma listener_ends:
  assumes "\<forall>(s, a) \<in> set before. ss_done s \<noteq> Some True \<and> a \<noteq> Accept_closed" "ss_done s = Some True"
  shows "listen_loop (before @ (s, a) # later) = (accepted_conns before, True)"
  using assms
proof (induction before)
  case Nil
  then show ?case by (simp add: listen_round_def accepted_conns_def)
next
  case (Cons x before)
  obtain s' a' where x: "x = (s', a')" by fastforce
  from Cons have "listen_loop (before @ (s, a) # later) = (accepted_conns before, True)" "ss_done s' \<noteq> Some True"
    "a' \<noteq> Accept_closed"
    by (auto simp: x)
  then show ?case by (cases a') (simp_all add: x listen_round_def accepted_conns_def)
qed

end
