(* ===== verification/Json_Text.thy ===== *)
theory Json_Text
  imports Json
begin

text \<open>
  Reading JSON text that was put together by hand, with white space between the tokens and
  strings copied between quotes without escaping: which texts the decoder of theory \<open>Json\<close>
  reads as which value. The rules are syntax-directed, in the collection \<open>spelling\<close>.
\<close>

named_theorems spelling

definition json_quote :: "string \<Rightarrow> string" where
  "json_quote s = CHR 0x22 # s @ [CHR 0x22]"

text \<open>Characters that stand for themselves inside a string literal.\<close>

definition unescaped :: "string \<Rightarrow> bool" where
  "unescaped s \<longleftrightarrow>
     list_all (\<lambda>c. 32 \<le> (of_char c :: nat) \<and> (of_char c :: nat) < 128 \<and> c \<noteq> CHR 0x22 \<and> c \<noteq> CHR 0x5C) s"

definition blank :: "string \<Rightarrow> bool" where
  "blank s \<longleftrightarrow> list_all json_ws s"

text \<open>The text of a value, and of the members of an object up to the closing brace.\<close>

definition spells :: "nat \<Rightarrow> string \<Rightarrow> json \<Rightarrow> bool" where
  "spells d t v \<longleftrightarrow>
     (\<forall>r n. num_end r \<longrightarrow> 2 * length (t @ r) + 1 \<le> n \<longrightarrow> parse_value n d (t @ r) = Some (v, r))"

definition spells_members :: "nat \<Rightarrow> string \<Rightarrow> (string \<times> json) list \<Rightarrow> bool" where
  "spells_members d t ms \<longleftrightarrow>
     (\<forall>r n. 2 * length (t @ r) + 1 \<le> n \<longrightarrow> parse_members n d (t @ r) = Some (ms, r))"

section \<open>Tokens\<close>

lemma parse_string_unescaped: "unescaped s \<Longrightarrow> parse_string (s @ CHR 0x22 # r) = Some (s, r)"
  by (induction s) (auto simp: unescaped_def prepend_def)

lemma skip_ws_blank: "blank s \<Longrightarrow> skip_ws (s @ r) = skip_ws r"
  by (induction s) (simp_all add: blank_def skip_ws_def)

lemma skip_ws_blank_token: "blank s \<Longrightarrow> \<not> json_ws c \<Longrightarrow> skip_ws (s @ c # r) = c # r"
  by (simp add: skip_ws_blank skip_ws_nonws)

lemma json_ws_num_end: "json_ws c \<Longrightarrow> num_end (c # r)"
  by (auto simp: json_ws_def num_end_def is_digit_def char_digit_def)

lemma num_end_blank: "blank s \<Longrightarrow> num_end r \<Longrightarrow> num_end (s @ r)"
  by (cases s) (auto simp: blank_def intro: json_ws_num_end)

lemma parse_value_skip: "skip_ws s = skip_ws t \<Longrightarrow> parse_value n d s = parse_value n d t"
  by (cases n) (simp_all add: parse_value.simps)

lemma parse_value_blank: "blank s \<Longrightarrow> parse_value n d (s @ t) = parse_value n d t"
  by (rule parse_value_skip) (rule skip_ws_blank)

lemma parse_value_start:
  assumes "parse_value n d s = Some x"
  shows "skip_ws s \<noteq> []" "hd (skip_ws s) \<noteq> CHR '']''"
proof -
  obtain k where n: "n = Suc k"
    using assms by (cases n) (simp_all add: parse_value.simps)
  show "skip_ws s \<noteq> []"
    using assms by (auto simp: n parse_value.simps)
  show "hd (skip_ws s) \<noteq> CHR '']''"
  proof
    assume "hd (skip_ws s) = CHR '']''"
    then obtain cs where "skip_ws s = CHR '']'' # cs"
      using \<open>skip_ws s \<noteq> []\<close> by (cases "skip_ws s") auto
    then show False
      using assms by (simp add: n parse_value.simps HasPrefix_def lex_number_def lex_int_def is_digit_def char_digit_def)
  qed
qed

section \<open>Values\<close>

lemma spells_int_json: "int_json v \<Longrightarrow> depth v \<le> d \<Longrightarrow> spells d (print_json v) v"
  using reads_int_json by (simp add: spells_def reads_def)

lemma spells_bool [spelling]: "spells d ''true'' (JBool True)" "spells d ''false'' (JBool False)"
  using spells_int_json [of "JBool True" d] spells_int_json [of "JBool False" d] by simp_all

lemma spells_FormatInt [spelling]: "spells d (FormatInt i) (JNum (FormatInt i))"
  unfolding spells_def
proof (intro allI impI)
  fix r n
  assume r: "num_end r" and "2 * length (FormatInt i @ r) + 1 \<le> n"
  then obtain k where n: "n = Suc k"
    by (cases n) auto
  obtain c cs where "FormatInt i = c # cs" "is_digit c \<or> c = CHR ''-''"
    by (rule FormatInt_start)
  then show "parse_value n d (FormatInt i @ r) = Some (JNum (FormatInt i), r)"
    using lex_number_FormatInt [OF r, of i] num_start [of c]
    by (simp add: n parse_value.simps skip_ws_nonws HasPrefix_def)
qed

lemma spells_quote [spelling]: "unescaped s \<Longrightarrow> spells d (json_quote s) (JStr s)"
  unfolding spells_def
proof (intro allI impI)
  fix r n
  assume "unescaped s" "2 * length (json_quote s @ r) + 1 \<le> n"
  moreover from this obtain k where "n = Suc k"
    by (cases n) auto
  ultimately show "parse_value n d (json_quote s @ r) = Some (JStr s, r)"
    by (simp add: json_quote_def parse_value.simps skip_ws_nonws parse_string_unescaped)
qed

lemma spells_empty [spelling]: "spells (Suc d) ''[]'' (JArr [])"
  using spells_int_json [of "JArr []" "Suc d"] by simp

lemma spells_singleton [spelling]:
  assumes "blank a" "spells d t v" "blank b"
  shows "spells (Suc d) (CHR ''['' # a @ t @ b @ '']'') (JArr [v])"
  unfolding spells_def
proof (intro allI impI)
  fix r n
  assume n: "2 * length ((CHR ''['' # a @ t @ b @ '']'') @ r) + 1 \<le> n"
  then obtain k where k: "n = Suc (Suc k)"
    by (cases n; cases "n - 1") auto
  have v: "parse_value k d (a @ t @ b @ '']'' @ r) = Some (v, b @ '']'' @ r)"
    using assms n k by (simp add: spells_def parse_value_blank num_end_blank)
  then show "parse_value n (Suc d) ((CHR ''['' # a @ t @ b @ '']'') @ r) = Some (JArr [v], r)"
    using parse_value_start [OF v] assms(3)
    by (simp add: k parse_value.simps(2) parse_elems.simps skip_ws_nonws skip_ws_blank_token)
qed

section \<open>Objects\<close>

lemma parse_members_step:
  assumes "blank a" "unescaped k" "blank b"
  shows "parse_members (Suc n) d (a @ json_quote k @ '':'' @ b @ s) =
     (case parse_value n d s of
        None \<Rightarrow> None
      | Some (v, s4) \<Rightarrow>
          (case skip_ws s4 of
             [] \<Rightarrow> None
           | e # s5 \<Rightarrow>
               if e = CHR '','' then map_option (\<lambda>(ms, r). ((k, v) # ms, r)) (parse_members n d s5)
               else if e = CHR ''}'' then Some ([(k, v)], s5) else None))"
proof -
  have "skip_ws (a @ json_quote k @ '':'' @ b @ s) = CHR 0x22 # k @ CHR 0x22 # '':'' @ b @ s"
    using assms(1) by (simp add: json_quote_def skip_ws_blank_token)
  moreover have "parse_string (k @ CHR 0x22 # '':'' @ b @ s) = Some (k, '':'' @ b @ s)"
    using assms(2) by (rule parse_string_unescaped)
  ultimately show ?thesis
    using parse_value_blank [OF assms(3)] by (simp add: parse_members.simps skip_ws_nonws)
qed

lemma spells_last [spelling]:
  assumes "blank a" "unescaped k" "blank b" "spells d t v" "blank e"
  shows "spells_members d (a @ json_quote k @ '':'' @ b @ t @ e @ ''}'') [(k, v)]"
  unfolding spells_members_def
proof (intro allI impI)
  fix r n
  assume n: "2 * length ((a @ json_quote k @ '':'' @ b @ t @ e @ ''}'') @ r) + 1 \<le> n"
  then obtain m where m: "n = Suc m"
    by (cases n) auto
  have "parse_value m d (t @ e @ ''}'' @ r) = Some (v, e @ ''}'' @ r)"
    using assms(4,5) n m by (simp add: spells_def num_end_blank)
  then show "parse_members n d ((a @ json_quote k @ '':'' @ b @ t @ e @ ''}'') @ r) = Some ([(k, v)], r)"
    using parse_members_step [OF assms(1-3), of m d "t @ e @ ''}'' @ r"] assms(5)
    by (simp add: m skip_ws_blank_token)
qed

lemma spells_Cons [spelling]:
  assumes "blank a" "unescaped k" "blank b" "spells d t v" "blank e" "spells_members d s ms"
  shows "spells_members d (a @ json_quote k @ '':'' @ b @ t @ e @ '','' @ s) ((k, v) # ms)"
  unfolding spells_members_def
proof (intro allI impI)
  fix r n
  assume n: "2 * length ((a @ json_quote k @ '':'' @ b @ t @ e @ '','' @ s) @ r) + 1 \<le> n"
  then obtain m where m: "n = Suc m"
    by (cases n) auto
  have "parse_value m d (t @ e @ '','' @ s @ r) = Some (v, e @ '','' @ s @ r)"
    using assms(4,5) n m by (simp add: spells_def num_end_blank)
  moreover have "parse_members m d (s @ r) = Some (ms, r)"
    using assms(6) n m by (simp add: spells_members_def)
  ultimately show "parse_members n d ((a @ json_quote k @ '':'' @ b @ t @ e @ '','' @ s) @ r) = Some ((k, v) # ms, r)"
    using parse_members_step [OF assms(1-3), of m d "t @ e @ '','' @ s @ r"] assms(5)
    by (simp add: m skip_ws_blank_token)
qed

lemma parse_members_start:
  "parse_members n d s = Some x \<Longrightarrow> skip_ws s \<noteq> [] \<and> hd (skip_ws s) = CHR 0x22"
  by (cases n) (auto simp: parse_members.simps split: list.splits if_splits)

lemma spells_object [spelling]:
  assumes "spells_members d t ms"
  shows "spells (Suc d) (CHR ''{'' # t) (JObj ms)"
  unfolding spells_def
proof (intro allI impI)
  fix r n
  assume n: "2 * length ((CHR ''{'' # t) @ r) + 1 \<le> n"
  then obtain k where k: "n = Suc k"
    by (cases n) auto
  have "parse_members k d (t @ r) = Some (ms, r)"
    using assms n k by (simp add: spells_members_def)
  then show "parse_value n (Suc d) ((CHR ''{'' # t) @ r) = Some (JObj ms, r)"
    using parse_members_start [of k d "t @ r"] by (auto simp: k parse_value.simps(2) skip_ws_nonws)
qed

lemma unmarshal_spells:
  assumes "spells max_nesting t v" "blank r"
  shows "json_unmarshal (t @ r) = Some v"
proof -
  have "json_decode (t @ r) = Some (v, r)"
    using assms num_end_blank [OF assms(2), of "[]"] by (simp add: json_decode_def json_fuel_def spells_def)
  then show ?thesis
    using skip_ws_blank [OF assms(2), of "[]"] by (simp add: json_unmarshal_def skip_ws_def)
qed

end
