(* ===== verification/Jailer_Script.thy ===== *)
theory Jailer_Script
  imports Jailer Json_Text
begin

text \<open>
  The rest of \<open>infra/jailer/jailer.sh\<close>, after its option loop (theory \<open>Jailer\<close>): the
  directories and the cgroup of the VM, the configuration it writes for Firecracker, the files it
  stages for the jail, and the \<open>exec\<close> of \<open>jailer\<close>. Commands and redirections are actions of the
  host log; under \<open>set -e\<close> a failing one ends the script unless it is followed by
  \<open>|| true\<close>. What the file tests find is an argument. Operands are taken not to start with a dash,
  which the tools would read as options.
\<close>

datatype sh_error = Sh_usage | Sh_failed

record sh_env =
  se_exists :: "host_log \<Rightarrow> string \<Rightarrow> bool"
  se_isdir :: "host_log \<Rightarrow> string \<Rightarrow> bool"
  se_JAILER_BIN :: string

section \<open>Bash\<close>

text \<open>A command under \<open>set -e\<close>, one in a conditional, one whose failure is dropped.\<close>

definition sh_do :: "os \<Rightarrow> host_action \<Rightarrow> sh_error effect \<Rightarrow> sh_error effect" where
  "sh_do os a k = attempt os a Sh_failed k"

definition sh_when :: "(host_log \<Rightarrow> bool) \<Rightarrow> os \<Rightarrow> host_action \<Rightarrow> sh_error effect \<Rightarrow> sh_error effect" where
  "sh_when c os a k h = (if c h then sh_do os a k h else k h)"

definition sh_or_true :: "os \<Rightarrow> host_action \<Rightarrow> sh_error effect \<Rightarrow> sh_error effect" where
  "sh_or_true os a k h = k (ignore os a h)"

abbreviation nl :: string where
  "nl \<equiv> [CHR 0x0A]"

abbreviation dq :: "string \<Rightarrow> string" where
  "dq \<equiv> json_quote"

definition heredoc :: "string list \<Rightarrow> string" where
  "heredoc ls = concat (map (\<lambda>l. l @ nl) ls)"

text \<open>\<open>$(...)\<close> removes the newlines at the end of the output.\<close>

definition command_subst :: "string \<Rightarrow> string" where
  "command_subst s = rev (dropWhile (\<lambda>c. c = CHR 0x0A) (rev s))"

text \<open>\<open>echo word\<close>: a word of option letters is taken as an option.\<close>

definition sh_echo :: "string \<Rightarrow> string" where
  "sh_echo s = (if echo_option s then (if CHR ''n'' \<in> set s then [] else nl) else s @ nl)"

definition sh_dirname :: "string \<Rightarrow> string" where
  "sh_dirname p =
     (let d = rev (dropWhile (\<lambda>c. c = CHR ''/'')
                (dropWhile (\<lambda>c. c \<noteq> CHR ''/'') (dropWhile (\<lambda>c. c = CHR ''/'') (rev p))))
      in if d \<noteq> [] then d else if CHR ''/'' \<in> set p then ''/'' else ''.'')"

definition install_dir :: "string \<Rightarrow> host_action" where
  "install_dir p = Run [''install'', ''-d'', ''-m'', ''0755'', p]"

definition install_file :: "string \<Rightarrow> string \<Rightarrow> host_action" where
  "install_file a b = Run [''install'', ''-m'', ''0644'', a, b]"

section \<open>The script\<close>

definition cgroup_dir :: "sh_opts \<Rightarrow> string" where
  "cgroup_dir w = ''/sys/fs/cgroup/microvm/'' @ safe_vmid (sh_VMID w)"

definition sh_chroot :: "sh_env \<Rightarrow> os \<Rightarrow> sh_opts \<Rightarrow> sh_error effect \<Rightarrow> sh_error effect" where
  "sh_chroot env os w k =
     sh_do os (install_dir (sh_CHROOT_BASE w))
     (sh_do os (install_dir (sh_dirname (chroot_root w)))
     (sh_when (\<lambda>h. se_exists env h (chroot_root w)) os (Run [''rm'', ''-rf'', chroot_root w]) k))"

definition sh_cgroup :: "sh_env \<Rightarrow> os \<Rightarrow> sh_opts \<Rightarrow> sh_error effect \<Rightarrow> sh_error effect" where
  "sh_cgroup env os w k =
     sh_when (\<lambda>h. \<not> se_isdir env h ''/sys/fs/cgroup/microvm'') os (install_dir ''/sys/fs/cgroup/microvm'')
     (sh_when (\<lambda>h. \<not> se_isdir env h (cgroup_dir w)) os (install_dir (cgroup_dir w))
     (sh_or_true os (WriteFile ''/sys/fs/cgroup/cgroup.subtree_control'' (sh_echo ''+cpu +memory +pids'') mode_644)
     (sh_or_true os (WriteFile ''/sys/fs/cgroup/microvm/cgroup.subtree_control'' (sh_echo ''+cpu +memory +pids'') mode_644)
     (sh_do os (WriteFile (cgroup_dir w @ ''/cpu.max'') (sh_echo (sh_CPU_QUOTA_US w @ '' 100000'')) mode_644)
     (sh_do os (WriteFile (cgroup_dir w @ ''/memory.max'') (sh_echo (sh_MEM_BYTES w)) mode_644)
     (sh_do os (WriteFile (cgroup_dir w @ ''/pids.max'') (sh_echo ''512'') mode_644) k))))))"

definition vsock_block :: "sh_opts \<Rightarrow> string" where
  "vsock_block w =
     (if sh_VSOCK_UDS w \<noteq> [] \<and> sh_VSOCK_CID w \<noteq> [] then
        command_subst (heredoc
          [''  ,'' @ dq ''vsock'' @ '': {'',
           ''    '' @ dq ''guest_cid'' @ '': '' @ sh_VSOCK_CID w @ '','',
           ''    '' @ dq ''uds_path'' @ '': '' @ dq (sh_VSOCK_UDS w),
           ''  }''])
      else [])"

definition net_block :: "sh_opts \<Rightarrow> string" where
  "net_block w =
     (if sh_TAP w \<noteq> [] then
        command_subst (heredoc
          [''['',
           ''    {'' @ dq ''iface_id'' @ '': '' @ dq ''eth0'' @ '', '' @ dq ''guest_mac'' @ '': '' @ dq (sh_GUEST_MAC w) @ '', '' @
             dq ''host_dev_name'' @ '': '' @ dq (sh_TAP w) @ ''}'',
           ''  ]''])
      else ''[]'')"

definition sh_boot_args :: "sh_opts \<Rightarrow> string" where
  "sh_boot_args w = or_default (sh_BOOT_ARGS w) ''console=ttyS0 reboot=k panic=1 pci=off rw''"

definition vm_json :: "sh_opts \<Rightarrow> string" where
  "vm_json w = heredoc
     [''{'',
      ''  '' @ dq ''boot-source'' @ '': {'',
      ''    '' @ dq ''kernel_image_path'' @ '': '' @ dq ''/vmlinux'' @ '','',
      ''    '' @ dq ''boot_args'' @ '': '' @ dq (sh_boot_args w),
      ''  },'',
      ''  '' @ dq ''drives'' @ '': ['',
      ''    {'' @ dq ''drive_id'' @ '': '' @ dq ''rootfs'' @ '', '' @ dq ''path_on_host'' @ '': '' @ dq ''/rootfs.ext4'' @ '', '' @
        dq ''is_root_device'' @ '': true, '' @ dq ''is_read_only'' @ '': false}'',
      ''  ],'',
      ''  '' @ dq ''network-interfaces'' @ '': '' @ net_block w @ '','',
      ''  '' @ dq ''machine-config'' @ '': {'' @ dq ''vcpu_count'' @ '': '' @ sh_VCPU w @ '', '' @
        dq ''mem_size_mib'' @ '': '' @ sh_MEM_MIB w @ '', '' @ dq ''smt'' @ '': false}'',
      ''  '' @ vsock_block w,
      ''}'']"

definition vm_json_path :: "sh_opts \<Rightarrow> string" where
  "vm_json_path w = sh_VM_DIR w @ ''/vm.json''"

definition sh_config :: "os \<Rightarrow> sh_opts \<Rightarrow> sh_error effect \<Rightarrow> sh_error effect" where
  "sh_config os w k =
     sh_do os (Run [''rm'', ''-f'', vm_json_path w])
     (sh_do os (WriteFile (vm_json_path w) (vm_json w) mode_644)
     (sh_do os (Run [''chown'', sh_UID w @ '':'' @ sh_GID w, vm_json_path w]) k))"

definition seccomp_args :: "sh_opts \<Rightarrow> string list" where
  "seccomp_args w =
     (if sh_SECCOMP_PROFILE w \<noteq> [] then [''--seccomp-filter'', sh_SECCOMP_PROFILE w]
      else [''--seccomp-level'', ''2''])"

definition res_dir :: "sh_opts \<Rightarrow> string" where
  "res_dir w = sh_VM_DIR w @ ''/jail-res''"

definition sh_stage :: "os \<Rightarrow> sh_opts \<Rightarrow> sh_error effect \<Rightarrow> sh_error effect" where
  "sh_stage os w k =
     sh_do os (Run [''rm'', ''-rf'', res_dir w])
     (sh_do os (install_dir (res_dir w))
     (sh_do os (install_file (sh_KERNEL w) (res_dir w @ ''/vmlinux''))
     (sh_do os (install_file (sh_ROOTFS w) (res_dir w @ ''/rootfs.ext4''))
     (sh_do os (install_file (vm_json_path w) (res_dir w @ ''/vm.json''))
     (sh_do os (Run [''chown'', ''-R'', sh_UID w @ '':'' @ sh_GID w, res_dir w]) k)))))"

definition jailer_cmd :: "sh_env \<Rightarrow> sh_opts \<Rightarrow> string list" where
  "jailer_cmd env w =
     [or_default (se_JAILER_BIN env) ''/usr/local/bin/jailer'',
      ''--id'', safe_vmid (sh_VMID w),
      ''--uid'', sh_UID w,
      ''--gid'', sh_GID w,
      ''--exec-file'', sh_FIRECRACKER_BIN w,
      ''--chroot-base-dir'', sh_CHROOT_BASE w,
      ''--new-pid-ns'',
      ''--cgroup-version'', ''2'',
      ''--cgroup'', ''cpu.max='' @ sh_CPU_QUOTA_US w @ '' 100000'',
      ''--cgroup'', ''memory.max='' @ sh_MEM_BYTES w,
      ''--cgroup'', ''pids.max=512'',
      ''--resource-dir'', res_dir w]
     @ seccomp_args w
     @ [''--'', ''--config-file'', ''/vm.json'', ''--api-sock'', ''/fc.sock'']"

definition jailer_sh :: "sh_env \<Rightarrow> os \<Rightarrow> string list \<Rightarrow> sh_error effect" where
  "jailer_sh env os args h =
     (case sh_options args of
        None \<Rightarrow> (Some Sh_usage, h)
      | Some w \<Rightarrow>
          sh_chroot env os w (sh_cgroup env os w (sh_config os w (sh_stage os w
            (sh_do os (Spawn (jailer_cmd env w)) return_nil)))) h)"

section \<open>The configuration is the one of a plain launch\<close>

lemma net_block_text:
  "net_block w =
     (if sh_TAP w \<noteq> [] then
        CHR ''['' # (nl @ ''    '') @
        (CHR ''{'' # [] @ dq ''iface_id'' @ '':'' @ '' '' @ dq ''eth0'' @ [] @ '','' @
           '' '' @ dq ''guest_mac'' @ '':'' @ '' '' @ dq (sh_GUEST_MAC w) @ [] @ '','' @
           '' '' @ dq ''host_dev_name'' @ '':'' @ '' '' @ dq (sh_TAP w) @ [] @ ''}'') @
        (nl @ ''  '') @ '']''
      else ''[]'')"
  by (simp add: net_block_def heredoc_def command_subst_def)

lemma vsock_block_text:
  "vsock_block w =
     (if sh_VSOCK_UDS w \<noteq> [] \<and> sh_VSOCK_CID w \<noteq> [] then
        ''  '' @ '','' @ [] @ dq ''vsock'' @ '':'' @ '' '' @
        CHR ''{'' # (nl @ ''    '') @ dq ''guest_cid'' @ '':'' @ '' '' @ sh_VSOCK_CID w @ [] @ '','' @
          (nl @ ''    '') @ dq ''uds_path'' @ '':'' @ '' '' @ dq (sh_VSOCK_UDS w) @ (nl @ ''  '') @ ''}''
      else [])"
  by (simp add: vsock_block_def heredoc_def command_subst_def)

lemma spells_net_block:
  assumes "unescaped (sh_GUEST_MAC w)" "unescaped (sh_TAP w)"
  shows "spells (Suc (Suc d)) (net_block w)
     (JArr (if sh_TAP w = [] then [] else [fcNetIface ''eth0'' (sh_GUEST_MAC w) (sh_TAP w)]))"
proof (cases "sh_TAP w = []")
  case False
  have "spells (Suc (Suc d)) (CHR ''['' # (nl @ ''    '') @
        (CHR ''{'' # [] @ dq ''iface_id'' @ '':'' @ '' '' @ dq ''eth0'' @ [] @ '','' @
           '' '' @ dq ''guest_mac'' @ '':'' @ '' '' @ dq (sh_GUEST_MAC w) @ [] @ '','' @
           '' '' @ dq ''host_dev_name'' @ '':'' @ '' '' @ dq (sh_TAP w) @ [] @ ''}'') @
        (nl @ ''  '') @ '']'')
     (JArr [fcNetIface ''eth0'' (sh_GUEST_MAC w) (sh_TAP w)])"
    unfolding fcNetIface_def using assms
    by (intro spelling) (simp_all add: blank_def unescaped_def json_ws_def)
  then show ?thesis
    using False by (simp only: net_block_text if_False if_True simp_thms)
qed (simp add: net_block_text spells_empty)

lemma spells_boot_source:
  assumes "unescaped (sh_boot_args w)"
  shows "spells (Suc d)
     (CHR ''{'' # (nl @ ''    '') @ dq ''kernel_image_path'' @ '':'' @ '' '' @ dq ''/vmlinux'' @ [] @ '','' @
        (nl @ ''    '') @ dq ''boot_args'' @ '':'' @ '' '' @ dq (sh_boot_args w) @ (nl @ ''  '') @ ''}'')
     (fcBootSource ''/vmlinux'' (sh_boot_args w))"
  unfolding fcBootSource_def using assms
  by (intro spelling) (simp_all add: blank_def unescaped_def json_ws_def)

lemma spells_drives:
  "spells (Suc (Suc d))
     (CHR ''['' # (nl @ ''    '') @
      (CHR ''{'' # [] @ dq ''drive_id'' @ '':'' @ '' '' @ dq ''rootfs'' @ [] @ '','' @
         '' '' @ dq ''path_on_host'' @ '':'' @ '' '' @ dq ''/rootfs.ext4'' @ [] @ '','' @
         '' '' @ dq ''is_root_device'' @ '':'' @ '' '' @ ''true'' @ [] @ '','' @
         '' '' @ dq ''is_read_only'' @ '':'' @ '' '' @ ''false'' @ [] @ ''}'') @
      (nl @ ''  '') @ '']'')
     (JArr [fcDrive ''rootfs'' ''/rootfs.ext4'' True False])"
  unfolding fcDrive_def
  by (intro spelling) (simp_all add: blank_def unescaped_def json_ws_def)

lemma spells_machine:
  "spells (Suc d)
     (CHR ''{'' # [] @ dq ''vcpu_count'' @ '':'' @ '' '' @ FormatInt c @ [] @ '','' @
        '' '' @ dq ''mem_size_mib'' @ '':'' @ '' '' @ FormatInt m @ [] @ '','' @
        '' '' @ dq ''smt'' @ '':'' @ '' '' @ ''false'' @ [] @ ''}'')
     (fcMachineConfig c m False)"
  unfolding fcMachineConfig_def
  by (intro spelling) (simp_all add: blank_def unescaped_def json_ws_def)

lemma spells_vsock:
  assumes "unescaped u"
  shows "spells (Suc d)
     (CHR ''{'' # (nl @ ''    '') @ dq ''guest_cid'' @ '':'' @ '' '' @ show_nat n @ [] @ '','' @
        (nl @ ''    '') @ dq ''uds_path'' @ '':'' @ '' '' @ dq u @ (nl @ ''  '') @ ''}'')
     (JObj [(''guest_cid'', JNum (show_nat n)), (''uds_path'', JStr u)])"
proof -
  have n: "show_nat n = FormatInt (int n)"
    by (simp add: FormatInt_def)
  show ?thesis
    unfolding n using assms by (intro spelling) (simp_all add: blank_def unescaped_def json_ws_def)
qed

text \<open>The members before the vsock, and after them whatever follows.\<close>

lemma spells_four:
  assumes "spells d b B" "spells d dr D" "spells d nt N" "spells d m M"
  shows "spells (Suc d) (CHR ''{'' # (nl @ ''  '') @ dq ''boot-source'' @ '':'' @ '' '' @ b @ [] @ '','' @
      (nl @ ''  '') @ dq ''drives'' @ '':'' @ '' '' @ dr @ [] @ '','' @
      (nl @ ''  '') @ dq ''network-interfaces'' @ '':'' @ '' '' @ nt @ [] @ '','' @
      (nl @ ''  '') @ dq ''machine-config'' @ '':'' @ '' '' @ m @ (nl @ ''  '' @ nl) @ ''}'')
    (JObj [(''boot-source'', B), (''drives'', D), (''network-interfaces'', N), (''machine-config'', M)])"
    and "spells d v V \<Longrightarrow>
     spells (Suc d) (CHR ''{'' # (nl @ ''  '') @ dq ''boot-source'' @ '':'' @ '' '' @ b @ [] @ '','' @
      (nl @ ''  '') @ dq ''drives'' @ '':'' @ '' '' @ dr @ [] @ '','' @
      (nl @ ''  '') @ dq ''network-interfaces'' @ '':'' @ '' '' @ nt @ [] @ '','' @
      (nl @ ''  '') @ dq ''machine-config'' @ '':'' @ '' '' @ m @ (nl @ ''    '') @ '','' @
      [] @ dq ''vsock'' @ '':'' @ '' '' @ v @ nl @ ''}'')
    (JObj [(''boot-source'', B), (''drives'', D), (''network-interfaces'', N), (''machine-config'', M), (''vsock'', V)])"
  using assms by - (intro spelling; simp add: blank_def unescaped_def json_ws_def)+

lemma vm_json_text:
  assumes "sh_VCPU w = FormatInt c" "sh_MEM_MIB w = FormatInt m"
  shows "vm_json w = (CHR ''{'' # (nl @ ''  '') @ dq ''boot-source'' @ '':'' @ '' '' @
      (CHR ''{'' # (nl @ ''    '') @ dq ''kernel_image_path'' @ '':'' @ '' '' @ dq ''/vmlinux'' @ [] @ '','' @
        (nl @ ''    '') @ dq ''boot_args'' @ '':'' @ '' '' @ dq (sh_boot_args w) @ (nl @ ''  '') @ ''}'') @ [] @ '','' @
      (nl @ ''  '') @ dq ''drives'' @ '':'' @ '' '' @
      (CHR ''['' # (nl @ ''    '') @
       (CHR ''{'' # [] @ dq ''drive_id'' @ '':'' @ '' '' @ dq ''rootfs'' @ [] @ '','' @
         '' '' @ dq ''path_on_host'' @ '':'' @ '' '' @ dq ''/rootfs.ext4'' @ [] @ '','' @
         '' '' @ dq ''is_root_device'' @ '':'' @ '' '' @ ''true'' @ [] @ '','' @
         '' '' @ dq ''is_read_only'' @ '':'' @ '' '' @ ''false'' @ [] @ ''}'') @ (nl @ ''  '') @ '']'') @ [] @ '','' @
      (nl @ ''  '') @ dq ''network-interfaces'' @ '':'' @ '' '' @ net_block w @ [] @ '','' @
      (nl @ ''  '') @ dq ''machine-config'' @ '':'' @ '' '' @
      (CHR ''{'' # [] @ dq ''vcpu_count'' @ '':'' @ '' '' @ FormatInt c @ [] @ '','' @
        '' '' @ dq ''mem_size_mib'' @ '':'' @ '' '' @ FormatInt m @ [] @ '','' @
        '' '' @ dq ''smt'' @ '':'' @ '' '' @ ''false'' @ [] @ ''}'') @ (nl @ ''  '') @ vsock_block w @ nl @ ''}'') @ nl"
  using assms by (simp add: vm_json_def heredoc_def)

definition plain_machine :: "launch_spec \<Rightarrow> bool" where
  "plain_machine sp \<longleftrightarrow>
     unescaped (ls_BootArgs sp) \<and> unescaped (ls_GuestMAC sp) \<and> unescaped (ls_TapName sp) \<and> unescaped (ls_VsockUDS sp) \<and>
     ls_TapName sp \<noteq> [] \<and> (ls_VsockUDS sp \<noteq> [] \<longrightarrow> 0 < ls_VsockCID sp)"

text \<open>The machine inside the jail: kernel and root file system at the places \<open>jailer\<close> copies them to.\<close>

definition jailed_paths :: "launch_spec \<Rightarrow> launch_spec" where
  "jailed_paths sp = sp\<lparr>ls_KernelPath := ''/vmlinux'', ls_RootfsPath := ''/rootfs.ext4''\<rparr>"

lemma sh_boot_args_expected:
  "sh_boot_args (sh_expected js) =
     (if ls_BootArgs (js_spec js) = [] then default_boot_args else ls_BootArgs (js_spec js))"
  by (simp add: sh_boot_args_def sh_expected_def or_default_def default_boot_args_def Let_def)

abbreviation boot_text :: "sh_opts \<Rightarrow> string" where
  "boot_text w \<equiv>
     CHR ''{'' # (nl @ ''    '') @ dq ''kernel_image_path'' @ '':'' @ '' '' @ dq ''/vmlinux'' @ [] @ '','' @
        (nl @ ''    '') @ dq ''boot_args'' @ '':'' @ '' '' @ dq (sh_boot_args w) @ (nl @ ''  '') @ ''}''"

lemma vm_json_reads:
  assumes boot: "\<And>d. spells (Suc (Suc d)) (boot_text (sh_expected js)) B"
    and plain: "plain_machine ((js_spec js)\<lparr>ls_BootArgs := []\<rparr>)"
  shows "json_unmarshal (vm_json (sh_expected js)) =
     (let sp = js_spec js
      in Some (fcConfig B [fcDrive ''rootfs'' ''/rootfs.ext4'' True False] [fcNetIface ''eth0'' (ls_GuestMAC sp) (ls_TapName sp)]
          (fcMachineConfig (ls_VcpuCount sp) (ls_MemMiB sp) False)
          (if ls_VsockUDS sp \<noteq> [] then Some (fcVsock (ls_VsockCID sp) (ls_VsockUDS sp)) else None)))"
proof -
  let ?w = "sh_expected js" and ?sp = "js_spec js"
  obtain d where d: "max_nesting = Suc (Suc (Suc d))"
    using that [of 9997] by (simp add: max_nesting_def)
  have tap: "sh_TAP ?w = ls_TapName ?sp" "sh_GUEST_MAC ?w = ls_GuestMAC ?sp"
    and sizes: "sh_VCPU ?w = FormatInt (ls_VcpuCount ?sp)" "sh_MEM_MIB ?w = FormatInt (ls_MemMiB ?sp)"
    and uds: "sh_VSOCK_UDS ?w = ls_VsockUDS ?sp"
      "ls_VsockUDS ?sp \<noteq> [] \<Longrightarrow> sh_VSOCK_CID ?w = show_nat (unat (ls_VsockCID ?sp))"
    using plain by (simp_all add: sh_expected_def Let_def plain_machine_def)
  have net: "spells (Suc (Suc d)) (net_block ?w) (JArr [fcNetIface ''eth0'' (ls_GuestMAC ?sp) (ls_TapName ?sp)])"
    using spells_net_block [of ?w d] plain tap by (simp add: plain_machine_def)
  note parts = spells_four [OF boot spells_drives [of d] net spells_machine [of "Suc d"]]
  show ?thesis
  proof (cases "ls_VsockUDS ?sp = []")
    case True
    then show ?thesis
      using unmarshal_spells [OF parts(1) [folded d], of nl]
      by (simp add: vm_json_text [OF sizes] vsock_block_text uds(1) blank_def json_ws_def fcConfig_def Let_def)
  next
    case False
    then have "spells (Suc (Suc d)) (CHR ''{'' # (nl @ ''    '') @ dq ''guest_cid'' @ '':'' @ '' '' @
        show_nat (unat (ls_VsockCID ?sp)) @ [] @ '','' @
        (nl @ ''    '') @ dq ''uds_path'' @ '':'' @ '' '' @ dq (ls_VsockUDS ?sp) @ (nl @ ''  '') @ ''}'')
        (fcVsock (ls_VsockCID ?sp) (ls_VsockUDS ?sp))"
      using spells_vsock [of "ls_VsockUDS ?sp" "Suc d"] plain by (simp add: fcVsock_def plain_machine_def)
    from unmarshal_spells [OF parts(2) [OF this, folded d], of nl] show ?thesis
      using False uds
      by (simp add: vm_json_text [OF sizes] vsock_block_text blank_def json_ws_def fcConfig_def Let_def)
  qed
qed

lemma fc_config_jailed:
  "fc_config (jailed_paths sp) =
     fcConfig (fcBootSource ''/vmlinux'' (if ls_BootArgs sp = [] then default_boot_args else ls_BootArgs sp))
       [fcDrive ''rootfs'' ''/rootfs.ext4'' True False] [fcNetIface ''eth0'' (ls_GuestMAC sp) (ls_TapName sp)]
       (fcMachineConfig (ls_VcpuCount sp) (ls_MemMiB sp) False)
       (if 0 < ls_VsockCID sp \<and> ls_VsockUDS sp \<noteq> [] then Some (fcVsock (ls_VsockCID sp) (ls_VsockUDS sp)) else None)"
  by (simp add: fc_config_def jailed_paths_def)

lemma vm_json_machine:
  assumes "plain_machine (js_spec js)"
  shows "json_unmarshal (vm_json (sh_expected js)) = Some (fc_config (jailed_paths (js_spec js)))"
proof -
  have "unescaped (sh_boot_args (sh_expected js))"
    using assms by (simp add: sh_boot_args_expected plain_machine_def)
      (simp add: unescaped_def default_boot_args_def)
  then have "spells (Suc (Suc d)) (boot_text (sh_expected js)) (fcBootSource ''/vmlinux'' (sh_boot_args (sh_expected js)))" for d
    by (rule spells_boot_source)
  moreover have "plain_machine ((js_spec js)\<lparr>ls_BootArgs := []\<rparr>)"
    using assms by (simp add: plain_machine_def unescaped_def)
  ultimately have "json_unmarshal (vm_json (sh_expected js)) =
     (let sp = js_spec js
      in Some (fcConfig (fcBootSource ''/vmlinux'' (sh_boot_args (sh_expected js)))
          [fcDrive ''rootfs'' ''/rootfs.ext4'' True False] [fcNetIface ''eth0'' (ls_GuestMAC sp) (ls_TapName sp)]
          (fcMachineConfig (ls_VcpuCount sp) (ls_MemMiB sp) False)
          (if ls_VsockUDS sp \<noteq> [] then Some (fcVsock (ls_VsockCID sp) (ls_VsockUDS sp)) else None)))"
    by (rule vm_json_reads)
  moreover have "(0 < ls_VsockCID (js_spec js) \<and> ls_VsockUDS (js_spec js) \<noteq> []) = (ls_VsockUDS (js_spec js) \<noteq> [])"
    using assms unfolding plain_machine_def by blast
  ultimately show ?thesis
    by (simp only: fc_config_jailed sh_boot_args_expected Let_def)
qed

section \<open>What a run of the script does\<close>

lemma sh_do_None:
  "sh_do os a k h = (None, h') \<longleftrightarrow> os h a \<and> k (h @ [(a, True)]) = (None, h')"
  by (simp add: sh_do_def attempt_eq)

lemma sh_when_None: "sh_when c os a k h = (None, h') \<Longrightarrow> \<exists>g. k (h @ g) = (None, h')"
  by (auto simp: sh_when_def sh_do_None split: if_splits intro: exI [of _ "[]"])

lemma sh_or_true_None: "sh_or_true os a k h = (None, h') \<Longrightarrow> \<exists>g. k (h @ g) = (None, h')"
  by (auto simp: sh_or_true_def ignore_eq)

lemma sh_chroot_None: "sh_chroot env os w k h = (None, h') \<Longrightarrow> \<exists>g. k (h @ g) = (None, h')"
  by (force simp: sh_chroot_def sh_do_None dest: sh_when_None)

definition cgroup_limits :: "sh_opts \<Rightarrow> host_action list" where
  "cgroup_limits w =
     [WriteFile (cgroup_dir w @ ''/cpu.max'') (sh_echo (sh_CPU_QUOTA_US w @ '' 100000'')) mode_644,
      WriteFile (cgroup_dir w @ ''/memory.max'') (sh_echo (sh_MEM_BYTES w)) mode_644,
      WriteFile (cgroup_dir w @ ''/pids.max'') (sh_echo ''512'') mode_644]"

lemma sh_cgroup_None:
  assumes "sh_cgroup env os w k h = (None, h')"
  shows "\<exists>g. k (h @ g @ map (\<lambda>a. (a, True)) (cgroup_limits w)) = (None, h')"
proof -
  let ?k = "sh_do os (cgroup_limits w ! 0) (sh_do os (cgroup_limits w ! 1) (sh_do os (cgroup_limits w ! 2) k))"
  have "\<exists>g. ?k (h @ g) = (None, h')"
    using assms unfolding sh_cgroup_def cgroup_limits_def
    by (fastforce dest!: sh_when_None sh_or_true_None)
  then show ?thesis
    by (auto simp: sh_do_None cgroup_limits_def)
qed

text \<open>\<open>quiet k\<close>: when \<open>k\<close> ends with an error nothing was started.\<close>

definition quiet :: "sh_error effect \<Rightarrow> bool" where
  "quiet k \<longleftrightarrow>
     (\<forall>h e h'. k h = (Some e, h') \<longrightarrow> e = Sh_failed \<and> (\<exists>g. h' = h @ g \<and> (\<forall>c. (Spawn c, True) \<notin> set g)))"

lemma quiet_return: "quiet return_nil"
  by (simp add: quiet_def return_nil_def)

lemma quiet_exec: "quiet (sh_do os (Spawn c) return_nil)"
  by (simp add: quiet_def return_nil_def sh_do_def attempt_eq)

lemma quiet_after:
  assumes "quiet k" "k (h @ [(a, b)]) = (Some e, h')" "\<And>c. a \<noteq> Spawn c"
  shows "e = Sh_failed \<and> (\<exists>g. h' = h @ g \<and> (\<forall>c. (Spawn c, True) \<notin> set g))"
proof -
  obtain g where g: "e = Sh_failed" "h' = (h @ [(a, b)]) @ g" "\<forall>c. (Spawn c, True) \<notin> set g"
    using assms(1,2) unfolding quiet_def by blast
  have "h' = h @ ((a, b) # g)"
    using g(2) by simp
  moreover have "\<forall>c. (Spawn c, True) \<notin> set ((a, b) # g)"
    using g(3) assms(3) by (metis prod.inject set_ConsD)
  ultimately show ?thesis
    using g(1) by blast
qed

lemma quiet_do:
  assumes "quiet k" "\<And>c. a \<noteq> Spawn c"
  shows "quiet (sh_do os a k)"
  unfolding quiet_def
proof (intro allI impI)
  fix h e h'
  assume r: "sh_do os a k h = (Some e, h')"
  show "e = Sh_failed \<and> (\<exists>g. h' = h @ g \<and> (\<forall>c. (Spawn c, True) \<notin> set g))"
  proof (cases "os h a")
    case True
    then show ?thesis
      using r quiet_after [OF assms(1) _ assms(2)] by (simp add: sh_do_def attempt_eq)
  next
    case False
    then have "e = Sh_failed" "h' = h @ [(a, False)]"
      using r by (simp_all add: sh_do_def attempt_eq)
    then show ?thesis
      by (intro conjI exI [of _ "[(a, False)]"]) simp_all
  qed
qed

lemma quiet_when: "quiet k \<Longrightarrow> (\<And>c. a \<noteq> Spawn c) \<Longrightarrow> quiet (sh_when c os a k)"
  using quiet_do [of k a os] by (simp add: quiet_def sh_when_def)

lemma quiet_or_true:
  assumes "quiet k" "\<And>c. a \<noteq> Spawn c"
  shows "quiet (sh_or_true os a k)"
  unfolding quiet_def sh_or_true_def ignore_eq
  using quiet_after [OF assms(1) _ assms(2)] by simp

lemmas quiet_script = quiet_exec quiet_do quiet_when quiet_or_true

lemma quiet_run:
  "quiet (sh_chroot env os w (sh_cgroup env os w (sh_config os w (sh_stage os w
     (sh_do os (Spawn (jailer_cmd env w)) return_nil)))))"
  unfolding sh_chroot_def sh_cgroup_def sh_config_def sh_stage_def
  by (intro quiet_script) (simp_all add: install_dir_def install_file_def)

lemma jailer_sh_success:
  assumes "sh_options args = Some w" "jailer_sh env os args h = (None, h')"
  shows "\<exists>g. h' = h @ g @ map (\<lambda>a. (a, True))
     (cgroup_limits w @
      [Run [''rm'', ''-f'', vm_json_path w], WriteFile (vm_json_path w) (vm_json w) mode_644,
       Run [''chown'', sh_UID w @ '':'' @ sh_GID w, vm_json_path w], Run [''rm'', ''-rf'', res_dir w],
       install_dir (res_dir w), install_file (sh_KERNEL w) (res_dir w @ ''/vmlinux''),
       install_file (sh_ROOTFS w) (res_dir w @ ''/rootfs.ext4''), install_file (vm_json_path w) (res_dir w @ ''/vm.json''),
       Run [''chown'', ''-R'', sh_UID w @ '':'' @ sh_GID w, res_dir w], Spawn (jailer_cmd env w)])"
proof -
  let ?k = "sh_config os w (sh_stage os w (sh_do os (Spawn (jailer_cmd env w)) return_nil))"
  have "sh_chroot env os w (sh_cgroup env os w ?k) h = (None, h')"
    using assms by (simp add: jailer_sh_def)
  then obtain g1 where "sh_cgroup env os w ?k (h @ g1) = (None, h')"
    using sh_chroot_None by blast
  then obtain g2 where k: "?k ((h @ g1) @ g2 @ map (\<lambda>a. (a, True)) (cgroup_limits w)) = (None, h')"
    using sh_cgroup_None by blast
  show ?thesis
    using k by (intro exI [of _ "g1 @ g2"]) (simp add: sh_config_def sh_stage_def sh_do_None return_nil_def)
qed

text \<open>A failing run never got as far as starting \<open>jailer\<close>.\<close>

lemma jailer_sh_failure:
  assumes "sh_options args = Some w" "jailer_sh env os args h = (Some e, h')"
  shows "e = Sh_failed \<and> (\<exists>g. h' = h @ g \<and> (\<forall>c. (Spawn c, True) \<notin> set g))"
  using assms quiet_run [of env os w] unfolding quiet_def jailer_sh_def by simp

text \<open>A number is not taken for an option of \<open>echo\<close>.\<close>

lemma sh_echo_FormatInt:
  "sh_echo (FormatInt i) = FormatInt i @ nl" "sh_echo (FormatInt i @ '' 100000'') = FormatInt i @ '' 100000'' @ nl"
proof -
  obtain c cs where i: "FormatInt i = c # cs" "is_digit c \<or> c = CHR ''-''"
    by (rule FormatInt_start)
  have neg: "\<exists>d ds. cs = d # ds \<and> is_digit d" if "c = CHR ''-''"
  proof (cases "i < 0")
    case True
    then have "cs = show_nat (nat (- i))"
      using i(1) by (simp add: FormatInt_def)
    then show ?thesis
      by (metis hd_show_nat list.exhaust list.sel(1) show_nat_nonempty)
  next
    case False
    then have "is_digit c"
      using i(1) hd_show_nat [of "nat i"] by (simp add: FormatInt_def)
    then show ?thesis
      using that by (simp add: is_digit_def char_digit_def)
  qed
  have "\<not> echo_option (FormatInt i @ s)" for s
    using i neg by (auto simp: echo_option_def is_digit_def char_digit_def)
  from this [of "[]"] this [of "'' 100000''"]
  show "sh_echo (FormatInt i) = FormatInt i @ nl" "sh_echo (FormatInt i @ '' 100000'') = FormatInt i @ '' 100000'' @ nl"
    by (simp_all add: sh_echo_def)
qed

text \<open>
  What a jailed launch of a specification should amount to: the last actions of the script, for a
  configuration \<open>text\<close>.
\<close>

definition jailed_steps :: "string \<Rightarrow> jailed_spec \<Rightarrow> string \<Rightarrow> host_action list" where
  "jailed_steps jailer js text =
     (let sp = js_spec js; vmid = safe_vmid (js_VMID js); cg = ''/sys/fs/cgroup/microvm/'' @ vmid;
          res = ls_VMDir sp @ ''/jail-res''; conf = ls_VMDir sp @ ''/vm.json'';
          uid = FormatInt (js_JailerUID js); gid = FormatInt (js_JailerGID js);
          cpu = FormatInt (js_CPUQuotaMicros js) @ '' 100000''; mem = FormatInt (js_MemBytes js)
      in [WriteFile (cg @ ''/cpu.max'') (cpu @ nl) mode_644,
          WriteFile (cg @ ''/memory.max'') (mem @ nl) mode_644,
          WriteFile (cg @ ''/pids.max'') (''512'' @ nl) mode_644,
          Run [''rm'', ''-f'', conf], WriteFile conf text mode_644, Run [''chown'', uid @ '':'' @ gid, conf],
          Run [''rm'', ''-rf'', res], install_dir res, install_file (ls_KernelPath sp) (res @ ''/vmlinux''),
          install_file (ls_RootfsPath sp) (res @ ''/rootfs.ext4''), install_file conf (res @ ''/vm.json''),
          Run [''chown'', ''-R'', uid @ '':'' @ gid, res],
          Spawn ([jailer, ''--id'', vmid, ''--uid'', uid, ''--gid'', gid, ''--exec-file'', ls_BinaryPath sp,
              ''--chroot-base-dir'', js_ChrootBase js, ''--new-pid-ns'', ''--cgroup-version'', ''2'',
              ''--cgroup'', ''cpu.max='' @ cpu, ''--cgroup'', ''memory.max='' @ mem, ''--cgroup'', ''pids.max=512'',
              ''--resource-dir'', res]
            @ (if js_SeccompProfile js \<noteq> [] then [''--seccomp-filter'', js_SeccompProfile js]
               else [''--seccomp-level'', ''2''])
            @ [''--'', ''--config-file'', ''/vm.json'', ''--api-sock'', ''/fc.sock''])])"

lemma sh_expected_fields:
  "sh_VMID (sh_expected js) = js_VMID js" "sh_UID (sh_expected js) = FormatInt (js_JailerUID js)"
  "sh_GID (sh_expected js) = FormatInt (js_JailerGID js)" "sh_CHROOT_BASE (sh_expected js) = js_ChrootBase js"
  "sh_CPU_QUOTA_US (sh_expected js) = FormatInt (js_CPUQuotaMicros js)"
  "sh_MEM_BYTES (sh_expected js) = FormatInt (js_MemBytes js)"
  "sh_KERNEL (sh_expected js) = ls_KernelPath (js_spec js)" "sh_ROOTFS (sh_expected js) = ls_RootfsPath (js_spec js)"
  "sh_VM_DIR (sh_expected js) = ls_VMDir (js_spec js)"
  "sh_FIRECRACKER_BIN (sh_expected js) = ls_BinaryPath (js_spec js)"
  "sh_SECCOMP_PROFILE (sh_expected js) = js_SeccompProfile js"
  by (simp_all add: sh_expected_def Let_def)

lemma jailer_sh_steps:
  assumes "sh_options args = Some (sh_expected js)" "jailer_sh env os args h = (None, h')"
  shows "\<exists>g. h' = h @ g @ map (\<lambda>a. (a, True))
     (jailed_steps (or_default (se_JAILER_BIN env) ''/usr/local/bin/jailer'') js (vm_json (sh_expected js)))"
proof -
  have "sh_echo ''512'' = ''512'' @ nl"
    by (simp add: sh_echo_def echo_option_def)
  then have "jailed_steps (or_default (se_JAILER_BIN env) ''/usr/local/bin/jailer'') js (vm_json (sh_expected js)) =
     (let w = sh_expected js
      in cgroup_limits w @
      [Run [''rm'', ''-f'', vm_json_path w], WriteFile (vm_json_path w) (vm_json w) mode_644,
       Run [''chown'', sh_UID w @ '':'' @ sh_GID w, vm_json_path w], Run [''rm'', ''-rf'', res_dir w],
       install_dir (res_dir w), install_file (sh_KERNEL w) (res_dir w @ ''/vmlinux''),
       install_file (sh_ROOTFS w) (res_dir w @ ''/rootfs.ext4''), install_file (vm_json_path w) (res_dir w @ ''/vm.json''),
       Run [''chown'', ''-R'', sh_UID w @ '':'' @ sh_GID w, res_dir w], Spawn (jailer_cmd env w)])"
    by (simp add: jailed_steps_def cgroup_limits_def cgroup_dir_def jailer_cmd_def seccomp_args_def res_dir_def
        vm_json_path_def sh_expected_fields Let_def sh_echo_FormatInt)
  then show ?thesis
    using jailer_sh_success [OF assms] by (simp only: Let_def)
qed

text \<open>
  C12: A jailed VM is the VM a plain launch would give, within its limits. When a jailed launch
  succeeds, it started the script with a command line of which the following holds. A run of the
  script that does not end in an error has as its last actions, each successful, exactly those of
  \<open>jailed_steps\<close>: it wrote the limits of the specification to the cgroup of the VM, wrote a
  configuration that reads as the one a plain launch writes for the same specification (with
  kernel and root file system at their places in the jail), staged kernel, root file system and
  configuration at these places, and started \<open>jailer\<close> with the identifier, the user and the same
  limits. A run that ends in an error has started nothing. The strings copied into the
  configuration must need no escaping, because the script does not escape them.
\<close>

theorem jailed_same_machine:
  assumes "LaunchJailed os getent spec h = (Inr p, h')" "plain_machine (js_spec spec)"
    and "ls_KernelPath (js_spec spec) \<noteq> []" "ls_RootfsPath (js_spec spec) \<noteq> []"
    and "ls_VMDir (js_spec spec) \<noteq> []" "ls_BinaryPath (js_spec spec) \<noteq> []"
  shows "\<exists>js script flags. jail_defaults getent spec = Inr js \<and>
     last h' = (Spawn (''/usr/bin/env'' # ''bash'' # script # flags), True) \<and>
     (\<forall>env sos k k'.
        (jailer_sh env sos flags k = (None, k') \<longrightarrow>
          (\<exists>g text. json_unmarshal text = Some (fc_config (jailed_paths (js_spec spec))) \<and>
             k' = k @ g @ map (\<lambda>a. (a, True))
               (jailed_steps (or_default (se_JAILER_BIN env) ''/usr/local/bin/jailer'') js text))) \<and>
        (\<forall>e. jailer_sh env sos flags k = (Some e, k') \<longrightarrow>
           e = Sh_failed \<and> (\<exists>g. k' = k @ g \<and> (\<forall>c. (Spawn c, True) \<notin> set g))))"
proof -
  obtain js g where js: "jail_defaults getent spec = Inr js"
    and h': "h' = h @ g @ [(Spawn (''/usr/bin/env'' # ''bash'' # js_JailerBin js # jail_flags js), True)]"
    using LaunchJailed_spawn [OF assms(1)] by blast
  have keep: "js_spec js = js_spec spec" "js_VMID js = js_VMID spec" "js_VMID spec \<noteq> []"
    using jail_defaults_keeps [OF js] by simp_all
  have opts: "sh_options (jail_flags js) = Some (sh_expected js)"
    using assms(3-6) keep by (intro sh_options_flags) simp_all
  have machine: "json_unmarshal (vm_json (sh_expected js)) = Some (fc_config (jailed_paths (js_spec spec)))"
    using vm_json_machine [of js] assms(2) keep(1) by simp
  have "last h' = (Spawn (''/usr/bin/env'' # ''bash'' # js_JailerBin js # jail_flags js), True)"
    using h' by simp
  with js show ?thesis
    using jailer_sh_steps [OF opts] jailer_sh_failure [OF opts] machine by blast
qed

definition ex_jailed :: jailed_spec where
  "ex_jailed = ex_jail\<lparr>js_spec := (js_spec ex_jail)\<lparr>ls_TapName := ''tap2'', ls_GuestMAC := ''06:00'',
     ls_VsockUDS := ''/vms/a1/v.sock''\<rparr>\<rparr>"

definition ex_sh_env :: sh_env where
  "ex_sh_env = \<lparr>se_exists = (\<lambda>_ _. False), se_isdir = (\<lambda>_ _. False), se_JAILER_BIN = []\<rparr>"

theorem jailed_same_machine_witness:
  "\<exists>p h' script flags k' text js. LaunchJailed (\<lambda>_ _. True) ex_getent ex_jailed [] = (Inr p, h') \<and>
     last h' = (Spawn (''/usr/bin/env'' # ''bash'' # script # flags), True) \<and>
     jailer_sh ex_sh_env (\<lambda>_ _. True) flags [] = (None, k') \<and>
     json_unmarshal text = Some (fc_config (jailed_paths (js_spec ex_jailed))) \<and>
     last k' = (last (jailed_steps ''/usr/local/bin/jailer'' js text), True)"
proof -
  let ?js = "(jail_fill ex_jailed)\<lparr>js_JailerUID := 990, js_JailerGID := 991\<rparr>"
  have "jail_defaults ex_getent ex_jailed = Inr ?js"
    by (simp add: jail_defaults_def jail_fill_def ex_jailed_def ex_jail_def or_default_def ex_lookup)
  then obtain p h' where l: "LaunchJailed (\<lambda>_ _. True) ex_getent ex_jailed [] = (Inr p, h')"
    by (simp add: LaunchJailed_def attempt_eq return_nil_def)
  have plain: "plain_machine (js_spec ex_jailed)"
    by (simp add: ex_jailed_def ex_jail_def plain_machine_def unescaped_def)
  have set: "ls_KernelPath (js_spec ex_jailed) \<noteq> []" "ls_RootfsPath (js_spec ex_jailed) \<noteq> []"
    "ls_VMDir (js_spec ex_jailed) \<noteq> []" "ls_BinaryPath (js_spec ex_jailed) \<noteq> []"
    by (simp_all add: ex_jailed_def ex_jail_def)
  obtain js script flags where r: "last h' = (Spawn (''/usr/bin/env'' # ''bash'' # script # flags), True)"
    and run: "\<And>env sos k k'. jailer_sh env sos flags k = (None, k') \<Longrightarrow>
      \<exists>g text. json_unmarshal text = Some (fc_config (jailed_paths (js_spec ex_jailed))) \<and>
        k' = k @ g @ map (\<lambda>a. (a, True)) (jailed_steps (or_default (se_JAILER_BIN env) ''/usr/local/bin/jailer'') js text)"
    and bad: "\<And>env sos k k' e. jailer_sh env sos flags k = (Some e, k') \<Longrightarrow> e = Sh_failed"
    using jailed_same_machine [OF l plain set] by blast
  obtain k' where k: "jailer_sh ex_sh_env (\<lambda>_ _. True) flags [] = (None, k')"
  proof (cases "sh_options flags")
    case None
    then show thesis
      using bad [of ex_sh_env "\<lambda>_ _. True" "[]" Sh_usage "[]"] by (simp add: jailer_sh_def)
  next
    case (Some w)
    then show thesis
      using that by (simp add: jailer_sh_def sh_chroot_def sh_cgroup_def sh_config_def sh_stage_def sh_do_def
          sh_when_def sh_or_true_def attempt_eq return_nil_def ex_sh_env_def)
  qed
  from run [OF k] obtain g t where "json_unmarshal t = Some (fc_config (jailed_paths (js_spec ex_jailed)))"
    "k' = g @ map (\<lambda>a. (a, True)) (jailed_steps ''/usr/local/bin/jailer'' js t)"
    by (auto simp: ex_sh_env_def or_default_def)
  moreover from this(2) have "last k' = (last (jailed_steps ''/usr/local/bin/jailer'' js t), True)"
    by (simp add: jailed_steps_def Let_def)
  ultimately show ?thesis
    using l r k by blast
qed

section \<open>Two limits\<close>

text \<open>
  Boot arguments with a quote end their string and go on as further members of the
  configuration, which then names another kernel.
\<close>

lemma boot_args_injected:
  assumes "ls_BootArgs (js_spec js) = ''a'' @ [CHR 0x22] @ '','' @ dq ''kernel_image_path'' @ '':'' @ [CHR 0x22] @ k"
    and "unescaped k" "plain_machine ((js_spec js)\<lparr>ls_BootArgs := []\<rparr>)"
  shows "\<exists>drives nets machine vsock. json_unmarshal (vm_json (sh_expected js)) = Some (fcConfig
     (JObj [(''kernel_image_path'', JStr ''/vmlinux''), (''boot_args'', JStr ''a''), (''kernel_image_path'', JStr k)])
     drives nets machine vsock)"
proof -
  let ?B = "JObj [(''kernel_image_path'', JStr ''/vmlinux''), (''boot_args'', JStr ''a''), (''kernel_image_path'', JStr k)]"
  have shape: "boot_text (sh_expected js) =
      CHR ''{'' # (nl @ ''    '') @ dq ''kernel_image_path'' @ '':'' @ '' '' @ dq ''/vmlinux'' @ [] @ '','' @
        (nl @ ''    '') @ dq ''boot_args'' @ '':'' @ '' '' @ dq ''a'' @ [] @ '','' @
        [] @ dq ''kernel_image_path'' @ '':'' @ [] @ dq k @ (nl @ ''  '') @ ''}''"
    by (simp add: sh_boot_args_expected assms(1) json_quote_def)
  have "spells (Suc (Suc d)) (boot_text (sh_expected js)) ?B" for d
    unfolding shape using assms(2) by (intro spelling) (simp_all add: blank_def unescaped_def json_ws_def)
  from vm_json_reads [OF this assms(3)] show ?thesis
    by (simp add: Let_def) blast
qed

text \<open>The name \<open>-n\<close> passes the sanitising as the empty name: the VM then has the cgroup of all VMs.\<close>

lemma vmid_option_empty: "safe_vmid ''-n'' = []" "cgroup_dir (w\<lparr>sh_VMID := ''-n''\<rparr>) = ''/sys/fs/cgroup/microvm/''"
  by (simp_all add: safe_vmid_def echo_option_def cgroup_dir_def)

end
