(* ===== verification/Spec2Isabelle.thy ===== *)
theory Spec2Isabelle
  imports Daemon Proxy_Main Proxy_Drain Firewall Vm_Process Jailer_Script
begin

text \<open>
  \<^bold>\<open>What the program is.\<close> A terminal in the browser, backed by one Firecracker virtual machine per
  session. It has four running parts.

  \<^item> The control plane (\<open>src/control-plane\<close>) is a daemon with an HTTP API. People log in with a
    shared password and a name, create a session, get a VM, talk to its console over a WebSocket, and
    delete it; rows in PostgreSQL record who had which VM when.
  \<^item> The guest agent (\<open>src/guest-agent\<close>) runs inside each VM, reports to the control plane over a
    vsock with a token from the kernel command line, and applies window sizes.
  \<^item> The proxy (\<open>src/proxy\<close>) stands between VMs and the upstream API: it replaces a session token by
    a key of its pool, meters the use and writes an audit record per request.
  \<^item> The host (\<open>src/infra\<close>) has the wrapper script that starts a VM in a jail and the packet filter
    of the VM bridge.

  The control plane starts VMs through the launcher, which builds a root file system, a TAP device and
  an address, and hands the machine to Firecracker either directly or through the jailer script; the
  session host keeps the live sessions, a warm pool boots VMs ahead, the reaper destroys idle ones.

  \<^bold>\<open>How it is modelled.\<close> Go functions are HOL functions on records with the fields of the structs;
  errors are values of sum or option types, one branch per early return; strings are byte strings,
  times and durations are integers in nanoseconds, \<open>int64\<close> counters wrap (\<open>wrap64\<close>), IPv4 addresses
  and CIDs are words. An operation under a mutex is one atomic step; where goroutines interleave, an
  inductive step relation has one rule per atomic piece and properties hold in every state of
  \<open>reach\<close>. The clock, random bytes, identifiers, the success of writes, and the answers of services
  are arguments or environment records (\<open>api_env\<close>, \<open>page_env\<close>, the environment of the proxy server), so every
  theorem holds for all of them. Commands, file writes and started processes are actions of a
  \<open>host_log\<close>, and an argument \<open>os\<close> decides which succeed.

  \<^bold>\<open>Theories, bottom up.\<close>

  \<^item> \<open>Prelude\<close>, \<open>Go_Lib\<close>: shared lemmas, reachability with the locale \<open>invariant_system\<close>; the parts of
    \<open>strings\<close>, \<open>strconv\<close>, \<open>encoding/hex\<close> that the code calls.
  \<^item> \<open>Json\<close>, \<open>Json_Number\<close>, \<open>Json_Text\<close>, \<open>Float64\<close>: \<open>encoding/json\<close> (parser, struct decoding, printer,
    round trip), numbers as \<open>float64\<close>, JSON put together by hand, double arithmetic.
  \<^item> \<open>Http\<close>, \<open>Web\<close>, \<open>Host_Actions\<close>: headers, requests and responses; the host log, paths, quoting.
  \<^item> \<open>Netalloc\<close> (\<open>netalloc.go\<close>): \<open>New\<close>, \<open>Alloc\<close>, \<open>Release\<close>; the locale \<open>address_pool\<close> is what the manager
    relies on. Closed form of every run.
  \<^item> \<open>Daemon_Config\<close> (\<open>config.go\<close>): defaults, YAML over them, environment over both, validation.
  \<^item> \<open>Firecracker\<close> (\<open>network.go\<close>, \<open>rootfs.go\<close>, \<open>launcher.go\<close>): bridge, TAP, root file system, launch.
    Mount discipline, rules added once however often the bridge is ensured.
  \<^item> \<open>Jailer\<close>, \<open>Jailer_Script\<close> (\<open>vm/jailer.go\<close>, \<open>jailer.sh\<close>): command line, its parsing by the script, and
    the whole run of the script; the jailed machine is that of a plain launch.
  \<^item> \<open>Serial\<close> (\<open>serial.go\<close>), \<open>Vm_Session\<close> (\<open>session.go\<close>, \<open>vsock_listener.go\<close>), \<open>Guest_Agent\<close> (the agent's
    \<open>main.go\<close>): console tee and its interleavings, attach and idle time as a refinement, handshake and
    window sizes end to end.
  \<^item> \<open>Vm_Manager\<close> (\<open>manager.go\<close>), \<open>Vm_Process\<close>, \<open>Warm_Pool\<close> (\<open>warmpool.go\<close>), \<open>Vm_Host\<close> (\<open>host.go\<close>),
    \<open>Launchers\<close> (\<open>launcher.go\<close>): creation with every cleanup path, addresses under interleaving,
    stopping a VM and its listener, the pool, capacity, the one report per session that ends, the
    reaper; locales \<open>vm_process\<close> and \<open>vm_launcher\<close> with the plain, jailed, mock and real instances.
  \<^item> \<open>Login_Gate\<close> (\<open>auth.go\<close>), \<open>Session_Store\<close> (\<open>db.go\<close>): cookies, names, password, rate limit,
    middleware; table operations and migrations with every way a statement fails.
  \<^item> \<open>Api_Pages\<close> (\<open>respond.go\<close>, \<open>pages.go\<close>), \<open>Api_Sessions\<close>, \<open>Api_Isolation\<close>, \<open>Api_Terminal\<close>
    (\<open>sessions.go\<close>), \<open>Api_Router\<close> (\<open>router.go\<close>, \<open>middleware.go\<close>): the handlers, what they guarantee
    together, the terminal loops, the route table.
  \<^item> \<open>Daemon\<close> (the daemon's \<open>main.go\<close>): the chain of start steps and the orderly end.
  \<^item> \<open>Quota\<close>, \<open>Keys\<close>, \<open>Audit_Log\<close>, \<open>Streaming\<close>, \<open>Proxy_Server\<close>, \<open>Proxy_Drain\<close>, \<open>Proxy_Main\<close> (the files of
    \<open>proxy\<close> of these names): limits, key pool (locale \<open>token_resolver\<close>), sinks (locale \<open>audit_sink\<close>),
    copying and metering a response, the handlers, the drain before a rotation, the start.
  \<^item> \<open>Firewall\<close> (\<open>microvm.rules\<close>, \<open>refresh-sets.sh\<close>): the rule set as data with an evaluator.

  \<^bold>\<open>What the theorems show.\<close> The properties carry numbers, C1 to C40.

  \<^item> Access: only the owner reaches a session, nothing of the API works without a login, accepted
    cookies were issued, logins work and are limited, names are canonical, restarts keep logins,
    callers learn nothing of others (C1 to C4, C31 to C33, C36).
  \<^item> Life of a session: followed from creation to end, no orphans, one report per end, capacity,
    orderly stop, idle reaping, clean failures, addresses (C5 to C9, C14, C15, C17 to C20).
  \<^item> The VM and its surroundings: terminal, console, handshake, window size, image, jail, packet
    filter (C10 to C13, C16, C39, C40).
  \<^item> The proxy: gate, headers, accounting, transparency, rotation, administration, quotas, keys
    (C21 to C30, C38).
  \<^item> Storage and start: migrations, table history, a daemon that starts is ready (C34, C35, C37).

  Some lemmas record where the code falls short of its comments: \<open>netalloc_released_not_reused\<close>,
  \<open>host_overshoot\<close>, \<open>warm_vm_lost\<close>, \<open>warm_vms_outlive\<close>, \<open>pool_overshoot\<close>, \<open>serial_send_after_close\<close>,
  \<open>guest_reconnect_lost\<close>, \<open>create_tap_leak\<close>, \<open>uuid_alias\<close>, \<open>request_id_not_logged\<close>,
  \<open>login_fail_headers\<close>, \<open>logins_ten\<close>, \<open>quota_tokens_wrap\<close>, \<open>quota_refund_other_window\<close>, \<open>stream_cost_wraps\<close>, \<open>backoff_limit\<close>,
  \<open>proxy_rule_shadowed\<close>, \<open>host_open\<close>, \<open>boot_args_injected\<close>, \<open>vmid_option_empty\<close>.

  \<^bold>\<open>Bounds and fuel.\<close> The JSON parser recurses with fuel \<open>json_fuel\<close>, twice the length of the text
  plus one; \<open>json_decode_fuel\<close> shows that more never changes the result. Its nesting limit 10000 is
  that of \<open>encoding/json\<close>. \<open>quote_runes\<close> has the length of its argument as fuel and takes at least one byte per
  step. The jump stack of the packet filter is 16 deep as in the kernel; the chains need one. All
  other loops are structural or have a termination proof. Liveness (C20) and termination (C26) give
  explicit numbers of steps.

  \<^bold>\<open>Assumptions about code that is not in the repository.\<close> HMAC (tags of messages never tagged cannot
  be guessed, in C3 only), \<open>uuid.Parse\<close>, the YAML library, IPv6 parsing, the matching of the chi
  router, the SQL driver, the kernel's connection tracking (C11). Each is an argument, and what is
  needed of it a named hypothesis of the theorem, which a witness discharges for a concrete one.

  \<^bold>\<open>Not modelled.\<close> The HTML and JavaScript of the pages (\<open>web.go\<close> embeds them; what a template writes is
  an argument) and the SQL text of the schema (the migration runner treats it as text). \<open>Open\<close> and
  \<open>Close\<close> of the database, flags, log lines, Prometheus counters, signal handling and the HTTP
  server loop, which are calls into libraries. Provisioning (\<open>bootstrap.sh\<close>, systemd, compose and seccomp files)
  and the build of the VM image, which only run tools of the operating system. Timing of goroutines
  other than as interleavings, and TLS.
\<close>

end
